(* ===== verification/Prelude.thy ===== *)
theory Prelude
  imports Main "HOL-Library.Word" "HOL-Library.Signed_Division"
begin

text \<open>
  What the component theories share: the outcome of a C or C++ call (a value, a thrown exception,
  a process exit, or undefined behaviour named by its cause), programs as functions from a state
  to an outcome and the next state, their sequencing, the C integer types, and the lemmas about
  sequencing that carry the component proofs (collection \<open>prog_simps\<close>).
\<close>

section \<open>C integers\<close>

text \<open>
  \<open>int\<close> is 32 bits wide, \<open>long\<close>, \<open>long long\<close> and \<open>size_t\<close> are 64 bits wide (LP64, the platform
  the Makefile targets). A word is read by \<open>sint\<close> where the C type is signed and by \<open>unat\<close> where
  it is unsigned.
\<close>

type_synonym c_int = "32 word"
type_synonym c_long = "64 word"
type_synonym c_llong = "64 word"
type_synonym c_size = "64 word"

text \<open>Narrowing a \<open>long long\<close> to an \<open>int\<close> keeps the low 32 bits (gcc's documented conversion).\<close>

definition llong_to_int :: "c_llong \<Rightarrow> c_int" where
  "llong_to_int w = ucast w"

definition bool_to_int :: "bool \<Rightarrow> c_int" where
  "bool_to_int b = (if b then 1 else 0)"

section \<open>Outcomes and programs\<close>

text \<open>The ways a call can end other than by returning.\<close>

datatype ub_cause =
    UseAfterFree
  | NullDeref
  | OutOfBounds
  | DivByZero
  | SignedOverflow
  | Uninitialised

datatype abrupt =
    Throw string
  | Exit int
  | Aborted
  | Deadlock
  | Undef ub_cause

datatype 'a outcome = Ret 'a | Abrupt abrupt

type_synonym ('s, 'a) prog = "'s \<Rightarrow> 'a outcome \<times> 's"

definition ret :: "'a \<Rightarrow> ('s, 'a) prog" where
  "ret x s = (Ret x, s)"

definition abort :: "abrupt \<Rightarrow> ('s, 'a) prog" where
  "abort e s = (Abrupt e, s)"

definition bnd :: "('s, 'a) prog \<Rightarrow> ('a \<Rightarrow> ('s, 'b) prog) \<Rightarrow> ('s, 'b) prog" where
  "bnd m f s = (case m s of (Ret x, t) \<Rightarrow> f x t | (Abrupt e, t) \<Rightarrow> (Abrupt e, t))"

definition andthen :: "('s, 'a) prog \<Rightarrow> ('s, 'b) prog \<Rightarrow> ('s, 'b) prog" where
  "andthen m k = bnd m (\<lambda>_. k)"

definition getst :: "('s \<Rightarrow> 'a) \<Rightarrow> ('s, 'a) prog" where
  "getst f s = (Ret (f s), s)"

definition updst :: "('s \<Rightarrow> 's) \<Rightarrow> ('s, unit) prog" where
  "updst f s = (Ret (), f s)"

text \<open>
  A program over one part of a state runs on the whole state: \<open>get\<close> reads the part, \<open>put\<close> writes
  it back.
\<close>

definition lift_prog ::
  "('s \<Rightarrow> 't) \<Rightarrow> ('t \<Rightarrow> 's \<Rightarrow> 's) \<Rightarrow> ('t, 'a) prog \<Rightarrow> ('s, 'a) prog" where
  "lift_prog get put m s = (case m (get s) of (r, t) \<Rightarrow> (r, put t s))"

text \<open>
  \<open>ScopedLock\<close> (\<open>cpp/include/ScopedLock.h\<close>): the constructor locks the mutex, the destructor unlocks
  it however the block is left. The mutexes are not recursive, so locking one the same thread holds
  never returns.
\<close>

definition ScopedLock ::
  "('s \<Rightarrow> bool) \<Rightarrow> (bool \<Rightarrow> 's \<Rightarrow> 's) \<Rightarrow> ('s, 'a) prog \<Rightarrow> ('s, 'a) prog" where
  "ScopedLock held put_held body s =
     (if held s then (Abrupt Deadlock, s)
      else (case body (put_held True s) of (r, t) \<Rightarrow> (r, put_held False t)))"

text \<open>A loop over a list, in order, stopping at the first abrupt end.\<close>

fun mapM_prog :: "('b \<Rightarrow> ('s, 'a) prog) \<Rightarrow> 'b list \<Rightarrow> ('s, 'a list) prog" where
  "mapM_prog f [] = ret []"
| "mapM_prog f (x # xs) = bnd (f x) (\<lambda>y. bnd (mapM_prog f xs) (\<lambda>ys. ret (y # ys)))"

definition no_ub :: "'a outcome \<Rightarrow> bool" where
  "no_ub r = (case r of Abrupt (Undef _) \<Rightarrow> False | _ \<Rightarrow> True)"

text \<open>
  Refinement: \<open>m\<close> and \<open>n\<close> end the same way from related states, in related states.
\<close>

definition simulates ::
  "('s \<Rightarrow> 't \<Rightarrow> bool) \<Rightarrow> ('s, 'a) prog \<Rightarrow> ('t, 'a) prog \<Rightarrow> bool" where
  "simulates R m n \<longleftrightarrow> (\<forall>s t. R s t \<longrightarrow> fst (m s) = fst (n t) \<and> R (snd (m s)) (snd (n t)))"

text \<open>
  Refinement of a specification that leaves choices: from related states \<open>m\<close> ends in one of the ways that the
  specification allows. A sequence of calls stops at the first that ends abruptly.
\<close>

definition implements ::
  "('s \<Rightarrow> 't \<Rightarrow> bool) \<Rightarrow> ('s, 'a) prog \<Rightarrow> ('t \<Rightarrow> 'a outcome \<Rightarrow> 't \<Rightarrow> bool) \<Rightarrow> bool" where
  "implements R m spec \<longleftrightarrow>
     (\<forall>s t. R s t \<longrightarrow> (\<exists>t'. spec t (fst (m s)) t' \<and> R (snd (m s)) t'))"

fun in_turn :: "('c \<Rightarrow> 't \<Rightarrow> 'a outcome \<Rightarrow> 't \<Rightarrow> bool) \<Rightarrow> 'c list \<Rightarrow> 't \<Rightarrow> 'a list outcome \<Rightarrow> 't \<Rightarrow> bool" where
  "in_turn spec [] t out t' \<longleftrightarrow> out = Ret [] \<and> t' = t"
| "in_turn spec (c # cs) t out t' \<longleftrightarrow>
     (\<exists>e. spec c t (Abrupt e) t' \<and> out = Abrupt e) \<or>
     (\<exists>x u. spec c t (Ret x) u \<and>
        ((\<exists>e. in_turn spec cs u (Abrupt e) t' \<and> out = Abrupt e) \<or>
         (\<exists>xs. in_turn spec cs u (Ret xs) t' \<and> out = Ret (x # xs))))"

section \<open>Shared lemmas\<close>

named_theorems prog_simps

lemma ret_apply [prog_simps]: "ret x s = (Ret x, s)"
  by (simp add: ret_def)

lemma abort_apply [prog_simps]: "abort e s = (Abrupt e, s)"
  by (simp add: abort_def)

lemma getst_apply [prog_simps]: "getst f s = (Ret (f s), s)"
  by (simp add: getst_def)

lemma updst_apply [prog_simps]: "updst f s = (Ret (), f s)"
  by (simp add: updst_def)

lemma bnd_Ret: "m s = (Ret x, t) \<Longrightarrow> bnd m f s = f x t"
  by (simp add: bnd_def)

lemma bnd_Abrupt: "m s = (Abrupt e, t) \<Longrightarrow> bnd m f s = (Abrupt e, t)"
  by (simp add: bnd_def)

lemma bnd_ret [prog_simps]: "bnd (ret x) f = f x"
  by (rule ext) (simp add: bnd_def ret_def)

lemma bnd_abort [prog_simps]: "bnd (abort e) f = abort e"
  by (rule ext) (simp add: bnd_def abort_def)

lemma bnd_getst [prog_simps]: "bnd (getst g) f s = f (g s) s"
  by (simp add: bnd_def getst_def)

lemma bnd_updst [prog_simps]: "bnd (updst g) f s = f () (g s)"
  by (simp add: bnd_def updst_def)

lemma bnd_assoc [prog_simps]: "bnd (bnd m f) g = bnd m (\<lambda>x. bnd (f x) g)"
  by (rule ext) (simp add: bnd_def split: prod.splits outcome.splits)

lemma bnd_if [prog_simps]: "bnd (if b then m else n) f = (if b then bnd m f else bnd n f)"
  by simp

lemma andthen_bnd [prog_simps]: "andthen m k = bnd m (\<lambda>_. k)"
  by (simp add: andthen_def)

lemma bnd_at_cong: "m s = m' s \<Longrightarrow> f = f' \<Longrightarrow> bnd m f s = bnd m' f' s"
  by (simp add: bnd_def)

lemma bnd_eq_Ret:
  "bnd m f s = (Ret y, u) \<longleftrightarrow> (\<exists>x t. m s = (Ret x, t) \<and> f x t = (Ret y, u))"
  by (auto simp: bnd_def split: prod.splits outcome.splits)

lemma bnd_eq_Abrupt:
  "bnd m f s = (Abrupt e, u) \<longleftrightarrow>
     m s = (Abrupt e, u) \<or> (\<exists>x t. m s = (Ret x, t) \<and> f x t = (Abrupt e, u))"
  by (auto simp: bnd_def split: prod.splits outcome.splits)

lemma no_ub_simps [simp]:
  "no_ub (Ret x)" "no_ub (Abrupt (Throw w))" "no_ub (Abrupt (Exit n))" "no_ub (Abrupt Deadlock)"
  "\<not> no_ub (Abrupt (Undef c))"
  by (simp_all add: no_ub_def)

lemma mapM_Cons_Ret:
  "f x s = (Ret y, s1) \<Longrightarrow> mapM_prog f xs s1 = (Ret ys, s2) \<Longrightarrow> mapM_prog f (x # xs) s = (Ret (y # ys), s2)"
  by (simp add: bnd_def ret_def)

lemma sint_32_bounds: "- 2147483648 \<le> sint (w :: c_int)" "sint (w :: c_int) < 2147483648"
  using sint_ge [of w] sint_lt [of w] by simp_all

lemma simulatesI:
  "(\<And>s t. R s t \<Longrightarrow> \<exists>r s' t'. m s = (r, s') \<and> n t = (r, t') \<and> R s' t') \<Longrightarrow> simulates R m n"
  unfolding simulates_def by (metis fst_conv snd_conv)

lemma simulatesD:
  "simulates R m n \<Longrightarrow> R s t \<Longrightarrow> n t = (r, t') \<Longrightarrow> \<exists>s'. m s = (r, s') \<and> R s' t'"
  by (intro exI [of _ "snd (m s)"]) (fastforce simp: simulates_def prod_eq_iff)

lemma simulates_ret: "simulates R (ret x) (ret x)"
  by (simp add: simulates_def prog_simps)

lemma simulates_abort: "simulates R (abort e) (abort e)"
  by (simp add: simulates_def prog_simps)

lemma simulates_bnd:
  assumes "simulates R m n" and "\<And>x. simulates R (f x) (g x)"
  shows "simulates R (bnd m f) (bnd n g)"
proof (rule simulatesI)
  fix s t assume r: "R s t"
  obtain o' t1 where n: "n t = (o', t1)" by fastforce
  from simulatesD [OF assms(1) r n] obtain s1 where m: "m s = (o', s1)" and r1: "R s1 t1" by blast
  show "\<exists>r s' t'. bnd m f s = (r, s') \<and> bnd n g t = (r, t') \<and> R s' t'"
  proof (cases o')
    case (Ret x)
    obtain o2 t2 where g: "g x t1 = (o2, t2)" by fastforce
    from simulatesD [OF assms(2) r1 g] show ?thesis by (auto simp: bnd_def m n Ret g)
  next
    case (Abrupt e)
    with r1 show ?thesis by (simp add: bnd_def m n)
  qed
qed

lemma simulates_mapM:
  "(\<And>x. x \<in> set xs \<Longrightarrow> simulates R (f x) (g x)) \<Longrightarrow> simulates R (mapM_prog f xs) (mapM_prog g xs)"
  by (induction xs) (auto intro!: simulates_bnd simulates_ret)

lemma in_turn_append:
  assumes "in_turn spec (xs @ ys) t out t'"
  obtains (first) e where "in_turn spec xs t (Abrupt e) t'" and "out = Abrupt e"
  | (second) vs u e where "in_turn spec xs t (Ret vs) u" and "in_turn spec ys u (Abrupt e) t'" and "out = Abrupt e"
  | (both) vs u ws where "in_turn spec xs t (Ret vs) u" and "in_turn spec ys u (Ret ws) t'" and "out = Ret (vs @ ws)"
  using assms
proof (induction xs arbitrary: t out thesis)
  case Nil
  show ?case
  proof (cases out)
    case (Ret ws)
    with Nil(3) [of "[]" t ws] Nil(4) show ?thesis by simp
  next
    case (Abrupt e)
    with Nil(2) [of "[]" t e] Nil(4) show ?thesis by simp
  qed
next
  case (Cons x xs)
  from Cons.prems(4) consider (stop) e where "spec x t (Abrupt e) t'" "out = Abrupt e"
    | (go) v u out2 where "spec x t (Ret v) u" "in_turn spec (xs @ ys) u out2 t'"
        "out = (case out2 of Ret vs \<Rightarrow> Ret (v # vs) | Abrupt e \<Rightarrow> Abrupt e)" by auto
  then show ?case
  proof cases
    case stop
    with Cons.prems(1) show ?thesis by auto
  next
    case go
    show ?thesis
    proof (rule Cons.IH [OF _ _ _ go(2)])
      fix e assume "in_turn spec xs u (Abrupt e) t'" "out2 = Abrupt e"
      with go Cons.prems(1) show ?thesis by auto
    next
      fix vs w e assume "in_turn spec xs u (Ret vs) w" "in_turn spec ys w (Abrupt e) t'" "out2 = Abrupt e"
      with go Cons.prems(2) [of "v # vs" w e] show ?thesis by auto
    next
      fix vs w ws assume "in_turn spec xs u (Ret vs) w" "in_turn spec ys w (Ret ws) t'" "out2 = Ret (vs @ ws)"
      with go Cons.prems(3) [of "v # vs" w ws] show ?thesis by auto
    qed
  qed
qed

lemma implementsD:
  "implements R m spec \<Longrightarrow> R s t \<Longrightarrow> m s = (r, s') \<Longrightarrow> \<exists>t'. spec t r t' \<and> R s' t'"
  unfolding implements_def by fastforce

lemma implementsI:
  "(\<And>s t r s'. R s t \<Longrightarrow> m s = (r, s') \<Longrightarrow> \<exists>t'. spec t r t' \<and> R s' t') \<Longrightarrow> implements R m spec"
  unfolding implements_def by (metis prod.collapse)

text \<open>A relation that is good for a number of calls, and for fewer.\<close>

lemma implements_turns:
  assumes less: "\<And>k s t. R (Suc k) s t \<Longrightarrow> R k s t"
  shows "(\<And>k s t c r s'. c \<in> set cs \<Longrightarrow> R (Suc k) s t \<Longrightarrow> f c s = (r, s') \<Longrightarrow> \<exists>t'. spec c t r t' \<and> R k s' t') \<Longrightarrow>
    R (length cs + k) s t \<Longrightarrow> mapM_prog f cs s = (r, s') \<Longrightarrow> \<exists>t'. in_turn spec cs t r t' \<and> R k s' t'"
proof (induction cs arbitrary: s s' t r)
  case Nil
  then show ?case by (auto simp: prog_simps)
next
  case (Cons c cs)
  obtain o1 s1 where one: "f c s = (o1, s1)" by fastforce
  from Cons.prems(1) [OF _ _ one] Cons.prems(2) obtain u where u: "spec c t o1 u" "R (length cs + k) s1 u" by fastforce
  show ?case
  proof (cases o1)
    case (Abrupt e)
    have "R j s1 u \<Longrightarrow> i \<le> j \<Longrightarrow> R i s1 u" for i j
      by (induction j) (auto simp: le_Suc_eq intro: less)
    with u(2) have "R k s1 u" by simp
    then show ?thesis using Abrupt Cons.prems(3) one u(1) by (auto simp: bnd_def)
  next
    case (Ret x)
    obtain o2 s2 where two: "mapM_prog f cs s1 = (o2, s2)" by fastforce
    have "\<exists>t'. in_turn spec cs u o2 t' \<and> R k s2 t'" by (rule Cons.IH [OF _ u(2) two]) (rule Cons.prems(1); simp)
    then obtain v where "in_turn spec cs u o2 v" "R k s2 v" by blast
    with Cons.prems(3) one two u(1) Ret show ?thesis
      by (cases o2) (auto simp: bnd_def prog_simps intro!: exI [of _ v])
  qed
qed

lemma implements_mapM:
  "(\<And>c. c \<in> set cs \<Longrightarrow> implements R (f c) (spec c)) \<Longrightarrow> implements R (mapM_prog f cs) (in_turn spec cs)"
  by (rule implementsI, rule implements_turns [where R = "\<lambda>k. R"]) (assumption | rule implementsD)+

section \<open>Lemmas: lists and searches\<close>

lemma distinct_concat_map:
  "distinct xs \<Longrightarrow> (\<And>x. x \<in> set xs \<Longrightarrow> distinct (f x)) \<Longrightarrow>
     (\<And>x y. x \<in> set xs \<Longrightarrow> y \<in> set xs \<Longrightarrow> x \<noteq> y \<Longrightarrow> set (f x) \<inter> set (f y) = {}) \<Longrightarrow> distinct (concat (map f xs))"
  by (induction xs) auto

section \<open>Lemmas: index arithmetic\<close>

lemma unat_scast_nonneg:
  assumes "0 \<le> sint (w :: c_int)"
  shows "unat (scast w :: c_size) = nat (sint w)"
proof -
  have "sint w < 2^31" using sint_lt [of w] by simp
  then have "take_bit 64 (sint w) = sint w" using assms by (simp add: take_bit_int_eq_self)
  moreover have "(scast w :: c_size) = word_of_int (sint w)" by simp
  ultimately have "uint (scast w :: c_size) = sint w"
    using assms by (simp only: unsigned_of_int) simp
  then show ?thesis by (simp only: unat_eq_nat_uint)
qed

lemma sint_of_nat_small: "k < 2^31 \<Longrightarrow> sint (of_nat k :: c_int) = int k"
  by (simp add: signed_of_nat signed_take_bit_int_eq_self)

lemma sint_succ: "(i :: c_int) \<noteq> 0x7FFFFFFF \<Longrightarrow> sint (i + 1) = sint i + 1"
proof -
  assume "i \<noteq> 0x7FFFFFFF"
  then have "sint i \<noteq> sint (0x7FFFFFFF :: c_int)" using signed_word_eqI by blast
  then have "sint i < 2147483647" using sint_lt [of i] by simp
  moreover have "- (2 ^ 31) \<le> sint i" using sint_ge [of i] by simp
  moreover have "i + 1 = word_of_int (sint i + 1)" by simp
  ultimately show ?thesis by (simp only:) (simp add: signed_of_int signed_take_bit_int_eq_self del: of_int_add)
qed

lemma mod_index:
  assumes "0 \<le> sint (x :: c_int)" and "0 < n" and "n < 2^31"
  shows "unat (scast (ucast ((scast x :: c_size) mod of_nat n) :: c_int) :: c_size) = nat (sint x) mod n"
proof -
  let ?m = "(scast x :: c_size) mod of_nat n"
  have n: "unat (of_nat n :: c_size) = n" using assms(3) by (simp add: unsigned_of_nat take_bit_nat_eq_self)
  have m: "unat ?m = nat (sint x) mod n" by (simp add: unat_mod_distrib unat_scast_nonneg [OF assms(1)] n)
  then have lt: "unat ?m < 2^31" using assms(2,3) by (simp add: order.strict_trans [OF mod_less_divisor])
  have "(ucast ?m :: c_int) = of_nat (unat ?m)" by simp
  then have "sint (ucast ?m :: c_int) = int (unat ?m)" using lt by (simp only: sint_of_nat_small)
  then show ?thesis using m by (simp add: unat_scast_nonneg)
qed

section \<open>Lemmas: lists\<close>

text \<open>Appending one element at a time is what the code's \<open>push_back\<close> loops do.\<close>

lemma foldl_push_back: "foldl (\<lambda>acc x. acc @ [f x]) acc xs = acc @ map f xs"
  by (induction xs arbitrary: acc) auto

lemma distinct_snoc: "distinct (xs @ [x]) \<longleftrightarrow> distinct xs \<and> x \<notin> set xs"
  by auto

section \<open>Lemmas: keeping an invariant\<close>

text \<open>Unless it runs into undefined behaviour, \<open>m\<close> ends in a state in order, by a value or an exception.\<close>

definition keeps :: "('s \<Rightarrow> bool) \<Rightarrow> ('s, 'a) prog \<Rightarrow> bool" where
  "keeps I m \<longleftrightarrow> (\<forall>s r s'. I s \<and> m s = (r, s') \<and> no_ub r \<longrightarrow> I s')"

named_theorems keeps_intros

lemma keepsD: "keeps I m \<Longrightarrow> I s \<Longrightarrow> m s = (r, s') \<Longrightarrow> no_ub r \<Longrightarrow> I s'"
  unfolding keeps_def by blast

lemma keeps_ret [keeps_intros]: "keeps I (ret x)"
  by (simp add: keeps_def prog_simps)

lemma keeps_abort [keeps_intros]: "keeps I (abort e)"
  by (simp add: keeps_def prog_simps)

lemma keeps_if [keeps_intros]: "keeps I m \<Longrightarrow> keeps I n \<Longrightarrow> keeps I (if b then m else n)"
  by simp

lemma no_ub_Abrupt: "no_ub (Abrupt e :: 'a outcome) \<longleftrightarrow> no_ub (Abrupt e :: 'b outcome)"
  by (simp add: no_ub_def split: abrupt.splits)

lemma keeps_bnd [keeps_intros]:
  assumes m: "keeps I m" and f: "\<And>x. keeps I (f x)"
  shows "keeps I (bnd m f)"
  unfolding keeps_def
proof (intro allI impI, elim conjE)
  fix s r s'
  assume s: "I s" and r: "bnd m f s = (r, s')" and u: "no_ub r"
  obtain o' t where mo: "m s = (o', t)" by fastforce
  show "I s'"
  proof (cases o')
    case (Ret x)
    with keepsD [OF m s mo] have "I t" by simp
    with r mo Ret u show ?thesis by (auto simp: bnd_def intro: keepsD [OF f])
  next
    case (Abrupt e)
    with r mo have "r = Abrupt e" and "s' = t" by (simp_all add: bnd_def)
    with u Abrupt keepsD [OF m s mo] no_ub_Abrupt show ?thesis by metis
  qed
qed

lemma keeps_andthen [keeps_intros]: "keeps I m \<Longrightarrow> keeps I m' \<Longrightarrow> keeps I (andthen m m')"
  unfolding andthen_def by (rule keeps_bnd)

lemma keeps_mapM [keeps_intros]: "(\<And>x. x \<in> set xs \<Longrightarrow> keeps I (f x)) \<Longrightarrow> keeps I (mapM_prog f xs)"
  by (induction xs) (auto intro!: keeps_bnd keeps_ret)

section \<open>What a program can return\<close>

definition yields :: "('a \<Rightarrow> bool) \<Rightarrow> ('s, 'a) prog \<Rightarrow> bool" where
  "yields P m \<longleftrightarrow> (\<forall>s x s'. m s = (Ret x, s') \<longrightarrow> P x)"

named_theorems yields_intros

lemma yieldsD: "yields P m \<Longrightarrow> m s = (Ret x, s') \<Longrightarrow> P x"
  unfolding yields_def by blast

lemma yields_ret [yields_intros]: "P x \<Longrightarrow> yields P (ret x)"
  by (simp add: yields_def prog_simps)

lemma yields_abort [yields_intros]: "yields P (abort e)"
  by (simp add: yields_def prog_simps)

lemma yields_bnd [yields_intros]: "(\<And>x. yields P (f x)) \<Longrightarrow> yields P (bnd m f)"
  by (fastforce simp: yields_def bnd_eq_Ret)

lemma yields_andthen [yields_intros]: "yields P k \<Longrightarrow> yields P (andthen m k)"
  unfolding andthen_bnd by (rule yields_bnd)

lemma yields_if [yields_intros]: "yields P m \<Longrightarrow> yields P n \<Longrightarrow> yields P (if b then m else n)"
  by simp

lemma yields_mapM:
  assumes "\<And>x. yields P (f x)"
  shows "yields (list_all P) (mapM_prog f xs)"
proof (induction xs)
  case Nil
  show ?case by (simp add: yields_def prog_simps)
next
  case (Cons x xs)
  then show ?case using assms by (fastforce simp: yields_def bnd_eq_Ret prog_simps)
qed

text \<open>Continuations, batches and lists that grow or change at one place.\<close>

lemma bnd_option: "bnd (case x of None \<Rightarrow> m | Some y \<Rightarrow> n y) f = (case x of None \<Rightarrow> bnd m f | Some y \<Rightarrow> bnd (n y) f)"
  by (cases x) simp_all

lemmas seq_simps = bnd_ret bnd_assoc andthen_def bnd_option bnd_if

lemma bnd_next: "(\<And>x. f x = g x) \<Longrightarrow> bnd m f = bnd m g"
  by presburger

lemma mapM_snoc:
  "mapM_prog f xs s = (Ret ys, s1) \<Longrightarrow> f x s1 = (Ret y, s2) \<Longrightarrow> mapM_prog f (xs @ [x]) s = (Ret (ys @ [y]), s2)"
  by (induction xs arbitrary: s ys) (auto simp: bnd_eq_Ret ret_def)

lemma update_split:
  assumes "t < length ts"
  obtains xs ys where "ts = xs @ ts ! t # ys" and "length xs = t" and "\<And>x. ts[t := x] = xs @ x # ys"
  using that [of "take t ts" "drop (Suc t) ts"] assms by (simp add: upd_conv_take_nth_drop id_take_nth_drop)

lemma map2_known: "map g xs = map Some ys \<Longrightarrow> map2 (\<lambda>x y. f x y) xs ys = map (\<lambda>x. f x (the (g x))) xs"
  by (induction xs arbitrary: ys) auto

end
