(* ===== verification/Utils.thy ===== *)
theory Utils
  imports Prelude
begin

text \<open>
  The helpers of \<open>cpp/include/Utils.h\<close> (decimal printing and parsing, splitting, the timer class)
  and the log writer of \<open>cpp/include/Log.h\<close>. Strings are lists of bytes. Printing and parsing
  follow the C++ stream and glibc functions the code calls.
\<close>

text \<open>What a C function sees of a string passed by \<open>c_str()\<close>: the bytes before the first NUL.\<close>

definition c_str :: "string \<Rightarrow> string" where
  "c_str s = takeWhile (\<lambda>b. b \<noteq> CHR 0x00) s"

section \<open>Decimal printing\<close>

definition digit :: "nat \<Rightarrow> char" where
  "digit n = char_of (48 + n)"

fun nat_to_dec :: "nat \<Rightarrow> string" where
  "nat_to_dec n = (if n < 10 then [digit n] else nat_to_dec (n div 10) @ [digit (n mod 10)])"

declare nat_to_dec.simps [simp del]

definition int_to_dec :: "int \<Rightarrow> string" where
  "int_to_dec i = (if i < 0 then CHR ''-'' # nat_to_dec (nat (- i)) else nat_to_dec (nat i))"

text \<open>\<open>stream << i\<close> on an \<open>int\<close>.\<close>

definition int2string :: "c_int \<Rightarrow> string" where
  "int2string i = int_to_dec (sint i)"

section \<open>Decimal parsing\<close>

text \<open>
  \<open>atoi\<close> is \<open>(int) strtol(s, NULL, 10)\<close>: white space, an optional sign, the longest run of digits,
  the value clamped to \<open>long\<close> and then cut to 32 bits.
\<close>

definition is_space :: "char \<Rightarrow> bool" where
  "is_space c = (let n = of_char c :: nat in n = 32 \<or> (9 \<le> n \<and> n \<le> 13))"

definition is_digit :: "char \<Rightarrow> bool" where
  "is_digit c = (let n = of_char c :: nat in 48 \<le> n \<and> n \<le> 57)"

definition digit_val :: "char \<Rightarrow> nat" where
  "digit_val c = of_char c - 48"

definition dec_val :: "string \<Rightarrow> nat" where
  "dec_val s = foldl (\<lambda>acc c. acc * 10 + digit_val c) 0 s"

definition clamp_long :: "int \<Rightarrow> int" where
  "clamp_long i = max (- (2 ^ 63)) (min (2 ^ 63 - 1) i)"

definition strtol10 :: "string \<Rightarrow> int" where
  "strtol10 s =
     (let t = dropWhile is_space s in
      case t of
        [] \<Rightarrow> 0
      | c # r \<Rightarrow>
          if c = CHR ''-'' then clamp_long (- int (dec_val (takeWhile is_digit r)))
          else if c = CHR ''+'' then clamp_long (int (dec_val (takeWhile is_digit r)))
          else clamp_long (int (dec_val (takeWhile is_digit t))))"

definition atoi :: "string \<Rightarrow> c_int" where
  "atoi s = word_of_int (strtol10 s)"

definition string2int :: "string \<Rightarrow> c_int" where
  "string2int s = atoi (c_str s)"

section \<open>Splitting\<close>

text \<open>
  \<open>std::getline(ss, item, delim)\<close>: fails when no byte is left; otherwise it takes the bytes up to
  the delimiter or the end, and swallows the delimiter.
\<close>

definition getline :: "char \<Rightarrow> string \<Rightarrow> (string \<times> string) option" where
  "getline d s =
     (if s = [] then None
      else Some (takeWhile (\<lambda>c. c \<noteq> d) s, drop 1 (dropWhile (\<lambda>c. c \<noteq> d) s)))"

lemma getline_shorter: "getline d s = Some (item, rest) \<Longrightarrow> length rest < length s"
  using length_dropWhile_le [of "\<lambda>c. c \<noteq> d" s]
  by (cases s) (auto simp: getline_def split: if_splits)

function split_str :: "string \<Rightarrow> char \<Rightarrow> string list" where
  "split_str s d =
     (case getline d s of None \<Rightarrow> [] | Some (item, rest) \<Rightarrow> item # split_str rest d)"
  by pat_completeness auto
termination
  by (relation "measure (\<lambda>(s, d). length s)") (auto dest: getline_shorter)

declare split_str.simps [simp del]

section \<open>The timer class\<close>

record timeval =
  tv_sec :: int
  tv_usec :: int

definition timeval0 :: timeval where
  "timeval0 = \<lparr>tv_sec = 0, tv_usec = 0\<rparr>"

record TimeUtil =
  m_Start :: timeval
  m_End :: timeval

definition TimeUtil_new :: TimeUtil where
  "TimeUtil_new = \<lparr>m_Start = timeval0, m_End = timeval0\<rparr>"

definition TimeUtil_Start :: "timeval \<Rightarrow> TimeUtil \<Rightarrow> TimeUtil" where
  "TimeUtil_Start now t = t\<lparr>m_Start := now\<rparr>"

definition getUseTime :: "TimeUtil \<Rightarrow> bool \<Rightarrow> int" where
  "getUseTime t bflag =
     (let us = 1000000 * (tv_sec (m_End t) - tv_sec (m_Start t))
               + (tv_usec (m_End t) - tv_usec (m_Start t))
      in if bflag then us sdiv 1000 else us)"

definition TimeUtil_End :: "timeval \<Rightarrow> bool \<Rightarrow> TimeUtil \<Rightarrow> int \<times> TimeUtil" where
  "TimeUtil_End now bflag t = (let t' = t\<lparr>m_End := now\<rparr> in (getUseTime t' bflag, t'))"

text \<open>The broken-down local time, as \<open>localtime\<close> fills it in.\<close>

record tm =
  tm_year :: c_int
  tm_mon :: c_int
  tm_mday :: c_int
  tm_hour :: c_int
  tm_min :: c_int
  tm_sec :: c_int

definition getCurrentTime :: "tm \<Rightarrow> string" where
  "getCurrentTime t =
     int2string (tm_year t + 1900) @ ''-'' @ int2string (tm_mon t + 1) @ ''-''
     @ int2string (tm_mday t) @ '' '' @ int2string (tm_hour t + 1) @ '':''
     @ int2string (tm_min t) @ '':'' @ int2string (tm_sec t)"

section \<open>The log file\<close>

datatype LEVEL = INFO | WARN | ERROR

fun level_str :: "LEVEL \<Rightarrow> string" where
  "level_str INFO = ''INFO''"
| "level_str WARN = ''WARN''"
| "level_str ERROR = ''ERROR''"

definition log_line :: "LEVEL \<Rightarrow> string \<Rightarrow> string \<Rightarrow> c_int \<Rightarrow> tm \<Rightarrow> string" where
  "log_line level msg file line now =
     ''['' @ level_str level @ '']'' @ ''['' @ getCurrentTime now @ '']''
     @ ''['' @ file @ '':'' @ int2string line @ '']'' @ ''['' @ msg @ '']'' @ [CHR 0x0A]"

text \<open>
  The process as \<open>Log\<close> sees it: its pid, the files, whether a file can be opened for appending, and
  whether the log mutex is held.
\<close>

record log_env =
  log_pid :: c_int
  log_files :: "string \<Rightarrow> string"
  log_openable :: "string \<Rightarrow> bool"
  log_mutex :: bool

definition log_file_name :: "c_int \<Rightarrow> string" where
  "log_file_name pid = ''codis_client_log_'' @ int2string pid @ ''.txt''"

definition Log :: "LEVEL \<Rightarrow> string \<Rightarrow> string \<Rightarrow> c_int \<Rightarrow> tm \<Rightarrow> log_env \<Rightarrow> log_env" where
  "Log level msg file line now e =
     (let e1 = e\<lparr>log_mutex := True\<rparr>;
          name = log_file_name (log_pid e1)
      in if \<not> log_openable e1 name then e1\<lparr>log_mutex := False\<rparr>
         else e1\<lparr>log_files := (log_files e1)(name := log_files e1 name @ log_line level msg file line now),
                 log_mutex := False\<rparr>)"

section \<open>Lemmas: printing and parsing are inverse\<close>

lemma of_char_digit: "n < 10 \<Longrightarrow> of_char (digit n) = (48 + n :: nat)"
  by (simp add: digit_def)

lemma is_digit_digit: "n < 10 \<Longrightarrow> is_digit (digit n)"
  by (simp add: is_digit_def of_char_digit Let_def)

lemma digit_val_digit: "n < 10 \<Longrightarrow> digit_val (digit n) = n"
  by (simp add: digit_val_def of_char_digit)

lemma dec_val_snoc: "dec_val (s @ [c]) = dec_val s * 10 + digit_val c"
  by (simp add: dec_val_def)

lemma nat_to_dec_digits: "c \<in> set (nat_to_dec n) \<Longrightarrow> is_digit c"
proof (induction n rule: nat_to_dec.induct)
  case (1 n)
  show ?case
  proof (cases "n < 10")
    case True
    with "1.prems" show ?thesis by (simp add: nat_to_dec.simps [of n] is_digit_digit)
  next
    case False
    with 1 show ?thesis by (auto simp: nat_to_dec.simps [of n] is_digit_digit)
  qed
qed

lemma nat_to_dec_not_Nil: "nat_to_dec n \<noteq> []"
  by (subst nat_to_dec.simps) simp

lemma dec_val_nat_to_dec: "dec_val (nat_to_dec n) = n"
proof (induction n rule: nat_to_dec.induct)
  case (1 n)
  show ?case
  proof (cases "n < 10")
    case True
    then show ?thesis by (simp add: nat_to_dec.simps [of n] dec_val_def digit_val_digit)
  next
    case False
    with 1 show ?thesis by (simp add: nat_to_dec.simps [of n] dec_val_snoc digit_val_digit)
  qed
qed

lemma takeWhile_digits:
  assumes "r = [] \<or> \<not> is_digit (hd r)"
  shows "takeWhile is_digit (nat_to_dec n @ r) = nat_to_dec n"
proof -
  have "takeWhile is_digit (nat_to_dec n @ r) = nat_to_dec n @ takeWhile is_digit r"
    by (rule takeWhile_append2) (rule nat_to_dec_digits)
  also have "takeWhile is_digit r = []"
    using assms by (cases r) auto
  finally show ?thesis by simp
qed

lemma nat_to_dec_Cons:
  obtains c s where "nat_to_dec n = c # s" and "is_digit c"
  using nat_to_dec_digits [of _ n] nat_to_dec_not_Nil [of n] by (cases "nat_to_dec n") auto

lemma digit_not_special:
  assumes "is_digit c"
  shows "\<not> is_space c" and "c \<noteq> CHR ''-''" and "c \<noteq> CHR ''+''"
  using assms by (auto simp: is_digit_def is_space_def Let_def)

lemma strtol10_nat:
  assumes "r = [] \<or> \<not> is_digit (hd r)"
  shows "strtol10 (nat_to_dec n @ r) = clamp_long (int n)"
proof -
  obtain c s where cs: "nat_to_dec n = c # s" and c: "is_digit c" by (rule nat_to_dec_Cons)
  have tw: "takeWhile is_digit (c # s @ r) = c # s"
    using takeWhile_digits [OF assms, of n] by (simp add: cs)
  have "dec_val (c # s) = n"
    using dec_val_nat_to_dec [of n] by (simp add: cs)
  with tw c digit_not_special [OF c] show ?thesis
    by (simp add: strtol10_def cs Let_def)
qed

lemma strtol10_neg:
  assumes "r = [] \<or> \<not> is_digit (hd r)"
  shows "strtol10 (CHR ''-'' # nat_to_dec n @ r) = clamp_long (- int n)"
  using takeWhile_digits [OF assms, of n] dec_val_nat_to_dec [of n]
  by (simp add: strtol10_def Let_def is_space_def)

lemma strtol10_int_to_dec:
  assumes "r = [] \<or> \<not> is_digit (hd r)" and "- (2 ^ 63) \<le> i" and "i < 2 ^ 63"
  shows "strtol10 (int_to_dec i @ r) = i"
proof (cases "i < 0")
  case True
  with assms strtol10_neg [OF assms(1), of "nat (- i)"] show ?thesis
    by (simp add: int_to_dec_def clamp_long_def)
next
  case False
  with assms strtol10_nat [OF assms(1), of "nat i"] show ?thesis
    by (simp add: int_to_dec_def clamp_long_def)
qed

lemma no_NUL_int2string: "CHR 0x00 \<notin> set (int2string i)"
  using nat_to_dec_digits [of "CHR 0x00"]
  by (auto simp: int2string_def int_to_dec_def is_digit_def)

lemma c_str_int2string_append: "c_str (int2string i @ r) = int2string i @ c_str r"
  using no_NUL_int2string [of i] by (auto simp: c_str_def takeWhile_append)

lemma string2int_int2string_append:
  assumes "r = [] \<or> \<not> is_digit (hd r)"
  shows "string2int (int2string i @ r) = i"
proof -
  have r: "c_str r = [] \<or> \<not> is_digit (hd (c_str r))"
    using assms by (cases r) (auto simp: c_str_def)
  have "strtol10 (int2string i @ c_str r) = sint i"
    unfolding int2string_def using sint_32_bounds [of i]
    by (intro strtol10_int_to_dec [OF r]) simp_all
  then show ?thesis by (simp add: string2int_def atoi_def c_str_int2string_append)
qed

lemma int2string_inj: "int2string i = int2string j \<Longrightarrow> i = j"
  using string2int_int2string_append [of "[]"] by (metis append_Nil2)

section \<open>Lemmas: splitting\<close>

fun join_str :: "char \<Rightarrow> string list \<Rightarrow> string" where
  "join_str d [] = []"
| "join_str d [x] = x"
| "join_str d (x # y # ys) = x @ d # join_str d (y # ys)"

lemma split_str_Nil [simp]: "split_str [] d = []"
  by (subst split_str.simps) (simp add: getline_def)

lemma split_str_last:
  assumes "x \<noteq> []" and "d \<notin> set x"
  shows "split_str x d = [x]"
proof -
  have "dropWhile (\<lambda>c. c \<noteq> d) x = []"
    using assms(2) by (auto simp: dropWhile_eq_Nil_conv)
  moreover have "takeWhile (\<lambda>c. c \<noteq> d) x = x"
    using assms(2) by (auto simp: takeWhile_eq_all_conv)
  ultimately have "getline d x = Some (x, [])"
    using assms(1) by (simp only: getline_def) simp
  then show ?thesis by (subst split_str.simps) simp
qed

lemma split_str_piece:
  assumes "d \<notin> set x"
  shows "split_str (x @ d # r) d = x # split_str r d"
proof -
  have "takeWhile (\<lambda>c. c \<noteq> d) (x @ d # r) = x" and "dropWhile (\<lambda>c. c \<noteq> d) (x @ d # r) = d # r"
    using assms by (auto simp: takeWhile_append dropWhile_append takeWhile_eq_all_conv)
  then show ?thesis
    by (subst split_str.simps) (simp add: getline_def)
qed

lemma split_join:
  "\<forall>x \<in> set xs. d \<notin> set x \<Longrightarrow> xs = [] \<or> last xs \<noteq> [] \<Longrightarrow> split_str (join_str d xs) d = xs"
  by (induction d xs rule: join_str.induct) (auto simp: split_str_last split_str_piece)

lemma split_str_no_delim: "x \<in> set (split_str s d) \<Longrightarrow> d \<notin> set x"
proof (induction s d rule: split_str.induct)
  case (1 s d)
  show ?case
  proof (cases "getline d s")
    case None
    with "1.prems" show ?thesis by (simp add: split_str.simps [of s])
  next
    case (Some p)
    with 1 show ?thesis
      by (cases p) (auto simp: split_str.simps [of s] getline_def split: if_splits
          dest: set_takeWhileD)
  qed
qed

section \<open>Properties\<close>

text \<open>Parsing what was printed gives the number back, whatever follows it that is not a digit: for
  every 32-bit integer, and with no byte of the number lost to a NUL.\<close>

lemma int_print_parse:
  assumes "r = [] \<or> \<not> is_digit (hd r)"
  shows "string2int (int2string i @ r) = i"
  using assms by (rule string2int_int2string_append)

text \<open>Splitting at a delimiter undoes joining with it, when no piece holds the delimiter and the
  last piece is not empty (a trailing empty piece is lost).\<close>

lemma split_undoes_join:
  assumes "\<forall>x \<in> set xs. d \<notin> set x" and "xs = [] \<or> last xs \<noteq> []"
  shows "split_str (join_str d xs) d = xs"
  using assms by (rule split_join)

end
