(* ===== verification/Reply.thy ===== *)
theory Reply
  imports Prelude
begin

text \<open>
  The reply tree of hiredis (\<open>redisReply\<close> of \<open>hiredis.h\<close>) and its conversion into the client's own
  class \<open>Reply\<close> (\<open>cpp/include/Reply.h\<close>, \<open>cpp/src/Reply.cpp\<close>).
\<close>

section \<open>Data\<close>

text \<open>
  A \<open>redisReply\<close>: type code, integer, the \<open>len\<close> bytes at \<open>str\<close> (none where \<open>str\<close> is NULL, with
  \<open>len\<close> 0), and the elements.
\<close>

datatype redisReply =
  RedisReply (rr_type: c_int) (rr_integer: c_llong) (rr_str: string) (rr_element: "redisReply list")

text \<open>The type codes of the library.\<close>

definition REDIS_REPLY_STRING :: c_int where "REDIS_REPLY_STRING = 1"
definition REDIS_REPLY_ARRAY :: c_int where "REDIS_REPLY_ARRAY = 2"
definition REDIS_REPLY_INTEGER :: c_int where "REDIS_REPLY_INTEGER = 3"
definition REDIS_REPLY_NIL :: c_int where "REDIS_REPLY_NIL = 4"
definition REDIS_REPLY_STATUS :: c_int where "REDIS_REPLY_STATUS = 5"
definition REDIS_REPLY_ERROR :: c_int where "REDIS_REPLY_ERROR = 6"

text \<open>The enumeration \<open>Reply::type_t\<close>; \<open>OtherType\<close> is a code outside it.\<close>

datatype type_t = STRING | ARRAY | INTEGER | NIL | STATUS | ERROR_TYPE | OtherType c_int

definition type_of_code :: "c_int \<Rightarrow> type_t" where
  "type_of_code n =
     (if n = 1 then STRING else if n = 2 then ARRAY else if n = 3 then INTEGER
      else if n = 4 then NIL else if n = 5 then STATUS else if n = 6 then ERROR_TYPE
      else OtherType n)"

datatype Reply =
  Reply (rep_error: bool) (rep_type: type_t) (rep_str: string) (rep_integer: c_llong) (rep_elements: "Reply list")

section \<open>Operations\<close>

definition Reply_default :: Reply where
  "Reply_default = Reply True ERROR_TYPE [] 0 []"

text \<open>The case \<open>ERROR\<close> of the switch falls through into \<open>STRING\<close> and \<open>STATUS\<close>.\<close>

fun Reply_of :: "redisReply \<Rightarrow> Reply" where
  "Reply_of (RedisReply t n s es) =
     (case type_of_code t of
        ERROR_TYPE \<Rightarrow> Reply True ERROR_TYPE s 0 []
      | STRING \<Rightarrow> Reply False STRING s 0 []
      | STATUS \<Rightarrow> Reply False STATUS s 0 []
      | INTEGER \<Rightarrow> Reply False INTEGER [] n []
      | ARRAY \<Rightarrow> Reply False ARRAY [] 0 (map Reply_of es)
      | other \<Rightarrow> Reply False other [] 0 [])"

definition SetErrorMessage :: "string \<Rightarrow> Reply \<Rightarrow> Reply" where
  "SetErrorMessage message r = Reply True (rep_type r) message (rep_integer r) (rep_elements r)"

text \<open>\<open>Reply reply; reply.SetErrorMessage(m)\<close>, the client's error reply.\<close>

definition error_reply :: "string \<Rightarrow> Reply" where
  "error_reply message = SetErrorMessage message Reply_default"

section \<open>Lemmas\<close>

text \<open>
  What a reply of the client may look like: the error flag goes with the error type, and each of the other
  fields is filled for the types it is meant for only.
\<close>

fun reply_wf :: "Reply \<Rightarrow> bool" where
  "reply_wf (Reply e t s n es) \<longleftrightarrow>
     (e \<longleftrightarrow> t = ERROR_TYPE) \<and> (s \<noteq> [] \<longrightarrow> t \<in> {STRING, STATUS, ERROR_TYPE}) \<and>
     (n \<noteq> 0 \<longrightarrow> t = INTEGER) \<and> (es \<noteq> [] \<longrightarrow> t = ARRAY) \<and> list_all reply_wf es"

lemma Reply_of_wf: "reply_wf (Reply_of r)"
  by (induction r) (auto simp: list_all_iff split: type_t.splits)

lemma error_reply_wf: "reply_wf (error_reply m)"
  by (simp add: error_reply_def SetErrorMessage_def Reply_default_def)

text \<open>The codes of the library and of the enumeration agree.\<close>

lemma type_of_library_code:
  "type_of_code REDIS_REPLY_STRING = STRING" "type_of_code REDIS_REPLY_ARRAY = ARRAY"
  "type_of_code REDIS_REPLY_INTEGER = INTEGER" "type_of_code REDIS_REPLY_NIL = NIL"
  "type_of_code REDIS_REPLY_STATUS = STATUS" "type_of_code REDIS_REPLY_ERROR = ERROR_TYPE"
  by (simp_all add: type_of_code_def REDIS_REPLY_STRING_def REDIS_REPLY_ARRAY_def REDIS_REPLY_INTEGER_def
      REDIS_REPLY_NIL_def REDIS_REPLY_STATUS_def REDIS_REPLY_ERROR_def)

lemma type_of_code_simps [simp]:
  "type_of_code 1 = STRING" "type_of_code 2 = ARRAY" "type_of_code 3 = INTEGER"
  "type_of_code 4 = NIL" "type_of_code 5 = STATUS" "type_of_code 6 = ERROR_TYPE"
  by (simp_all add: type_of_code_def)

lemma type_of_code_iff:
  "type_of_code t = STRING \<longleftrightarrow> t = 1" "type_of_code t = ARRAY \<longleftrightarrow> t = 2"
  "type_of_code t = INTEGER \<longleftrightarrow> t = 3" "type_of_code t = NIL \<longleftrightarrow> t = 4"
  "type_of_code t = STATUS \<longleftrightarrow> t = 5" "type_of_code t = ERROR_TYPE \<longleftrightarrow> t = 6"
  by (auto simp: type_of_code_def)

lemma error_reply_sel [simp]:
  "rep_error (error_reply m)" "rep_str (error_reply m) = m" "rep_integer (error_reply m) = 0"
  "rep_elements (error_reply m) = []" "rep_type (error_reply m) = ERROR_TYPE"
  by (simp_all add: error_reply_def SetErrorMessage_def Reply_default_def)

lemma error_Reply_of [simp]: "rep_error (Reply_of r) \<longleftrightarrow> rr_type r = 6"
  by (cases r) (auto simp: type_of_code_iff split: type_t.splits)

lemma type_Reply_of [simp]: "rep_type (Reply_of r) = type_of_code (rr_type r)"
  by (cases r) (auto split: type_t.splits)

lemma integer_Reply_of: "rep_integer (Reply_of r) = (if rr_type r = 3 then rr_integer r else 0)"
  by (cases r) (auto simp: type_of_code_iff split: type_t.splits)

lemma str_Reply_of: "rep_str (Reply_of r) = (if rr_type r \<in> {1, 5, 6} then rr_str r else [])"
  by (cases r) (auto simp: type_of_code_iff split: type_t.splits)

lemma elements_Reply_of:
  "rep_elements (Reply_of r) = (if rr_type r = 2 then map Reply_of (rr_element r) else [])"
  by (cases r) (auto simp: type_of_code_iff split: type_t.splits)

text \<open>
  A reply as the protocol parser builds it: one of the six types, and every field the type does not
  use left at zero.
\<close>

fun wf_reply :: "redisReply \<Rightarrow> bool" where
  "wf_reply (RedisReply t n s es) \<longleftrightarrow>
     t \<in> {1, 2, 3, 4, 5, 6} \<and> (t \<noteq> 3 \<longrightarrow> n = 0) \<and> (t \<notin> {1, 5, 6} \<longrightarrow> s = [])
     \<and> (t \<noteq> 2 \<longrightarrow> es = []) \<and> (\<forall>e \<in> set es. wf_reply e)"

fun code_of_type :: "type_t \<Rightarrow> c_int" where
  "code_of_type STRING = 1"
| "code_of_type ARRAY = 2"
| "code_of_type INTEGER = 3"
| "code_of_type NIL = 4"
| "code_of_type STATUS = 5"
| "code_of_type ERROR_TYPE = 6"
| "code_of_type (OtherType n) = n"

text \<open>What can be rebuilt from the client's \<open>Reply\<close>.\<close>

fun unReply :: "Reply \<Rightarrow> redisReply" where
  "unReply (Reply e t s n es) = RedisReply (code_of_type t) n s (map unReply es)"

lemma unReply_Reply_of: "wf_reply r \<Longrightarrow> unReply (Reply_of r) = r"
proof (induction r rule: wf_reply.induct)
  case (1 t n s es)
  then have "map (unReply \<circ> Reply_of) es = es" if "t = 2"
    using that by (auto intro: map_idI)
  with 1 show ?case by auto
qed

section \<open>Properties\<close>

text \<open>C19: The client's reply loses nothing: from it the whole tree the protocol parser built, nested
  arrays included, can be rebuilt.\<close>

theorem reply_conversion_lossless:
  assumes "wf_reply r"
  shows "unReply (Reply_of r) = r"
  using assms by (rule unReply_Reply_of)

theorem reply_conversion_lossless_witness:
  "unReply (Reply_of (RedisReply 2 0 [] [RedisReply 1 0 ''v'' [], RedisReply 4 0 [] [], RedisReply 3 7 [] []])) =
     RedisReply 2 0 [] [RedisReply 1 0 ''v'' [], RedisReply 4 0 [] [], RedisReply 3 7 [] []]"
  by (rule reply_conversion_lossless) simp

end
