(* ===== verification/Redis_Env.thy ===== *)
theory Redis_Env
  imports Utils Reply
begin

text \<open>
  What the client code sees of its surroundings: the hiredis library, given as a record of functions
  over an opaque world (its sources are not in the repository, so it is a parameter everywhere), and
  the process-wide state: the heap of connection contexts, the stop flags of the event loops, and
  the messages logged.

  A pointer is \<open>None\<close> for NULL or \<open>Some a\<close>. An allocation takes an address that was never used, so a
  pointer into freed memory stays recognisable: reading through it is undefined behaviour
  (\<open>UseAfterFree\<close>), and so is reading through NULL (\<open>NullDeref\<close>).
\<close>

section \<open>Contexts and the library\<close>

type_synonym addr = nat
type_synonym ptr = "addr option"

text \<open>The fields of \<open>redisContext\<close> and \<open>redisAsyncContext\<close> that the client reads.\<close>

record redisContext =
  rc_err :: c_int
  rc_errstr :: string
  rc_fd :: c_int

record redisAsyncContext =
  ac_c :: redisContext
  ac_err :: c_int
  ac_errstr :: string
  ac_ev_data :: ptr
  ac_onDisconnect :: bool

definition REDIS_OK :: c_int where "REDIS_OK = 0"
definition REDIS_ERR :: c_int where "REDIS_ERR = - 1"

text \<open>
  The library calls. \<open>hr_connect\<close> and \<open>hr_aconnect\<close> return NULL or a context; \<open>hr_command\<close> returns
  NULL or a reply and may set the context's error; \<open>hr_acommand\<close> queues a command with the address of
  its request data and returns a status; \<open>hr_adisconnect\<close> says whether the context is freed at once
  (no reply outstanding) or later.
\<close>

record 'w hiredis =
  hr_connect :: "string \<Rightarrow> c_int \<Rightarrow> 'w \<Rightarrow> redisContext option \<times> 'w"
  hr_set_timeout :: "redisContext \<Rightarrow> timeval \<Rightarrow> 'w \<Rightarrow> redisContext \<times> 'w"
  hr_command :: "redisContext \<Rightarrow> string list \<Rightarrow> 'w \<Rightarrow> redisReply option \<times> redisContext \<times> 'w"
  hr_free :: "redisContext \<Rightarrow> 'w \<Rightarrow> 'w"
  hr_aconnect :: "string \<Rightarrow> c_int \<Rightarrow> 'w \<Rightarrow> redisAsyncContext option \<times> 'w"
  hr_acommand ::
    "redisAsyncContext \<Rightarrow> string list \<Rightarrow> addr \<Rightarrow> 'w \<Rightarrow> c_int \<times> redisAsyncContext \<times> 'w"
  hr_adisconnect :: "redisAsyncContext \<Rightarrow> 'w \<Rightarrow> bool \<times> 'w"

text \<open>\<open>redisAeEvents\<close> of \<open>hiredis_ae.h\<close>; an event loop is named by its pointer.\<close>

record redisAeEvents =
  ev_context :: addr
  ev_loop :: addr
  ev_fd :: c_int
  ev_reading :: bool
  ev_writing :: bool

text \<open>
  The request data of an asynchronous \<open>mget2\<close> (\<open>MgetAsyncRequestContext\<close> of \<open>CodisClient.h\<close>): the
  caller's keys, its callback (a code address), the address of the local variable of \<open>mget2\<close> that
  holds the context, and the client.
\<close>

record MgetAsyncRequestContext =
  user_keylist :: "string list"
  rq_callback :: addr
  rq_async_context :: addr
  rq_client :: addr

type_synonym KVMap = "(string \<times> string) list"

section \<open>The process\<close>

text \<open>
  \<open>locals\<close> holds the local variables whose address escapes, while their function runs; \<open>called\<close> the
  calls made to the user's callbacks, with the map each was given.
\<close>

record 'w sys =
  world :: 'w
  ctxs :: "addr \<rightharpoonup> redisContext"
  actxs :: "addr \<rightharpoonup> redisAsyncContext"
  aevents :: "addr \<rightharpoonup> redisAeEvents"
  requests :: "addr \<rightharpoonup> MgetAsyncRequestContext"
  locals :: "addr \<rightharpoonup> ptr"
  called :: "(addr \<times> KVMap) list"
  loop_stop :: "addr \<Rightarrow> bool"
  next_addr :: addr
  logs :: "(LEVEL \<times> string) list"

definition LOG :: "LEVEL \<Rightarrow> string \<Rightarrow> ('w sys, unit) prog" where
  "LOG level msg = updst (\<lambda>s. s\<lparr>logs := logs s @ [(level, msg)]\<rparr>)"

definition load_ctx :: "ptr \<Rightarrow> ('w sys, redisContext) prog" where
  "load_ctx p s =
     (case p of
        None \<Rightarrow> (Abrupt (Undef NullDeref), s)
      | Some a \<Rightarrow> (case ctxs s a of None \<Rightarrow> (Abrupt (Undef UseAfterFree), s) | Some c \<Rightarrow> (Ret c, s)))"

definition load_actx :: "ptr \<Rightarrow> ('w sys, redisAsyncContext) prog" where
  "load_actx p s =
     (case p of
        None \<Rightarrow> (Abrupt (Undef NullDeref), s)
      | Some a \<Rightarrow> (case actxs s a of None \<Rightarrow> (Abrupt (Undef UseAfterFree), s) | Some c \<Rightarrow> (Ret c, s)))"

text \<open>The library calls on the heap.\<close>

definition redisConnect :: "'w hiredis \<Rightarrow> string \<Rightarrow> c_int \<Rightarrow> ('w sys, ptr) prog" where
  "redisConnect H ip port s =
     (case hr_connect H ip port (world s) of
        (None, w) \<Rightarrow> (Ret None, s\<lparr>world := w\<rparr>)
      | (Some c, w) \<Rightarrow>
          (Ret (Some (next_addr s)),
           s\<lparr>world := w, ctxs := (ctxs s)(next_addr s \<mapsto> c), next_addr := Suc (next_addr s)\<rparr>))"

definition redisFree :: "'w hiredis \<Rightarrow> ptr \<Rightarrow> ('w sys, unit) prog" where
  "redisFree H p =
     bnd (load_ctx p) (\<lambda>c.
       updst (\<lambda>s. s\<lparr>world := hr_free H c (world s), ctxs := (ctxs s)(the p := None)\<rparr>))"

definition redisSetTimeout :: "'w hiredis \<Rightarrow> ptr \<Rightarrow> timeval \<Rightarrow> ('w sys, unit) prog" where
  "redisSetTimeout H p tv =
     bnd (load_ctx p) (\<lambda>c.
       updst (\<lambda>s. case hr_set_timeout H c tv (world s) of
                    (c', w) \<Rightarrow> s\<lparr>world := w, ctxs := (ctxs s)(the p \<mapsto> c')\<rparr>))"

definition redisCommandArgv ::
  "'w hiredis \<Rightarrow> ptr \<Rightarrow> string list \<Rightarrow> ('w sys, redisReply option) prog" where
  "redisCommandArgv H p argv =
     bnd (load_ctx p) (\<lambda>c s.
       case hr_command H c argv (world s) of
         (r, c', w) \<Rightarrow> (Ret r, s\<lparr>world := w, ctxs := (ctxs s)(the p \<mapsto> c')\<rparr>))"

definition redisAsyncConnect :: "'w hiredis \<Rightarrow> string \<Rightarrow> c_int \<Rightarrow> ('w sys, ptr) prog" where
  "redisAsyncConnect H ip port s =
     (case hr_aconnect H ip port (world s) of
        (None, w) \<Rightarrow> (Ret None, s\<lparr>world := w\<rparr>)
      | (Some c, w) \<Rightarrow>
          (Ret (Some (next_addr s)),
           s\<lparr>world := w, actxs := (actxs s)(next_addr s \<mapsto> c), next_addr := Suc (next_addr s)\<rparr>))"

definition redisAsyncSetDisconnectCallback :: "ptr \<Rightarrow> ('w sys, unit) prog" where
  "redisAsyncSetDisconnectCallback p =
     bnd (load_actx p) (\<lambda>c.
       updst (\<lambda>s. s\<lparr>actxs := (actxs s)(the p \<mapsto> c\<lparr>ac_onDisconnect := True\<rparr>)\<rparr>))"

definition redisAsyncCommandArgv ::
  "'w hiredis \<Rightarrow> ptr \<Rightarrow> string list \<Rightarrow> addr \<Rightarrow> ('w sys, c_int) prog" where
  "redisAsyncCommandArgv H p argv req =
     bnd (load_actx p) (\<lambda>c s.
       case hr_acommand H c argv req (world s) of
         (r, c', w) \<Rightarrow> (Ret r, s\<lparr>world := w, actxs := (actxs s)(the p \<mapsto> c')\<rparr>))"

section \<open>The event-loop adapter, as the client uses it\<close>

text \<open>
  \<open>redisAeAttach\<close> hooks a context into a loop unless it is hooked already. \<open>redisAeCleanup\<close>, the hook
  hiredis runs when it frees the context, stops the whole loop before it frees its own data.
\<close>

definition redisAeAttach :: "addr \<Rightarrow> ptr \<Rightarrow> ('w sys, c_int) prog" where
  "redisAeAttach lp p =
     bnd (load_actx p) (\<lambda>c s.
       if ac_ev_data c \<noteq> None then (Ret REDIS_ERR, s)
       else
         (Ret REDIS_OK,
          s\<lparr>aevents := (aevents s)(next_addr s \<mapsto>
              \<lparr>ev_context = the p, ev_loop = lp, ev_fd = rc_fd (ac_c c),
               ev_reading = False, ev_writing = False\<rparr>),
            actxs := (actxs s)(the p \<mapsto> c\<lparr>ac_ev_data := Some (next_addr s)\<rparr>),
            next_addr := Suc (next_addr s)\<rparr>))"

definition redisAeCleanup :: "ptr \<Rightarrow> ('w sys, unit) prog" where
  "redisAeCleanup d s =
     (case d of
        None \<Rightarrow> (Abrupt (Undef NullDeref), s)
      | Some a \<Rightarrow>
          (case aevents s a of
             None \<Rightarrow> (Abrupt (Undef UseAfterFree), s)
           | Some e \<Rightarrow>
               (Ret (), s\<lparr>loop_stop := (loop_stop s)(ev_loop e := True),
                          aevents := (aevents s)(a := None)\<rparr>)))"

text \<open>
  \<open>redisAsyncDisconnect\<close>: where hiredis frees the context at once it first runs the cleanup hook,
  if one was attached.
\<close>

definition redisAsyncDisconnect :: "'w hiredis \<Rightarrow> ptr \<Rightarrow> ('w sys, unit) prog" where
  "redisAsyncDisconnect H p =
     bnd (load_actx p) (\<lambda>c s.
       case hr_adisconnect H c (world s) of
         (False, w) \<Rightarrow> (Ret (), s\<lparr>world := w\<rparr>)
       | (True, w) \<Rightarrow>
           bnd (if ac_ev_data c = None then ret () else redisAeCleanup (ac_ev_data c))
             (\<lambda>_. updst (\<lambda>s. s\<lparr>actxs := (actxs s)(the p := None)\<rparr>))
             (s\<lparr>world := w\<rparr>))"

section \<open>Lemmas\<close>

named_theorems env_simps

lemma LOG_apply [env_simps]: "LOG l m s = (Ret (), s\<lparr>logs := logs s @ [(l, m)]\<rparr>)"
  by (simp add: LOG_def updst_def)

lemma load_ctx_simps [env_simps]:
  "load_ctx None s = (Abrupt (Undef NullDeref), s)"
  "load_ctx (Some a) s =
     (case ctxs s a of None \<Rightarrow> (Abrupt (Undef UseAfterFree), s) | Some c \<Rightarrow> (Ret c, s))"
  by (simp_all add: load_ctx_def)

lemma load_actx_simps [env_simps]:
  "load_actx None s = (Abrupt (Undef NullDeref), s)"
  "load_actx (Some a) s =
     (case actxs s a of None \<Rightarrow> (Abrupt (Undef UseAfterFree), s) | Some c \<Rightarrow> (Ret c, s))"
  by (simp_all add: load_actx_def)

lemma redisFree_live [env_simps]:
  "ctxs s a = Some c \<Longrightarrow>
     redisFree H (Some a) s =
       (Ret (), s\<lparr>world := hr_free H c (world s), ctxs := (ctxs s)(a := None)\<rparr>)"
  by (simp add: redisFree_def bnd_def load_ctx_def updst_def)

lemma redisFree_freed [env_simps]:
  "ctxs s a = None \<Longrightarrow> redisFree H (Some a) s = (Abrupt (Undef UseAfterFree), s)"
  by (simp add: redisFree_def bnd_def load_ctx_def)

lemma redisSetTimeout_live [env_simps]:
  "ctxs s a = Some c \<Longrightarrow>
     redisSetTimeout H (Some a) tv s =
       (Ret (), s\<lparr>world := snd (hr_set_timeout H c tv (world s)),
                  ctxs := (ctxs s)(a \<mapsto> fst (hr_set_timeout H c tv (world s)))\<rparr>)"
  by (simp add: redisSetTimeout_def bnd_def load_ctx_def updst_def split: prod.splits)

lemma redisSetTimeout_freed [env_simps]:
  "ctxs s a = None \<Longrightarrow> redisSetTimeout H (Some a) tv s = (Abrupt (Undef UseAfterFree), s)"
  by (simp add: redisSetTimeout_def bnd_def load_ctx_def)

lemma redisCommandArgv_live [env_simps]:
  "ctxs s a = Some c \<Longrightarrow>
     redisCommandArgv H (Some a) argv s =
       (case hr_command H c argv (world s) of
          (r, c', w) \<Rightarrow> (Ret r, s\<lparr>world := w, ctxs := (ctxs s)(a \<mapsto> c')\<rparr>))"
  by (simp add: redisCommandArgv_def bnd_def load_ctx_def)

lemma redisCommandArgv_freed [env_simps]:
  "ctxs s a = None \<Longrightarrow> redisCommandArgv H (Some a) argv s = (Abrupt (Undef UseAfterFree), s)"
  by (simp add: redisCommandArgv_def bnd_def load_ctx_def)

text \<open>Every allocated address is below the next one, and freed addresses are not given out again.\<close>

definition heap_ok :: "'w sys \<Rightarrow> bool" where
  "heap_ok s \<longleftrightarrow> dom (ctxs s) \<subseteq> {..<next_addr s} \<and> dom (actxs s) \<subseteq> {..<next_addr s}
                 \<and> dom (aevents s) \<subseteq> {..<next_addr s}"

lemma heap_ok_frame [simp]:
  "heap_ok (s\<lparr>logs := l\<rparr>) = heap_ok s" "heap_ok (s\<lparr>world := w\<rparr>) = heap_ok s"
  by (simp_all add: heap_ok_def)

lemma heap_ok_fresh: "heap_ok s \<Longrightarrow> ctxs s (next_addr s) = None"
  by (auto simp: heap_ok_def domIff)

lemma heap_ok_below: "heap_ok s \<Longrightarrow> ctxs s a = Some c \<Longrightarrow> a < next_addr s"
  by (auto simp: heap_ok_def)

lemma heap_ok_grow:
  assumes "heap_ok s" and "next_addr s \<le> next_addr s'" and "actxs s' = actxs s"
    and "aevents s' = aevents s" and "dom (ctxs s') \<subseteq> dom (ctxs s) \<union> {..<next_addr s'}"
  shows "heap_ok s'"
proof -
  have "{..<next_addr s} \<subseteq> {..<next_addr s'}" using assms(2) by auto
  then show ?thesis using assms unfolding heap_ok_def by (metis Un_least order.trans order.refl)
qed

lemma keeps_load [keeps_intros]: "keeps I (load_ctx p)"
  by (auto simp: keeps_def load_ctx_def split: option.splits)

lemma keeps_load_actx [keeps_intros]: "keeps I (load_actx p)"
  by (auto simp: keeps_def load_actx_def split: option.splits)

end
