(* ===== verification/Client_Pool.thy ===== *)
theory Client_Pool
  imports Redis_Env
begin

text \<open>
  The connection pool of one redis address (\<open>cpp/include/RedisClientPool.h\<close>,
  \<open>cpp/src/RedisClientPool.cpp\<close>): a queue of idle synchronous contexts, a queue of idle asynchronous
  contexts, a counter for each, and a mutex for each. Programs run on the process state beside the
  pool object.
\<close>

section \<open>State\<close>

record RedisClientPool =
  address :: string
  port :: c_int
  active :: bool
  async :: bool
  coreSize :: c_size
  maxSize :: c_size
  unUsedMutex :: bool
  unUsed :: "ptr list"
  used :: c_size
  unUsedAsyncMutex :: bool
  unUsedAsync :: "ptr list"
  usedAsync :: c_size
  password :: string

type_synonym 'w pst = "'w sys \<times> RedisClientPool"

definition onsys :: "('w sys, 'a) prog \<Rightarrow> ('w pst, 'a) prog" where
  "onsys = lift_prog fst (\<lambda>t s. (t, snd s))"

definition getpool :: "(RedisClientPool \<Rightarrow> 'a) \<Rightarrow> ('w pst, 'a) prog" where
  "getpool f = getst (\<lambda>(s, p). f p)"

definition updpool :: "(RedisClientPool \<Rightarrow> RedisClientPool) \<Rightarrow> ('w pst, unit) prog" where
  "updpool f = updst (\<lambda>(s, p). (s, f p))"

definition lock_unUsed :: "('w pst, 'a) prog \<Rightarrow> ('w pst, 'a) prog" where
  "lock_unUsed = ScopedLock (\<lambda>(s, p). unUsedMutex p) (\<lambda>b (s, p). (s, p\<lparr>unUsedMutex := b\<rparr>))"

definition lock_unUsedAsync :: "('w pst, 'a) prog \<Rightarrow> ('w pst, 'a) prog" where
  "lock_unUsedAsync =
     ScopedLock (\<lambda>(s, p). unUsedAsyncMutex p) (\<lambda>b (s, p). (s, p\<lparr>unUsedAsyncMutex := b\<rparr>))"

text \<open>
  The constructor initialises every member but \<open>usedAsync_\<close>, which keeps whatever the memory held:
  the argument \<open>garbage\<close>.
\<close>

definition RedisClientPool_new ::
  "c_size \<Rightarrow> string \<Rightarrow> c_int \<Rightarrow> string \<Rightarrow> bool \<Rightarrow> bool \<Rightarrow> c_size \<Rightarrow> c_size \<Rightarrow> RedisClientPool" where
  "RedisClientPool_new garbage addr prt pw act asy core mx =
     \<lparr>address = addr, port = prt, active = act, async = asy, coreSize = core, maxSize = mx,
      unUsedMutex = False, unUsed = [], used = 0,
      unUsedAsyncMutex = False, unUsedAsync = [], usedAsync = garbage, password = pw\<rparr>"

text \<open>The constructor call with its default arguments, as \<open>CodisClient\<close> makes it.\<close>

definition RedisClientPool_default :: "c_size \<Rightarrow> string \<Rightarrow> c_int \<Rightarrow> RedisClientPool" where
  "RedisClientPool_default garbage addr prt =
     RedisClientPool_new garbage addr prt [] True False 1 100"

section \<open>Synchronous connections\<close>

definition Destroy :: "'w hiredis \<Rightarrow> ptr \<Rightarrow> ('w sys, unit) prog" where
  "Destroy H item =
     (if item \<noteq> None then andthen (LOG INFO ''free redis context'') (redisFree H item) else ret ())"

text \<open>\<open>redisCommand(ret, "AUTH %s", ...)\<close> sends two arguments; its reply is not looked at.\<close>

definition create :: "'w hiredis \<Rightarrow> ('w pst, ptr) prog" where
  "create H =
     bnd (getpool (\<lambda>p. (address p, port p, password p))) (\<lambda>(addr, prt, pw).
     onsys
       (bnd (redisConnect H (c_str addr) prt) (\<lambda>rt.
        bnd (if rt \<noteq> None then bnd (load_ctx rt) (\<lambda>c. ret (rc_err c \<noteq> 0)) else ret False) (\<lambda>bad.
        if bad then
          bnd (load_ctx rt) (\<lambda>c.
          andthen (LOG ERROR (''Error: '' @ rc_errstr c))
         (andthen (redisFree H rt)
                  (ret None)))
        else if pw \<noteq> [] then
          andthen (redisCommandArgv H rt [''AUTH'', c_str pw]) (ret rt)
        else ret rt))))"

fun borrow_loop :: "'w hiredis \<Rightarrow> ptr list \<Rightarrow> ('w pst, ptr) prog" where
  "borrow_loop H [] = ret None"
| "borrow_loop H (rt # rest) =
     bnd (updpool (\<lambda>p. p\<lparr>unUsed := rest\<rparr>)) (\<lambda>_.
     bnd (onsys (load_ctx rt)) (\<lambda>c.
       if rc_err c = REDIS_OK then ret rt
       else andthen (onsys (redisFree H rt)) (borrow_loop H rest)))"

definition borrowItem :: "'w hiredis \<Rightarrow> ('w pst, ptr) prog" where
  "borrowItem H =
     lock_unUsed
       (bnd (getpool unUsed) (\<lambda>q.
        bnd (borrow_loop H q) (\<lambda>rt.
        if rt = None then
          bnd (create H) (\<lambda>rt.
            if rt \<noteq> None then andthen (updpool (\<lambda>p. p\<lparr>used := used p + 1\<rparr>)) (ret rt)
            else ret rt)
        else ret rt)))"

definition returnItem :: "ptr \<Rightarrow> ('w pst, unit) prog" where
  "returnItem item =
     lock_unUsed
       (andthen (updpool (\<lambda>p. p\<lparr>unUsed := unUsed p @ [item]\<rparr>))
                (updpool (\<lambda>p. p\<lparr>used := used p - 1\<rparr>)))"

text \<open>
  \<open>Reconnect\<close> takes the pointer by value: it frees the context the caller holds, and the context it
  connects stays in its own parameter, which is gone when it returns. The error of the new context is
  read, for a log line, before it is compared with NULL.
\<close>

definition Reconnect :: "'w hiredis \<Rightarrow> ptr \<Rightarrow> ('w pst, bool) prog" where
  "Reconnect H rc =
     lock_unUsed
       (bnd (getpool (\<lambda>p. (address p, port p))) (\<lambda>(addr, prt).
        onsys
          (bnd (Destroy H rc) (\<lambda>_.
           bnd (redisConnect H (c_str addr) prt) (\<lambda>rc.
           bnd (load_ctx rc) (\<lambda>c.
           bnd (LOG INFO (''connect redisContext->err: '' @ int2string (rc_err c))) (\<lambda>_.
           if rc \<noteq> None \<and> rc_err c \<noteq> 0 then
             andthen (LOG ERROR (''reconnect Error: '' @ rc_errstr c))
            (andthen (redisFree H rc)
                     (ret False))
           else ret True)))))))"

definition getId :: "RedisClientPool \<Rightarrow> string" where
  "getId p = address p @ '':'' @ int2string (port p)"

text \<open>A pointer as a stream prints it: \<open>0\<close> for NULL, otherwise hexadecimal.\<close>

fun nat_to_hex :: "nat \<Rightarrow> string" where
  "nat_to_hex n =
     (if n < 16 then [(''0123456789abcdef'') ! n] else nat_to_hex (n div 16) @ [''0123456789abcdef'' ! (n mod 16)])"

declare nat_to_hex.simps [simp del]

definition ptr_to_str :: "ptr \<Rightarrow> string" where
  "ptr_to_str p = (case p of None \<Rightarrow> ''0'' | Some a \<Rightarrow> ''0x'' @ nat_to_hex a)"

text \<open>The destructor closes the idle synchronous contexts; the asynchronous ones stay.\<close>

definition RedisClientPool_delete :: "'w hiredis \<Rightarrow> ('w pst, unit) prog" where
  "RedisClientPool_delete H =
     lock_unUsed
       (bnd (getpool unUsed) (\<lambda>q.
        andthen
          (onsys (mapM_prog (\<lambda>it.
             andthen (LOG INFO (''begin closing ~~~ mapping; redisContext* = '' @ ptr_to_str it))
                     (Destroy H it)) q))
          (ret ())))"

section \<open>Asynchronous connections\<close>

definition createAsync :: "'w hiredis \<Rightarrow> addr \<Rightarrow> ('w pst, ptr) prog" where
  "createAsync H lp =
     bnd (getpool (\<lambda>p. (address p, port p))) (\<lambda>(addr, prt).
     onsys
       (bnd (redisAsyncConnect H (c_str addr) prt) (\<lambda>rt.
        bnd (if rt \<noteq> None then bnd (load_actx rt) (\<lambda>c. ret (ac_err c)) else ret 0) (\<lambda>e.
        if e \<noteq> 0 then
          andthen (LOG ERROR (''reconnect Error: '' @ int2string e)) (ret None)
        else
          andthen (redisAsyncSetDisconnectCallback rt)
         (andthen (redisAeAttach lp rt)
                  (ret rt))))))"

text \<open>
  The lock of the queue is released before a new context is made, and taken again for the counter.
  An idle context with an error is dropped without being freed.
\<close>

fun borrow_async_loop :: "ptr list \<Rightarrow> ('w pst, ptr) prog" where
  "borrow_async_loop [] = ret None"
| "borrow_async_loop (rt # rest) =
     bnd (updpool (\<lambda>p. p\<lparr>unUsedAsync := rest\<rparr>)) (\<lambda>_.
     bnd (onsys (load_actx rt)) (\<lambda>c.
       if ac_err c = REDIS_OK then ret rt else borrow_async_loop rest))"

definition borrowItemAsync :: "'w hiredis \<Rightarrow> addr \<Rightarrow> ('w pst, ptr) prog" where
  "borrowItemAsync H lp =
     bnd (lock_unUsedAsync (bnd (getpool unUsedAsync) borrow_async_loop)) (\<lambda>rt.
     if rt \<noteq> None then ret rt
     else
       bnd (createAsync H lp) (\<lambda>rt.
         if rt \<noteq> None
         then andthen (lock_unUsedAsync (updpool (\<lambda>p. p\<lparr>usedAsync := usedAsync p + 1\<rparr>))) (ret rt)
         else ret rt))"

definition returnItemAsync :: "ptr \<Rightarrow> ('w pst, unit) prog" where
  "returnItemAsync item =
     lock_unUsedAsync
       (andthen (updpool (\<lambda>p. p\<lparr>unUsedAsync := unUsedAsync p @ [item]\<rparr>))
                (updpool (\<lambda>p. p\<lparr>usedAsync := usedAsync p - 1\<rparr>)))"

definition DestroyAsync :: "'w hiredis \<Rightarrow> ptr \<Rightarrow> ('w sys, unit) prog" where
  "DestroyAsync H item =
     (if item \<noteq> None
      then andthen (LOG INFO ''free redis async context'') (redisAsyncDisconnect H item)
      else ret ())"

definition ReconnectAsync :: "'w hiredis \<Rightarrow> ptr \<Rightarrow> addr \<Rightarrow> ('w pst, bool) prog" where
  "ReconnectAsync H rc lp =
     bnd (getpool (\<lambda>p. (address p, port p))) (\<lambda>(addr, prt).
     onsys
       (bnd (DestroyAsync H rc) (\<lambda>_.
        bnd (redisAsyncConnect H (c_str addr) prt) (\<lambda>rc.
        bnd (if rc \<noteq> None then bnd (load_actx rc) (\<lambda>c. ret (if ac_err c \<noteq> 0 then Some (ac_errstr c) else None))
             else ret None) (\<lambda>e.
        case e of
          Some msg \<Rightarrow> andthen (LOG ERROR (''reconnect Error: '' @ msg)) (ret False)
        | None \<Rightarrow>
            andthen (redisAsyncSetDisconnectCallback rc)
           (andthen (redisAeAttach lp rc)
                    (ret True)))))))"

definition redisAsyncDisconnectCallback :: "redisAsyncContext \<Rightarrow> c_int \<Rightarrow> ('w sys, unit) prog" where
  "redisAsyncDisconnectCallback c status =
     (if status = REDIS_ERR
      then LOG ERROR (''Async Disconnect error: '' @ int2string (ac_err c)) else ret ())"

section \<open>Lemmas: running the operations\<close>

named_theorems pool_simps

lemma onsys_apply [pool_simps]:
  "onsys m (s, p) = (case m s of (r, s') \<Rightarrow> (r, (s', p)))"
  by (simp add: onsys_def lift_prog_def)

lemma bnd_onsys_Ret: "m s = (Ret x, s') \<Longrightarrow> bnd (onsys m) f (s, p) = f x (s', p)"
  by (simp add: bnd_def pool_simps)

lemma getpool_apply [pool_simps]: "getpool f (s, p) = (Ret (f p), (s, p))"
  by (simp add: getpool_def getst_def)

lemma updpool_apply [pool_simps]: "updpool f (s, p) = (Ret (), (s, f p))"
  by (simp add: updpool_def updst_def)

lemma bnd_getpool [pool_simps]: "bnd (getpool g) f (s, p) = f (g p) (s, p)"
  by (simp add: bnd_def pool_simps)

lemma bnd_updpool [pool_simps]: "bnd (updpool g) f (s, p) = f () (s, g p)"
  by (simp add: bnd_def pool_simps)

lemma lock_unUsed_apply [pool_simps]:
  "lock_unUsed m (s, p) =
     (if unUsedMutex p then (Abrupt Deadlock, (s, p))
      else (case m (s, p\<lparr>unUsedMutex := True\<rparr>) of
              (r, (s', p')) \<Rightarrow> (r, (s', p'\<lparr>unUsedMutex := False\<rparr>))))"
  by (simp add: lock_unUsed_def ScopedLock_def case_prod_beta)

lemma lock_unUsedAsync_apply [pool_simps]:
  "lock_unUsedAsync m (s, p) =
     (if unUsedAsyncMutex p then (Abrupt Deadlock, (s, p))
      else (case m (s, p\<lparr>unUsedAsyncMutex := True\<rparr>) of
              (r, (s', p')) \<Rightarrow> (r, (s', p'\<lparr>unUsedAsyncMutex := False\<rparr>))))"
  by (simp add: lock_unUsedAsync_def ScopedLock_def case_prod_beta)

lemmas run_simps = prog_simps env_simps pool_simps

text \<open>What freeing the contexts \<open>as\<close>, in order, does to the process.\<close>

fun free_all :: "'w hiredis \<Rightarrow> addr list \<Rightarrow> 'w sys \<Rightarrow> 'w sys" where
  "free_all H [] s = s"
| "free_all H (a # as) s =
     free_all H as (s\<lparr>world := hr_free H (the (ctxs s a)) (world s), ctxs := (ctxs s)(a := None)\<rparr>)"

lemma free_all_ctxs: "ctxs (free_all H as s) b = (if b \<in> set as then None else ctxs s b)"
  by (induction as arbitrary: s) auto

lemma free_all_frame [simp]:
  "next_addr (free_all H as s) = next_addr s" "actxs (free_all H as s) = actxs s"
  "aevents (free_all H as s) = aevents s" "logs (free_all H as s) = logs s"
  by (induction as arbitrary: s) auto

text \<open>The idle contexts the loop drops: live, with their error set.\<close>

definition broken_in :: "'w sys \<Rightarrow> addr \<Rightarrow> bool" where
  "broken_in s a \<longleftrightarrow> (\<exists>c. ctxs s a = Some c \<and> rc_err c \<noteq> REDIS_OK)"

definition healthy_in :: "'w sys \<Rightarrow> addr \<Rightarrow> bool" where
  "healthy_in s a \<longleftrightarrow> (\<exists>c. ctxs s a = Some c \<and> rc_err c = REDIS_OK)"

lemma borrow_loop_broken:
  assumes "\<forall>a \<in> set bad. broken_in s a" and "distinct bad"
  shows "borrow_loop H (map Some bad @ q) (s, p) =
           borrow_loop H q (free_all H bad s, if bad = [] then p else p\<lparr>unUsed := q\<rparr>)"
  using assms
proof (induction bad arbitrary: s p)
  case Nil
  then show ?case by simp
next
  case (Cons a bad)
  then obtain c where c: "ctxs s a = Some c" and e: "rc_err c \<noteq> REDIS_OK"
    by (auto simp: broken_in_def)
  let ?s = "s\<lparr>world := hr_free H c (world s), ctxs := (ctxs s)(a := None)\<rparr>"
  have "\<forall>b \<in> set bad. broken_in ?s b"
    using Cons.prems by (auto simp: broken_in_def)
  moreover have "distinct bad" using Cons.prems by simp
  ultimately show ?case
    using Cons.IH [of ?s "p\<lparr>unUsed := map Some bad @ q\<rparr>"] c e
    by (auto simp: run_simps bnd_def)
qed

lemma borrow_loop_healthy:
  "healthy_in s a \<Longrightarrow> borrow_loop H (Some a # rest) (s, p) = (Ret (Some a), (s, p\<lparr>unUsed := rest\<rparr>))"
  by (auto simp: healthy_in_def run_simps bnd_def)

lemma borrow_loop_Nil: "borrow_loop H [] sp = (Ret None, sp)"
  by (simp add: prog_simps)

text \<open>Every queue of live contexts splits at its first healthy one.\<close>

lemma idle_split [consumes 1, case_names all_broken first_healthy]:
  assumes "\<forall>a \<in> set as. a \<in> dom (ctxs s)"
  obtains (all_broken) "\<forall>a \<in> set as. broken_in s a"
    | (first_healthy) bad a rest where "as = bad @ a # rest" and "\<forall>b \<in> set bad. broken_in s b"
        and "healthy_in s a"
proof (cases "\<exists>a \<in> set as. healthy_in s a")
  case True
  then obtain bad a rest where "as = bad @ a # rest" and "healthy_in s a"
    and "\<forall>b \<in> set bad. \<not> healthy_in s b"
    by (metis split_list_first_prop)
  moreover have "\<forall>b \<in> set bad. broken_in s b"
    using calculation assms by (fastforce simp: healthy_in_def broken_in_def)
  ultimately show thesis by (metis first_healthy)
next
  case False
  then have "\<forall>a \<in> set as. broken_in s a"
    using assms by (fastforce simp: healthy_in_def broken_in_def)
  then show thesis by (rule all_broken)
qed

text \<open>\<open>create\<close> without a password: three ends, no undefined behaviour.\<close>

definition connect_result :: "'w hiredis \<Rightarrow> 'w sys \<Rightarrow> RedisClientPool \<Rightarrow> redisContext option \<times> 'w" where
  "connect_result H s p = hr_connect H (c_str (address p)) (port p) (world s)"

lemma create_NULL:
  "password p = [] \<Longrightarrow> connect_result H s p = (None, w) \<Longrightarrow>
     create H (s, p) = (Ret None, (s\<lparr>world := w\<rparr>, p))"
  by (simp add: create_def run_simps bnd_def redisConnect_def connect_result_def)

lemma create_failed:
  "password p = [] \<Longrightarrow> connect_result H s p = (Some c, w) \<Longrightarrow> rc_err c \<noteq> 0 \<Longrightarrow>
     create H (s, p) =
       (Ret None, (s\<lparr>world := hr_free H c w, ctxs := (ctxs s)(next_addr s := None),
                     next_addr := Suc (next_addr s),
                     logs := logs s @ [(ERROR, ''Error: '' @ rc_errstr c)]\<rparr>, p))"
  by (simp add: create_def run_simps bnd_def redisConnect_def connect_result_def)

lemma create_ok:
  "password p = [] \<Longrightarrow> connect_result H s p = (Some c, w) \<Longrightarrow> rc_err c = 0 \<Longrightarrow>
     create H (s, p) =
       (Ret (Some (next_addr s)),
        (s\<lparr>world := w, ctxs := (ctxs s)(next_addr s \<mapsto> c), next_addr := Suc (next_addr s)\<rparr>, p))"
  by (simp add: create_def run_simps bnd_def redisConnect_def connect_result_def)

section \<open>Lemmas: what holds of the process\<close>

text \<open>A property of the process, beside an object that works on it.\<close>

definition on_sys :: "('w sys \<Rightarrow> bool) \<Rightarrow> 'w sys \<times> 'c \<Rightarrow> bool" where
  "on_sys I sc \<longleftrightarrow> I (fst sc)"

lemma keeps_pool_state [keeps_intros]:
  "keeps (on_sys I) (getpool f)" "keeps (on_sys I) (updpool g)" "keeps I m \<Longrightarrow> keeps (on_sys I) (onsys m)"
  "keeps (on_sys I) m' \<Longrightarrow> keeps (on_sys I) (lock_unUsed m')"
  unfolding keeps_def
  by (auto simp: on_sys_def getpool_def getst_def updpool_def updst_def onsys_def lift_prog_def lock_unUsed_def
      ScopedLock_def split: prod.splits if_splits; fastforce)+

end
