(* ===== verification/Pool_Ownership.thy ===== *)
theory Pool_Ownership
  imports Client_Pool
begin

text \<open>
  Who owns a connection: the interface between the pool and the threads that borrow from it, as the
  locale \<open>conn_pool\<close>; its consequence, proved once for any provider, that no connection is ever in the
  hands of two threads; and the two providers of \<open>RedisClientPool\<close>, synchronous and asynchronous.
\<close>

section \<open>Threads over a pool\<close>

text \<open>
  A configuration is the shared state and what each thread holds. A thread borrows, uses what it
  holds, or gives it back; each call is atomic, because the pool takes its mutex around it.
\<close>

type_synonym 's conf = "'s \<times> (nat \<Rightarrow> addr set)"

inductive pool_step ::
  "('s, ptr) prog \<Rightarrow> (ptr \<Rightarrow> ('s, unit) prog) \<Rightarrow> (addr \<Rightarrow> 's \<Rightarrow> 's \<Rightarrow> bool) \<Rightarrow>
   's conf \<Rightarrow> 's conf \<Rightarrow> bool"
  for borrow give act where
  borrows: "borrow s = (Ret (Some a), s') \<Longrightarrow>
     pool_step borrow give act (s, held) (s', held(t := insert a (held t)))"
| borrows_nothing: "borrow s = (Ret None, s') \<Longrightarrow>
     pool_step borrow give act (s, held) (s', held)"
| uses: "a \<in> held t \<Longrightarrow> act a s s' \<Longrightarrow>
     pool_step borrow give act (s, held) (s', held)"
| gives: "a \<in> held t \<Longrightarrow> give (Some a) s = (Ret (), s') \<Longrightarrow>
     pool_step borrow give act (s, held) (s', held(t := held t - {a}))"

inductive pool_reach ::
  "('s, ptr) prog \<Rightarrow> (ptr \<Rightarrow> ('s, unit) prog) \<Rightarrow> (addr \<Rightarrow> 's \<Rightarrow> 's \<Rightarrow> bool) \<Rightarrow>
   's \<Rightarrow> 's conf \<Rightarrow> bool"
  for borrow give act s0 where
  reach_init: "pool_reach borrow give act s0 (s0, \<lambda>_. {})"
| reach_step: "pool_reach borrow give act s0 c \<Longrightarrow> pool_step borrow give act c c' \<Longrightarrow>
     pool_reach borrow give act s0 c'"

inductive_cases pool_step_from: "pool_step borrow give act (s, held) (s', held')"

text \<open>A step changes what one thread holds, by at most one connection.\<close>

lemma pool_step_one_thread:
  assumes "pool_step borrow give act (s, held) (s', held')"
  obtains t a where "held' = held \<or> held' = held(t := insert a (held t)) \<or>
    (a \<in> held t \<and> held' = held(t := held t - {a}))"
  using assms by (rule pool_step_from) blast+

definition held_all :: "(nat \<Rightarrow> addr set) \<Rightarrow> addr set" where
  "held_all held = (\<Union>t. held t)"

definition exclusive :: "(nat \<Rightarrow> addr set) \<Rightarrow> bool" where
  "exclusive held \<longleftrightarrow> (\<forall>t u. t \<noteq> u \<longrightarrow> held t \<inter> held u = {})"

lemma held_all_borrow: "held_all (held(t := insert a (held t))) = insert a (held_all held)"
  by (auto simp: held_all_def split: if_splits)

lemma held_all_give:
  assumes "exclusive held" and "a \<in> held t"
  shows "held_all (held(t := held t - {a})) = held_all held - {a}"
  using assms by (auto simp: held_all_def exclusive_def split: if_splits)

lemma exclusive_borrow:
  "exclusive held \<Longrightarrow> a \<notin> held_all held \<Longrightarrow> exclusive (held(t := insert a (held t)))"
  by (auto simp: exclusive_def held_all_def)

lemma exclusive_give: "exclusive held \<Longrightarrow> exclusive (held(t := held t - {a}))"
  by (auto simp: exclusive_def)

section \<open>The interface\<close>

text \<open>
  \<open>inv B s\<close>: the pool is in order while the contexts \<open>B\<close> are out. The laws say what a borrow and a
  return do to it, that neither can fail, and that using a borrowed context keeps it.
\<close>

locale conn_pool =
  fixes borrow :: "('s, ptr) prog"
    and give :: "ptr \<Rightarrow> ('s, unit) prog"
    and act :: "addr \<Rightarrow> 's \<Rightarrow> 's \<Rightarrow> bool"
    and inv :: "addr set \<Rightarrow> 's \<Rightarrow> bool"
  assumes borrow_returns: "inv B s \<Longrightarrow> \<exists>r s'. borrow s = (Ret r, s')"
    and borrow_some: "inv B s \<Longrightarrow> borrow s = (Ret (Some a), s') \<Longrightarrow> a \<notin> B \<and> inv (insert a B) s'"
    and borrow_none: "inv B s \<Longrightarrow> borrow s = (Ret None, s') \<Longrightarrow> inv B s'"
    and give_returns: "inv B s \<Longrightarrow> a \<in> B \<Longrightarrow> \<exists>s'. give (Some a) s = (Ret (), s') \<and> inv (B - {a}) s'"
    and act_keeps: "inv B s \<Longrightarrow> a \<in> B \<Longrightarrow> act a s s' \<Longrightarrow> inv B s'"
begin

definition conf_inv :: "'s conf \<Rightarrow> bool" where
  "conf_inv c \<longleftrightarrow> inv (held_all (snd c)) (fst c) \<and> exclusive (snd c)"

lemma step_conf_inv: "pool_step borrow give act c c' \<Longrightarrow> conf_inv c \<Longrightarrow> conf_inv c'"
proof (induction rule: pool_step.induct)
  case (borrows s a s' held t)
  then show ?case
    using borrow_some by (auto simp: conf_inv_def held_all_borrow intro: exclusive_borrow)
next
  case (borrows_nothing s s' held)
  then show ?case using borrow_none by (auto simp: conf_inv_def)
next
  case (uses a held t s s')
  then have "a \<in> held_all held" by (auto simp: held_all_def)
  with uses show ?case using act_keeps by (auto simp: conf_inv_def)
next
  case (gives a held t s s')
  then have a: "a \<in> held_all held" and e: "exclusive held" and i: "inv (held_all held) s"
    by (auto simp: held_all_def conf_inv_def)
  from give_returns [OF i a] gives.hyps have "inv (held_all held - {a}) s'" by auto
  with gives.hyps e show ?case
    by (simp add: conf_inv_def held_all_give exclusive_give)
qed

lemma reach_conf_inv: "pool_reach borrow give act s0 c \<Longrightarrow> inv {} s0 \<Longrightarrow> conf_inv c"
proof (induction rule: pool_reach.induct)
  case reach_init
  then show ?case by (simp add: conf_inv_def held_all_def exclusive_def)
next
  case (reach_step c c')
  then show ?case by (blast intro: step_conf_inv)
qed

lemma never_shared:
  assumes "inv {} s0" and "pool_reach borrow give act s0 (s, held)" and "t \<noteq> u"
  shows "held t \<inter> held u = {}"
  using reach_conf_inv [OF assms(2,1)] assms(3) by (simp add: conf_inv_def exclusive_def)

text \<open>A thread can always borrow, and always give back what it holds.\<close>

lemma never_stuck:
  assumes "inv {} s0" and "pool_reach borrow give act s0 (s, held)"
  shows "\<exists>r s'. borrow s = (Ret r, s')" and "a \<in> held t \<Longrightarrow> \<exists>s'. give (Some a) s = (Ret (), s')"
proof -
  have i: "inv (held_all held) s"
    using reach_conf_inv [OF assms(2,1)] by (simp add: conf_inv_def)
  then show "\<exists>r s'. borrow s = (Ret r, s')" by (rule borrow_returns)
  show "\<exists>s'. give (Some a) s = (Ret (), s')" if "a \<in> held t"
    using give_returns [OF i, of a] that by (auto simp: held_all_def)
qed

end

section \<open>The synchronous pool provides it\<close>

definition queue_ok :: "(addr \<rightharpoonup> 'c) \<Rightarrow> ptr list \<Rightarrow> addr set \<Rightarrow> bool" where
  "queue_ok heap q B \<longleftrightarrow>
     (\<exists>as. q = map Some as \<and> distinct as \<and> set as \<inter> B = {} \<and> set as \<union> B \<subseteq> dom heap)"

definition sync_inv :: "addr set \<Rightarrow> 'w pst \<Rightarrow> bool" where
  "sync_inv B = (\<lambda>(s, p). heap_ok s \<and> \<not> unUsedMutex p \<and> password p = [] \<and>
                           queue_ok (ctxs s) (unUsed p) B)"

text \<open>Using a borrowed context: a timeout set or a command sent on it.\<close>

definition sync_act :: "'w hiredis \<Rightarrow> addr \<Rightarrow> 'w pst \<Rightarrow> 'w pst \<Rightarrow> bool" where
  "sync_act H a sp sp' \<longleftrightarrow>
     (\<exists>tv. onsys (redisSetTimeout H (Some a) tv) sp = (Ret (), sp')) \<or>
     (\<exists>argv r. onsys (redisCommandArgv H (Some a) argv) sp = (Ret r, sp'))"

lemma queue_ok_map [simp]:
  "queue_ok heap (map Some as) B \<longleftrightarrow>
     distinct as \<and> set as \<inter> B = {} \<and> set as \<union> B \<subseteq> dom heap"
  by (auto simp: queue_ok_def inj_map_eq_map)

lemma queue_ok_Nil: "queue_ok heap [] B \<longleftrightarrow> B \<subseteq> dom heap"
  using queue_ok_map [of heap "[]" B] by simp

lemma queue_ok_live: "queue_ok heap q B \<Longrightarrow> B \<subseteq> dom heap"
  by (auto simp: queue_ok_def)

lemma queue_ok_append:
  "queue_ok h q B \<Longrightarrow> a \<in> B \<Longrightarrow> queue_ok h (q @ [Some a]) (B - {a})"
  unfolding queue_ok_def
proof (elim exE conjE)
  fix as
  assume "a \<in> B" and "q = map Some as" and "distinct as" and "set as \<inter> B = {}"
    and "set as \<union> B \<subseteq> dom h"
  then show "\<exists>as. q @ [Some a] = map Some as \<and> distinct as \<and> set as \<inter> (B - {a}) = {} \<and>
               set as \<union> (B - {a}) \<subseteq> dom h"
    by (intro exI [of _ "as @ [a]"]) auto
qed

lemma queue_ok_mono: "queue_ok h q B \<Longrightarrow> dom h \<subseteq> dom h' \<Longrightarrow> queue_ok h' q B"
  unfolding queue_ok_def by (elim exE conjE, intro exI conjI) (assumption | blast)+

lemma create_cases [consumes 1, case_names none some]:
  assumes "password p = []"
  obtains (none) s' where "create H (s, p) = (Ret None, (s', p))"
      "ctxs s' = (ctxs s)(next_addr s := None) \<or> ctxs s' = ctxs s" "next_addr s \<le> next_addr s'"
      "actxs s' = actxs s" "aevents s' = aevents s"
    | (some) s' c where "create H (s, p) = (Ret (Some (next_addr s)), (s', p))"
      "ctxs s' = (ctxs s)(next_addr s \<mapsto> c)" "rc_err c = REDIS_OK" "next_addr s' = Suc (next_addr s)"
      "actxs s' = actxs s" "aevents s' = aevents s"
proof (cases "connect_result H s p")
  case (Pair o' w)
  show thesis
  proof (cases o')
    case None
    with Pair create_NULL [OF assms, of H s w] none show thesis by fastforce
  next
    case (Some c)
    show thesis
    proof (cases "rc_err c = 0")
      case True
      with Pair Some create_ok [OF assms, of H s c w] some show thesis
        by (fastforce simp: REDIS_OK_def)
    next
      case False
      with Pair Some create_failed [OF assms, of H s c w] none show thesis by fastforce
    qed
  qed
qed

lemma borrowItem_idle:
  assumes "\<not> unUsedMutex p" and q: "unUsed p = map Some bad @ Some a # rest"
    and "\<forall>b \<in> set bad. broken_in s b" and "distinct bad" and "healthy_in s a" and "a \<notin> set bad"
  shows "borrowItem H (s, p) = (Ret (Some a), (free_all H bad s, p\<lparr>unUsed := rest\<rparr>))"
proof -
  let ?p = "p\<lparr>unUsedMutex := True\<rparr>"
  have "healthy_in (free_all H bad s) a"
    using assms(5,6) by (simp add: healthy_in_def free_all_ctxs)
  then have "borrow_loop H (unUsed p) (s, ?p) =
      (Ret (Some a), (free_all H bad s, ?p\<lparr>unUsed := rest\<rparr>))"
    using borrow_loop_broken [OF assms(3,4), of H "Some a # rest" ?p]
    by (auto simp: q borrow_loop_healthy simp del: borrow_loop.simps)
  then show ?thesis
    using assms(1) by (simp add: borrowItem_def run_simps bnd_def)
qed

lemma borrowItem_connect:
  assumes "\<not> unUsedMutex p" and q: "unUsed p = map Some bad"
    and "\<forall>b \<in> set bad. broken_in s b" and "distinct bad"
    and c: "create H (free_all H bad s, p\<lparr>unUsedMutex := True, unUsed := []\<rparr>) =
            (Ret r, (s', p\<lparr>unUsedMutex := True, unUsed := []\<rparr>))"
  shows "borrowItem H (s, p) =
    (Ret r, (s', if r = None then p\<lparr>unUsed := []\<rparr> else p\<lparr>unUsed := [], used := used p + 1\<rparr>))"
proof -
  let ?p = "p\<lparr>unUsedMutex := True\<rparr>"
  have "p\<lparr>unUsedMutex := True\<rparr> = p\<lparr>unUsedMutex := True, unUsed := []\<rparr>" if "bad = []"
    using q that by simp
  then have "borrow_loop H (unUsed p) (s, ?p) = (Ret None, (free_all H bad s, ?p\<lparr>unUsed := []\<rparr>))"
    using borrow_loop_broken [OF assms(3,4), of H "[]" ?p] by (auto simp: q prog_simps)
  then show ?thesis
    using assms(1) c by (auto simp: borrowItem_def run_simps bnd_def)
qed

lemma heap_ok_free_all: "heap_ok s \<Longrightarrow> heap_ok (free_all H as s)"
  by (auto simp: heap_ok_def free_all_ctxs dom_def subset_iff)

lemma sync_borrow_cases [consumes 1, case_names idle none new]:
  assumes "sync_inv B (s, p)"
  obtains (idle) bad a rest where "borrowItem H (s, p) = (Ret (Some a), (free_all H bad s, p\<lparr>unUsed := map Some rest\<rparr>))"
      and "unUsed p = map Some (bad @ a # rest)" and "healthy_in s a"
    | (none) s' where "borrowItem H (s, p) = (Ret None, (s', p\<lparr>unUsed := []\<rparr>))"
      and "heap_ok s'" and "\<forall>b \<in> B. b \<in> dom (ctxs s')"
    | (new) a s' where "borrowItem H (s, p) = (Ret (Some a), (s', p\<lparr>unUsed := [], used := used p + 1\<rparr>))"
      and "heap_ok s'" and "\<forall>b \<in> B. b \<in> dom (ctxs s')" and "healthy_in s' a" and "a \<notin> B"
proof -
  from assms obtain as where m: "\<not> unUsedMutex p" and pw: "password p = []" and h: "heap_ok s"
    and q: "unUsed p = map Some as" and d: "distinct as" and disj: "set as \<inter> B = {}"
    and live: "set as \<union> B \<subseteq> dom (ctxs s)"
    by (auto simp: sync_inv_def queue_ok_def)
  have all: "\<forall>a \<in> set as. a \<in> dom (ctxs s)" using live by auto
  from all show thesis
  proof (cases rule: idle_split)
    case (first_healthy bad a rest)
    have "borrowItem H (s, p) = (Ret (Some a), (free_all H bad s, p\<lparr>unUsed := map Some rest\<rparr>))"
      using first_healthy d by (intro borrowItem_idle m) (auto simp: q)
    then show thesis using first_healthy q by (intro idle) auto
  next
    case all_broken
    let ?s = "free_all H as s" and ?p = "p\<lparr>unUsedMutex := True, unUsed := []\<rparr>"
    have pw': "password ?p = []" using pw by simp
    have hs: "heap_ok ?s" by (rule heap_ok_free_all [OF h])
    have B: "\<forall>b \<in> B. b \<in> dom (ctxs ?s) \<and> b < next_addr s"
    proof
      fix b
      assume "b \<in> B"
      with live disj have "b \<in> dom (ctxs s)" and "b \<notin> set as" by auto
      moreover from this(1) h have "b < next_addr s" by (auto simp: heap_ok_def)
      ultimately show "b \<in> dom (ctxs ?s) \<and> b < next_addr s"
        by (simp add: domIff free_all_ctxs)
    qed
    from pw' show thesis
    proof (cases rule: create_cases [where H = H and s = ?s])
      case (none s')
      have "borrowItem H (s, p) = (Ret None, (s', p\<lparr>unUsed := []\<rparr>))"
        using borrowItem_connect [OF m q all_broken d none(1)] by simp
      moreover have "heap_ok s'"
        using none(2-5) by (intro heap_ok_grow [OF hs]) (auto split: if_splits)
      moreover have "\<forall>b \<in> B. b \<in> dom (ctxs s')"
        using B none(2) by (auto simp: dom_def)
      ultimately show thesis by (rule that(2))
    next
      case (some s' c)
      have "borrowItem H (s, p) = (Ret (Some (next_addr s)), (s', p\<lparr>unUsed := [], used := used p + 1\<rparr>))"
        using borrowItem_connect [OF m q all_broken d some(1)] by simp
      moreover have "heap_ok s'"
        using some(2-6) by (intro heap_ok_grow [OF hs]) auto
      moreover have "\<forall>b \<in> B. b \<in> dom (ctxs s')" using B some(2) by auto
      moreover have "healthy_in s' (next_addr s)" using some by (simp add: healthy_in_def)
      moreover have "next_addr s \<notin> B" using B by auto
      ultimately show thesis by (rule that(3))
    qed
  qed
qed

lemma sync_borrow_some:
  assumes i: "sync_inv B (s, p)" and b: "borrowItem H (s, p) = (Ret (Some a), sp')"
  shows "a \<notin> B \<and> sync_inv (insert a B) sp' \<and> healthy_in (fst sp') a"
  using i
proof (cases rule: sync_borrow_cases [where H = H])
  case (idle bad a' rest)
  then have a': "a' = a" and sp': "sp' = (free_all H bad s, p\<lparr>unUsed := map Some rest\<rparr>)"
    using b by simp_all
  from i idle(2) have "distinct (bad @ a # rest)" and "set (bad @ a # rest) \<inter> B = {}"
    and "set (bad @ a # rest) \<union> B \<subseteq> dom (ctxs s)"
    by (simp_all add: sync_inv_def a' del: map_append list.map)
  moreover have "queue_ok (ctxs (free_all H bad s)) (map Some rest) (insert a B)"
    using calculation by (auto simp: free_all_ctxs subset_iff domIff)
  ultimately show ?thesis
    using i idle(3) by (auto simp: sync_inv_def sp' a' heap_ok_free_all healthy_in_def free_all_ctxs)
next
  case (none s')
  with b show ?thesis by simp
next
  case (new a' s')
  then show ?thesis
    using b i by (auto simp: sync_inv_def queue_ok_def healthy_in_def)
qed

lemma sync_borrow_none:
  assumes i: "sync_inv B (s, p)" and b: "borrowItem H (s, p) = (Ret None, sp')"
  shows "sync_inv B sp'"
  using i
proof (cases rule: sync_borrow_cases [where H = H])
  case (none s')
  then show ?thesis using b i by (auto simp: sync_inv_def queue_ok_def)
qed (use b in simp_all)

lemma sync_borrow_returns: "sync_inv B (s, p) \<Longrightarrow> \<exists>r sp'. borrowItem H (s, p) = (Ret r, sp')"
  by (erule sync_borrow_cases [where H = H]) blast+

lemma returnItem_apply:
  "\<not> unUsedMutex p \<Longrightarrow>
     returnItem item (s, p) = (Ret (), (s, p\<lparr>unUsed := unUsed p @ [item], used := used p - 1\<rparr>))"
  by (simp add: returnItem_def run_simps bnd_def)

lemma sync_give:
  "sync_inv B (s, p) \<Longrightarrow> a \<in> B \<Longrightarrow>
     \<exists>sp'. returnItem (Some a) (s, p) = (Ret (), sp') \<and> sync_inv (B - {a}) sp'"
  by (auto simp: sync_inv_def returnItem_apply intro: queue_ok_append)

lemma sync_act_frame:
  assumes "sync_act H a (s, p) sp'"
  obtains c w where "sp' = (s\<lparr>world := w, ctxs := (ctxs s)(a \<mapsto> c)\<rparr>, p)" and "a \<in> dom (ctxs s)"
proof (cases "ctxs s a")
  case None
  then show thesis
    using assms by (simp add: sync_act_def pool_simps redisCommandArgv_def redisSetTimeout_freed
        bnd_def load_ctx_simps)
next
  case (Some c)
  then have "\<exists>c w. sp' = (s\<lparr>world := w, ctxs := (ctxs s)(a \<mapsto> c)\<rparr>, p)"
    using assms by (auto simp: sync_act_def pool_simps redisCommandArgv_live redisSetTimeout_live
        split: prod.splits)
  with Some that show thesis by auto
qed

lemma sync_act_inv:
  assumes "sync_inv B (s, p)" and "a \<in> B" and "sync_act H a (s, p) sp'"
  shows "sync_inv B sp'"
  using assms(3)
proof (rule sync_act_frame)
  fix c w
  assume sp': "sp' = (s\<lparr>world := w, ctxs := (ctxs s)(a \<mapsto> c)\<rparr>, p)" and a: "a \<in> dom (ctxs s)"
  then have "heap_ok (fst sp')" using assms(1)
    by (auto simp: sync_inv_def split: if_splits intro!: heap_ok_grow [of s])
  moreover have "queue_ok ((ctxs s)(a \<mapsto> c)) (unUsed p) B"
    by (rule queue_ok_mono [of "ctxs s"]) (use assms(1) in \<open>auto simp: sync_inv_def\<close>)
  ultimately show ?thesis
    using assms(1) by (simp add: sync_inv_def sp')
qed

interpretation sync_pool: conn_pool "borrowItem H" returnItem "sync_act H" sync_inv
  for H :: "'w hiredis"
proof
  fix B and s :: "'w pst" and a s'
  show "sync_inv B s \<Longrightarrow> \<exists>r s'. borrowItem H s = (Ret r, s')"
    using sync_borrow_returns by (cases s) blast
  show "sync_inv B s \<Longrightarrow> borrowItem H s = (Ret (Some a), s') \<Longrightarrow> a \<notin> B \<and> sync_inv (insert a B) s'"
    using sync_borrow_some by (cases s) blast
  show "sync_inv B s \<Longrightarrow> borrowItem H s = (Ret None, s') \<Longrightarrow> sync_inv B s'"
    using sync_borrow_none by (cases s) blast
  show "sync_inv B s \<Longrightarrow> a \<in> B \<Longrightarrow> \<exists>s'. returnItem (Some a) s = (Ret (), s') \<and> sync_inv (B - {a}) s'"
    using sync_give by (cases s) blast
  show "sync_inv B s \<Longrightarrow> a \<in> B \<Longrightarrow> sync_act H a s s' \<Longrightarrow> sync_inv B s'"
    using sync_act_inv by (cases s) blast
qed

section \<open>The asynchronous pool provides it\<close>

text \<open>
  Here the library must not run out of memory while it connects: \<open>createAsync\<close> reads through the
  context it gets without comparing it with NULL.
\<close>

definition aconnect_total :: "'w hiredis \<Rightarrow> bool" where
  "aconnect_total H \<longleftrightarrow> (\<forall>ip prt w. fst (hr_aconnect H ip prt w) \<noteq> None)"

definition async_inv :: "'w hiredis \<Rightarrow> addr set \<Rightarrow> 'w pst \<Rightarrow> bool" where
  "async_inv H B = (\<lambda>(s, p). aconnect_total H \<and> heap_ok s \<and> \<not> unUsedAsyncMutex p \<and>
                             queue_ok (actxs s) (unUsedAsync p) B)"

definition async_act :: "'w hiredis \<Rightarrow> addr \<Rightarrow> 'w pst \<Rightarrow> 'w pst \<Rightarrow> bool" where
  "async_act H a sp sp' \<longleftrightarrow>
     (\<exists>argv req r. onsys (redisAsyncCommandArgv H (Some a) argv req) sp = (Ret r, sp'))"

lemma borrow_async_loop_result:
  assumes "\<forall>a \<in> set as. a \<in> dom (actxs s)" and "unUsedAsync p = map Some as"
  shows "(borrow_async_loop (map Some as) (s, p) = (Ret None, (s, p\<lparr>unUsedAsync := []\<rparr>))) \<or>
    (\<exists>dropped a rest. as = dropped @ a # rest \<and>
      borrow_async_loop (map Some as) (s, p) = (Ret (Some a), (s, p\<lparr>unUsedAsync := map Some rest\<rparr>)))"
  using assms
proof (induction as arbitrary: p)
  case Nil
  then show ?case by (simp add: prog_simps)
next
  case (Cons a as)
  then obtain c where c: "actxs s a = Some c" by auto
  show ?case
  proof (cases "ac_err c = REDIS_OK")
    case True
    with c show ?thesis by (fastforce simp: run_simps bnd_def)
  next
    case False
    let ?p = "p\<lparr>unUsedAsync := map Some as\<rparr>"
    have eq: "borrow_async_loop (map Some (a # as)) (s, p) = borrow_async_loop (map Some as) (s, ?p)"
      using c False by (simp add: run_simps bnd_def)
    have "\<forall>a \<in> set as. a \<in> dom (actxs s)" and "unUsedAsync ?p = map Some as"
      using Cons.prems by simp_all
    from Cons.IH [OF this] show ?thesis
    proof (elim disjE exE conjE)
      fix dropped b rest
      assume as: "as = dropped @ b # rest" and l: "borrow_async_loop (map Some as) (s, ?p) =
        (Ret (Some b), (s, ?p\<lparr>unUsedAsync := map Some rest\<rparr>))"
      have "borrow_async_loop (map Some (a # as)) (s, p) =
        (Ret (Some b), (s, p\<lparr>unUsedAsync := map Some rest\<rparr>))"
        unfolding eq l by simp
      moreover have "a # as = (a # dropped) @ b # rest" using as by simp
      ultimately show ?thesis by blast
    qed (simp add: eq del: borrow_async_loop.simps list.map)
  qed
qed

lemma createAsync_result:
  assumes "aconnect_total H" and h: "heap_ok s"
  obtains (none) s' where "createAsync H lp (s, p) = (Ret None, (s', p))" and "heap_ok s'"
      and "\<forall>b. b \<in> dom (actxs s) \<longrightarrow> b \<in> dom (actxs s')"
    | (some) s' where "createAsync H lp (s, p) = (Ret (Some (next_addr s)), (s', p))" and "heap_ok s'"
      and "\<forall>b. b \<in> insert (next_addr s) (dom (actxs s)) \<longrightarrow> b \<in> dom (actxs s')"
proof -
  obtain c w where c: "hr_aconnect H (c_str (address p)) (port p) (world s) = (Some c, w)"
    using assms(1) by (metis aconnect_total_def not_None_eq prod.collapse)
  let ?n = "next_addr s"
  have fresh: "\<And>x y. ctxs s x = Some y \<Longrightarrow> x < ?n" "\<And>x y. actxs s x = Some y \<Longrightarrow> x < ?n"
    "\<And>x y. aevents s x = Some y \<Longrightarrow> x < ?n"
    using h by (auto simp: heap_ok_def)
  show thesis
  proof (cases "ac_err c = 0")
    case False
    define s2 where "s2 = s\<lparr>world := w, actxs := (actxs s)(?n \<mapsto> c), next_addr := Suc ?n,
           logs := logs s @ [(ERROR, ''reconnect Error: '' @ int2string (ac_err c))]\<rparr>"
    show thesis
    proof (rule none)
      show "createAsync H lp (s, p) = (Ret None, (s2, p))"
        using False c by (simp add: createAsync_def run_simps bnd_def redisAsyncConnect_def s2_def)
      show "heap_ok s2" by (auto simp: s2_def heap_ok_def less_Suc_eq split: if_splits dest: fresh)
      show "\<forall>b. b \<in> dom (actxs s) \<longrightarrow> b \<in> dom (actxs s2)" by (simp add: s2_def)
    qed
  next
    case True
    define s1 where "s1 = s\<lparr>world := w, next_addr := Suc ?n,
        actxs := (actxs s)(?n \<mapsto> c\<lparr>ac_onDisconnect := True\<rparr>)\<rparr>"
    have "\<exists>x t. redisAeAttach lp (Some ?n) s1 = (Ret x, t)"
      by (cases "ac_ev_data c = None") (simp_all add: redisAeAttach_def s1_def run_simps bnd_def)
    then obtain x t where t: "redisAeAttach lp (Some ?n) s1 = (Ret x, t)" by blast
    show thesis
    proof (rule some)
      show "createAsync H lp (s, p) = (Ret (Some ?n), (t, p))"
        using True c t by (simp add: createAsync_def run_simps bnd_def redisAsyncConnect_def s1_def
            redisAsyncSetDisconnectCallback_def)
      show "heap_ok t" using t
        by (auto simp: redisAeAttach_def s1_def run_simps bnd_def heap_ok_def less_Suc_eq
            split: if_splits dest: fresh)
      show "\<forall>b. b \<in> insert ?n (dom (actxs s)) \<longrightarrow> b \<in> dom (actxs t)" using t
        by (auto simp: redisAeAttach_def s1_def run_simps bnd_def split: if_splits)
    qed
  qed
qed

lemma borrowItemAsync_idle:
  assumes "\<not> unUsedAsyncMutex p" and
    "borrow_async_loop (unUsedAsync p) (s, p\<lparr>unUsedAsyncMutex := True\<rparr>) =
       (Ret (Some a), (s, p\<lparr>unUsedAsyncMutex := True, unUsedAsync := q\<rparr>))"
  shows "borrowItemAsync H lp (s, p) = (Ret (Some a), (s, p\<lparr>unUsedAsync := q\<rparr>))"
  using assms by (simp add: borrowItemAsync_def run_simps bnd_def)

lemma borrowItemAsync_create:
  assumes "\<not> unUsedAsyncMutex p" and
    "borrow_async_loop (unUsedAsync p) (s, p\<lparr>unUsedAsyncMutex := True\<rparr>) =
       (Ret None, (s, p\<lparr>unUsedAsyncMutex := True, unUsedAsync := []\<rparr>))" and
    "createAsync H lp (s, p\<lparr>unUsedAsync := []\<rparr>) = (Ret r, (s', p\<lparr>unUsedAsync := []\<rparr>))"
  shows "borrowItemAsync H lp (s, p) =
    (Ret r, (s', if r = None then p\<lparr>unUsedAsync := []\<rparr>
                 else p\<lparr>unUsedAsync := [], usedAsync := usedAsync p + 1\<rparr>))"
proof -
  have eq: "p\<lparr>unUsedAsync := [], unUsedAsyncMutex := False\<rparr> = p\<lparr>unUsedAsync := []\<rparr>"
    using assms(1) by simp
  have "createAsync H lp (s, p\<lparr>unUsedAsync := [], unUsedAsyncMutex := False\<rparr>) =
      (Ret r, (s', p\<lparr>unUsedAsync := []\<rparr>))"
    unfolding eq by (rule assms(3))
  then show ?thesis using assms(1,2) by (auto simp: borrowItemAsync_def run_simps bnd_def)
qed

lemma async_borrow:
  assumes i: "async_inv H B (s, p)"
  shows "\<exists>r sp'. borrowItemAsync H lp (s, p) = (Ret r, sp') \<and>
           (case r of None \<Rightarrow> async_inv H B sp'
            | Some a \<Rightarrow> a \<notin> B \<and> async_inv H (insert a B) sp')"
proof -
  from i obtain as where H: "aconnect_total H" and h: "heap_ok s" and m: "\<not> unUsedAsyncMutex p"
    and q: "unUsedAsync p = map Some as" and ok: "queue_ok (actxs s) (map Some as) B"
    by (auto simp: async_inv_def queue_ok_def)
  let ?p = "p\<lparr>unUsedAsyncMutex := True\<rparr>"
  have live: "\<forall>a \<in> set as. a \<in> dom (actxs s)" and q': "unUsedAsync ?p = map Some as"
    using ok q by auto
  from borrow_async_loop_result [OF live q'] show ?thesis
  proof (elim disjE exE conjE)
    fix dropped a rest
    assume as: "as = dropped @ a # rest" and l: "borrow_async_loop (map Some as) (s, ?p) =
      (Ret (Some a), (s, ?p\<lparr>unUsedAsync := map Some rest\<rparr>))"
    from ok have "distinct as" and "set as \<inter> B = {}" and "set as \<union> B \<subseteq> dom (actxs s)"
      by simp_all
    then have "a \<notin> B" and "queue_ok (actxs s) (map Some rest) (insert a B)"
      by (auto simp: as)
    moreover have "borrowItemAsync H lp (s, p) = (Ret (Some a), (s, p\<lparr>unUsedAsync := map Some rest\<rparr>))"
      by (rule borrowItemAsync_idle [OF m]) (simp add: q l)
    ultimately show ?thesis using H h m by (simp add: async_inv_def)
  next
    assume l: "borrow_async_loop (map Some as) (s, ?p) = (Ret None, (s, ?p\<lparr>unUsedAsync := []\<rparr>))"
    note eq = borrowItemAsync_create [OF m, of s H lp]
    from H h show ?thesis
    proof (rule createAsync_result [where lp = lp and p = "p\<lparr>unUsedAsync := []\<rparr>"])
      fix s'
      assume c: "createAsync H lp (s, p\<lparr>unUsedAsync := []\<rparr>) = (Ret None, (s', p\<lparr>unUsedAsync := []\<rparr>))"
        and "heap_ok s'" and mono: "\<forall>b. b \<in> dom (actxs s) \<longrightarrow> b \<in> dom (actxs s')"
      moreover have "queue_ok (actxs s') [] B"
        unfolding queue_ok_Nil using queue_ok_live [OF ok] mono by blast
      ultimately show ?thesis using H m eq [OF _ c] l by (simp add: q async_inv_def)
    next
      fix s'
      assume c: "createAsync H lp (s, p\<lparr>unUsedAsync := []\<rparr>) =
          (Ret (Some (next_addr s)), (s', p\<lparr>unUsedAsync := []\<rparr>))"
        and "heap_ok s'"
        and mono: "\<forall>b. b \<in> insert (next_addr s) (dom (actxs s)) \<longrightarrow> b \<in> dom (actxs s')"
      moreover have "next_addr s \<notin> B"
        using queue_ok_live [OF ok] h unfolding heap_ok_def by blast
      moreover have "queue_ok (actxs s') [] (insert (next_addr s) B)"
        unfolding queue_ok_Nil using queue_ok_live [OF ok] mono by blast
      ultimately show ?thesis using H m eq [OF _ c] l by (simp add: q async_inv_def)
    qed
  qed
qed

lemma returnItemAsync_apply:
  "\<not> unUsedAsyncMutex p \<Longrightarrow>
     returnItemAsync item (s, p) =
       (Ret (), (s, p\<lparr>unUsedAsync := unUsedAsync p @ [item], usedAsync := usedAsync p - 1\<rparr>))"
  by (simp add: returnItemAsync_def run_simps bnd_def)

lemma async_give:
  "async_inv H B (s, p) \<Longrightarrow> a \<in> B \<Longrightarrow>
     \<exists>sp'. returnItemAsync (Some a) (s, p) = (Ret (), sp') \<and> async_inv H (B - {a}) sp'"
  by (auto simp: async_inv_def returnItemAsync_apply intro: queue_ok_append)

lemma async_act_inv:
  assumes i: "async_inv H B (s, p)" and "a \<in> B" and act: "async_act H a (s, p) sp'"
  shows "async_inv H B sp'"
proof -
  from assms have "a \<in> dom (actxs s)" by (auto simp: async_inv_def queue_ok_def)
  with act obtain c w where sp': "sp' = (s\<lparr>world := w, actxs := (actxs s)(a \<mapsto> c)\<rparr>, p)"
    by (auto simp: async_act_def redisAsyncCommandArgv_def bnd_def run_simps split: prod.splits)
  have "dom ((actxs s)(a \<mapsto> c)) = dom (actxs s)" using \<open>a \<in> dom (actxs s)\<close> by auto
  then have "heap_ok (fst sp')" using i by (simp add: sp' async_inv_def heap_ok_def)
  moreover have "queue_ok ((actxs s)(a \<mapsto> c)) (unUsedAsync p) B"
    by (rule queue_ok_mono [of "actxs s"]) (use i in \<open>auto simp: async_inv_def\<close>)
  ultimately show ?thesis using i by (simp add: async_inv_def sp')
qed

interpretation async_pool: conn_pool "borrowItemAsync H lp" returnItemAsync "async_act H" "async_inv H"
  for H :: "'w hiredis" and lp :: addr
proof
  fix B and s :: "'w pst" and a s'
  show "async_inv H B s \<Longrightarrow> \<exists>r s'. borrowItemAsync H lp s = (Ret r, s')"
    using async_borrow by (cases s) blast
  show "async_inv H B s \<Longrightarrow> borrowItemAsync H lp s = (Ret (Some a), s') \<Longrightarrow>
          a \<notin> B \<and> async_inv H (insert a B) s'"
    using async_borrow [where H = H and lp = lp and B = B] by (cases s) fastforce
  show "async_inv H B s \<Longrightarrow> borrowItemAsync H lp s = (Ret None, s') \<Longrightarrow> async_inv H B s'"
    using async_borrow [where H = H and lp = lp and B = B] by (cases s) fastforce
  show "async_inv H B s \<Longrightarrow> a \<in> B \<Longrightarrow>
          \<exists>s'. returnItemAsync (Some a) s = (Ret (), s') \<and> async_inv H (B - {a}) s'"
    using async_give by (cases s) blast
  show "async_inv H B s \<Longrightarrow> a \<in> B \<Longrightarrow> async_act H a s s' \<Longrightarrow> async_inv H B s'"
    using async_act_inv by (cases s) blast
qed

end
