(* ===== verification/Command.thy ===== *)
theory Command
  imports Utils
begin

text \<open>
  The command builder of \<open>cpp/include/Command.h\<close> and \<open>cpp/src/Command.cpp\<close>: a vector of argument
  strings, grown one call at a time. \<open>operator<<\<close> is declared in the header and defined nowhere, so
  it has no model.
\<close>

record Command =
  cmd_args :: "string list"

text \<open>The default constructor, the one-argument constructor and the two call operators.\<close>

definition Command_empty :: Command where
  "Command_empty = \<lparr>cmd_args = []\<rparr>"

definition Command_new :: "string \<Rightarrow> Command" where
  "Command_new arg = \<lparr>cmd_args = [arg]\<rparr>"

definition Command_call :: "Command \<Rightarrow> string \<Rightarrow> Command" where
  "Command_call c arg = c\<lparr>cmd_args := cmd_args c @ [arg]\<rparr>"

text \<open>\<open>operator()(const char*)\<close> builds the string from the bytes before the first NUL.\<close>

definition Command_call_cstr :: "Command \<Rightarrow> string \<Rightarrow> Command" where
  "Command_call_cstr c arg = c\<lparr>cmd_args := cmd_args c @ [c_str arg]\<rparr>"

text \<open>The loop of \<open>ToString\<close>, from index \<open>i\<close> on, with the stream's content so far.\<close>

function ToString_loop :: "string list \<Rightarrow> nat \<Rightarrow> string \<Rightarrow> string" where
  "ToString_loop as i ss =
     (if i < length as
      then ToString_loop as (Suc i)
             (let ss1 = ss @ as ! i in if i \<noteq> length as - 1 then ss1 @ '' '' else ss1)
      else ss)"
  by pat_completeness auto
termination
  by (relation "measure (\<lambda>(as, i, ss). length as - i)") auto

declare ToString_loop.simps [simp del]

definition ToString :: "Command \<Rightarrow> string" where
  "ToString c = ToString_loop (cmd_args c) 0 []"

text \<open>The loops of the client that append one call per element of a vector.\<close>

definition Command_calls :: "Command \<Rightarrow> string list \<Rightarrow> Command" where
  "Command_calls c xs = foldl Command_call c xs"

section \<open>Lemmas\<close>

named_theorems command_simps

lemma args_Command_empty [command_simps]: "cmd_args Command_empty = []"
  by (simp add: Command_empty_def)

lemma args_Command_new [command_simps]: "cmd_args (Command_new a) = [a]"
  by (simp add: Command_new_def)

lemma args_Command_call [command_simps]: "cmd_args (Command_call c a) = cmd_args c @ [a]"
  by (simp add: Command_call_def)

lemma args_Command_call_cstr [command_simps]:
  "CHR 0x00 \<notin> set a \<Longrightarrow> cmd_args (Command_call_cstr c a) = cmd_args c @ [a]"
  by (auto simp add: Command_call_cstr_def c_str_def takeWhile_eq_all_conv)

lemma args_Command_calls [command_simps]: "cmd_args (Command_calls c xs) = cmd_args c @ xs"
  by (induction xs arbitrary: c) (auto simp: Command_calls_def command_simps)

lemma ToString_loop_join:
  "i \<le> length as \<Longrightarrow> ToString_loop as i ss = ss @ join_str CHR '' '' (drop i as)"
proof (induction as i ss rule: ToString_loop.induct)
  case (1 as i ss)
  show ?case
  proof (cases "i < length as")
    case False
    with "1.prems" show ?thesis by (subst ToString_loop.simps) simp
  next
    case True
    then have d: "drop i as = as ! i # drop (Suc i) as" by (rule Cons_nth_drop_Suc [symmetric])
    show ?thesis
    proof (cases "i = length as - 1")
      case last: True
      with True have "drop (Suc i) as = []" by simp
      with 1 True last d show ?thesis by (subst ToString_loop.simps) simp
    next
      case notlast: False
      with True obtain y ys where "drop (Suc i) as = y # ys"
        by (cases "drop (Suc i) as") auto
      with 1 True notlast d show ?thesis by (subst ToString_loop.simps) simp
    qed
  qed
qed

lemma ToString_join: "ToString c = join_str CHR '' '' (cmd_args c)"
  by (simp add: ToString_def ToString_loop_join)

section \<open>Properties\<close>

text \<open>The printed form of a command determines its arguments, when none holds a space and the last
  is not empty: splitting it at spaces gives them back in order.\<close>

lemma ToString_parse:
  assumes "\<forall>x \<in> set (cmd_args c). CHR '' '' \<notin> set x" and "cmd_args c = [] \<or> last (cmd_args c) \<noteq> []"
  shows "split_str (ToString c) CHR '' '' = cmd_args c"
  unfolding ToString_join using assms by (rule split_join)

end
