(* ===== verification/Codis_Client.thy ===== *)
theory Codis_Client
  imports Pool_Ownership Command
begin

text \<open>
  The core of \<open>class CodisClient\<close> (\<open>cpp/include/CodisClient.h\<close>, \<open>cpp/src/CodisClient.cpp\<close>): its state,
  its construction and destruction, the rewriting of a command's keys with the business ID, and
  \<open>RedisCommand\<close>, through which every synchronous operation goes.
\<close>

section \<open>State\<close>

text \<open>
  \<open>p_rwlock\<close> is a reader count and a writer flag. The header declares \<open>proxy_Port\<close> as a string, so
  assigning the port number to it stores one character.
\<close>

record CodisClient =
  m_Loop :: ptr
  m_ConnPool :: "RedisClientPool option"
  m_BID :: string
  rw_readers :: nat
  rw_writer :: bool
  proxy_IP :: string
  proxy_Port :: string

type_synonym 'w cst = "'w sys \<times> CodisClient"

definition csys :: "('w sys, 'a) prog \<Rightarrow> ('w cst, 'a) prog" where
  "csys = lift_prog fst (\<lambda>t s. (t, snd s))"

definition getclient :: "(CodisClient \<Rightarrow> 'a) \<Rightarrow> ('w cst, 'a) prog" where
  "getclient f = getst (\<lambda>(s, c). f c)"

definition updclient :: "(CodisClient \<Rightarrow> CodisClient) \<Rightarrow> ('w cst, unit) prog" where
  "updclient f = updst (\<lambda>(s, c). (s, f c))"

text \<open>A call on the pool object, through the pointer \<open>m_ConnPool\<close>.\<close>

definition onpool :: "('w pst, 'a) prog \<Rightarrow> ('w cst, 'a) prog" where
  "onpool m = (\<lambda>(s, c).
     case m_ConnPool c of
       None \<Rightarrow> (Abrupt (Undef NullDeref), (s, c))
     | Some p \<Rightarrow> (case m (s, p) of (r, (s', p')) \<Rightarrow> (r, (s', c\<lparr>m_ConnPool := Some p'\<rparr>))))"

definition rdlock :: "('w cst, unit) prog" where
  "rdlock = (\<lambda>(s, c).
     if rw_writer c then (Abrupt Deadlock, (s, c))
     else (Ret (), (s, c\<lparr>rw_readers := rw_readers c + 1\<rparr>)))"

definition wrlock :: "('w cst, unit) prog" where
  "wrlock = (\<lambda>(s, c).
     if rw_writer c \<or> rw_readers c \<noteq> 0 then (Abrupt Deadlock, (s, c))
     else (Ret (), (s, c\<lparr>rw_writer := True\<rparr>)))"

definition rwunlock :: "('w cst, unit) prog" where
  "rwunlock = updclient (\<lambda>c. if rw_writer c then c\<lparr>rw_writer := False\<rparr>
                              else c\<lparr>rw_readers := rw_readers c - 1\<rparr>)"

text \<open>
  The constructor. \<open>loop\<close> is what \<open>aeCreateEventLoop(64)\<close> returned, \<open>rc\<close> what \<open>pthread_create\<close> returned
  for the thread that runs the loop, \<open>garbage\<close> the initial content of the pool's \<open>usedAsync_\<close>.
\<close>

definition CodisClient_new ::
  "c_size \<Rightarrow> ptr \<Rightarrow> c_int \<Rightarrow> string \<Rightarrow> c_int \<Rightarrow> string \<Rightarrow> ('w sys, CodisClient) prog" where
  "CodisClient_new garbage loop rc proxyIP prt businessID =
     (let c = \<lparr>m_Loop = loop, m_ConnPool = Some (RedisClientPool_default garbage proxyIP prt),
               m_BID = businessID, rw_readers = 0, rw_writer = False, proxy_IP = proxyIP,
               proxy_Port = [char_of (unat prt mod 256)]\<rparr>
      in if rc \<noteq> 0 then andthen (LOG ERROR ''Create pthread error!'') (abort (Exit 1))
         else ret c)"

definition CodisClient_delete :: "'w hiredis \<Rightarrow> ('w cst, unit) prog" where
  "CodisClient_delete H =
     andthen wrlock
    (andthen (bnd (getclient m_ConnPool) (\<lambda>p.
        if p \<noteq> None then
          andthen (onpool (RedisClientPool_delete H)) (updclient (\<lambda>c. c\<lparr>m_ConnPool := None\<rparr>))
        else ret ()))
       rwunlock)"

section \<open>Keys\<close>

definition bid_key :: "string \<Rightarrow> string \<Rightarrow> string" where
  "bid_key bid k = bid @ ''_'' @ k"

text \<open>The argument at index \<open>i\<close> of the command that is sent.\<close>

definition inner_arg :: "string \<Rightarrow> string list \<Rightarrow> nat \<Rightarrow> string" where
  "inner_arg bid command i =
     (if command ! 0 = ''MGET'' \<or> command ! 0 = ''mget'' then
        (if bid \<noteq> [] \<and> i > 0 then bid_key bid (command ! i) else command ! i)
      else if command ! 0 = ''MSET'' \<or> command ! 0 = ''mset'' then
        (if bid \<noteq> [] \<and> i mod 2 = 1 then bid_key bid (command ! i) else command ! i)
      else if command ! 0 = ''DEL'' \<or> command ! 0 = ''del'' then
        (if bid \<noteq> [] \<and> i > 0 then bid_key bid (command ! i) else command ! i)
      else if i = 1 \<and> bid \<noteq> [] then bid_key bid (command ! i)
      else command ! i)"

definition inner_command :: "string \<Rightarrow> string list \<Rightarrow> string list" where
  "inner_command bid command = map (inner_arg bid command) [0..<length command]"

section \<open>RedisCommand\<close>

text \<open>The socket timeout: \<open>tt\<close> milliseconds, split with C's truncating division.\<close>

definition timeout_of :: "c_int \<Rightarrow> timeval" where
  "timeout_of tt = \<lparr>tv_sec = sint tt sdiv 1000, tv_usec = (sint tt smod 1000) * 1000\<rparr>"

text \<open>What follows the last attempt: no reply is an error, a reply sends the context back.\<close>

definition finish_command :: "ptr \<Rightarrow> redisReply option \<Rightarrow> ('w cst, Reply) prog" where
  "finish_command redis reply =
     (case reply of
        None \<Rightarrow> andthen rwunlock (ret (error_reply ''Do Command faild.''))
      | Some r \<Rightarrow>
          andthen (onpool (returnItem redis))
         (andthen rwunlock
                  (ret (Reply_of r))))"

definition RedisCommand :: "'w hiredis \<Rightarrow> string list \<Rightarrow> c_int \<Rightarrow> ('w cst, Reply) prog" where
  "RedisCommand H command tt =
     (if length command < 2 then ret (error_reply ''Command length should gt 2'')
      else
        bnd (getclient m_BID) (\<lambda>bid.
        let argv = inner_command bid command in
        bnd (getclient m_ConnPool) (\<lambda>cp.
        if cp = None then
          andthen (csys (LOG ERROR ''connpool is null!''))
                  (ret (error_reply ''Can not fetch client from pool!!!''))
        else
          andthen rdlock
          (bnd (onpool (borrowItem H)) (\<lambda>redis.
          if redis = None then
            andthen (csys (LOG ERROR ''contetx is null!''))
           (andthen rwunlock
                    (ret (error_reply ''context is NULL !!'')))
          else
            let tv = timeout_of tt in
            andthen (csys (redisSetTimeout H redis tv))
            (bnd (csys (redisCommandArgv H redis argv)) (\<lambda>reply.
            if reply = None then
              bnd (onpool (Reconnect H redis)) (\<lambda>result.
              if result then
                andthen (csys (redisSetTimeout H redis tv))
                        (bnd (csys (redisCommandArgv H redis argv)) (finish_command redis))
              else
                andthen (csys (LOG ERROR ''reconnect faild!''))
               (andthen rwunlock
                        (ret (error_reply ''reconnect faild!''))))
            else finish_command redis reply)))))))"

definition RedisCommand_cmd :: "'w hiredis \<Rightarrow> Command \<Rightarrow> c_int \<Rightarrow> ('w cst, Reply) prog" where
  "RedisCommand_cmd H command tt = RedisCommand H (cmd_args command) tt"

definition RedisCommands :: "'w hiredis \<Rightarrow> Command list \<Rightarrow> ('w cst, Reply list) prog" where
  "RedisCommands H commands = mapM_prog (\<lambda>c. RedisCommand_cmd H c 0) commands"

section \<open>Lemmas: running the operations\<close>

named_theorems client_simps

lemma csys_apply [client_simps]: "csys m (s, c) = (case m s of (r, s') \<Rightarrow> (r, (s', c)))"
  by (simp add: csys_def lift_prog_def)

lemma getclient_apply [client_simps]: "getclient f (s, c) = (Ret (f c), (s, c))"
  by (simp add: getclient_def getst_def)

lemma bnd_getclient [client_simps]: "bnd (getclient g) f (s, c) = f (g c) (s, c)"
  by (simp add: bnd_def client_simps)

lemma updclient_apply [client_simps]: "updclient f (s, c) = (Ret (), (s, f c))"
  by (simp add: updclient_def updst_def)

lemma onpool_apply [client_simps]:
  "m_ConnPool c = Some p \<Longrightarrow>
     onpool m (s, c) = (case m (s, p) of (r, (s', p')) \<Rightarrow> (r, (s', c\<lparr>m_ConnPool := Some p'\<rparr>)))"
  by (simp add: onpool_def)

lemma rdlock_free [client_simps]:
  "\<not> rw_writer c \<Longrightarrow> rdlock (s, c) = (Ret (), (s, c\<lparr>rw_readers := rw_readers c + 1\<rparr>))"
  by (simp add: rdlock_def)

lemma rwunlock_reader [client_simps]:
  "\<not> rw_writer c \<Longrightarrow> rwunlock (s, c) = (Ret (), (s, c\<lparr>rw_readers := rw_readers c - 1\<rparr>))"
  by (simp add: rwunlock_def client_simps)

lemma Reconnect_live:
  assumes "\<not> unUsedMutex p" and x: "ctxs s a = Some x" and n: "next_addr s \<noteq> a"
    and k: "hr_connect H (c_str (address p)) (port p) (hr_free H x (world s)) = (oc, w)"
  shows "\<exists>s'. ctxs s' a = None \<and>
    (Reconnect H (Some a) (s, p) =
      (case oc of
         None \<Rightarrow> (Abrupt (Undef NullDeref), (s', p))
       | Some y \<Rightarrow> (if rc_err y \<noteq> 0 then (Ret False, (s', p)) else (Ret True, (s', p)))))"
proof (cases oc)
  case None
  with assms show ?thesis
    by (simp add: Reconnect_def Destroy_def run_simps bnd_def redisConnect_def)
next
  case (Some y)
  with assms show ?thesis
    by (auto simp add: Reconnect_def Destroy_def run_simps bnd_def redisConnect_def)
qed

text \<open>The client in order, with the contexts \<open>B\<close> of its pool in other threads' hands.\<close>

definition client_inv :: "string \<Rightarrow> addr set \<Rightarrow> 'w cst \<Rightarrow> bool" where
  "client_inv bid B = (\<lambda>(s, c). m_BID c = bid \<and> \<not> rw_writer c \<and>
     (\<exists>p. m_ConnPool c = Some p \<and> sync_inv B (s, p)))"

text \<open>The process after one attempt on the live context \<open>a\<close>.\<close>

definition attempt ::
  "'w hiredis \<Rightarrow> addr \<Rightarrow> c_int \<Rightarrow> string list \<Rightarrow> 'w sys \<Rightarrow> redisReply option \<times> 'w sys" where
  "attempt H a tt argv s =
     (case hr_set_timeout H (the (ctxs s a)) (timeout_of tt) (world s) of (x, w) \<Rightarrow>
      case hr_command H x argv w of (r, y, w') \<Rightarrow>
        (r, s\<lparr>world := w', ctxs := (ctxs s)(a \<mapsto> y)\<rparr>))"

lemma attempt_frame:
  assumes "attempt H a tt argv s = (r, t)"
  shows "a \<in> dom (ctxs t)" and "next_addr t = next_addr s" and "\<And>b. b \<noteq> a \<Longrightarrow> ctxs t b = ctxs s b"
    and "actxs t = actxs s" and "aevents t = aevents s"
  using assms by (auto simp: attempt_def split: prod.splits)

lemma RedisCommand_short:
  "length command < 2 \<Longrightarrow>
     RedisCommand H command tt sc = (Ret (error_reply ''Command length should gt 2''), sc)"
  by (simp add: RedisCommand_def prog_simps)

lemma RedisCommand_no_context:
  assumes "2 \<le> length command" and "m_ConnPool c = Some p" and "\<not> rw_writer c"
    and "borrowItem H (s, p) = (Ret None, (s', p'))"
  shows "RedisCommand H command tt (s, c) =
    (Ret (error_reply ''context is NULL !!''),
     (s'\<lparr>logs := logs s' @ [(ERROR, ''contetx is null!'')]\<rparr>, c\<lparr>m_ConnPool := Some p'\<rparr>))"
  using assms by (simp add: RedisCommand_def run_simps client_simps bnd_def Let_def)

lemma RedisCommand_first_attempt:
  assumes "2 \<le> length command" and "m_ConnPool c = Some p" and "\<not> rw_writer c"
    and "borrowItem H (s, p) = (Ret (Some a), (s', p'))" and "a \<in> dom (ctxs s')"
    and "attempt H a tt (inner_command (m_BID c) command) s' = (r, t)"
  defines "c' \<equiv> c\<lparr>rw_readers := rw_readers c + 1, m_ConnPool := Some p'\<rparr>"
  shows "RedisCommand H command tt (s, c) =
    (case r of
       Some rep \<Rightarrow> finish_command (Some a) (Some rep) (t, c')
     | None \<Rightarrow>
         bnd (onpool (Reconnect H (Some a))) (\<lambda>result.
           if result then
             andthen (csys (redisSetTimeout H (Some a) (timeout_of tt)))
                     (bnd (csys (redisCommandArgv H (Some a) (inner_command (m_BID c) command)))
                          (finish_command (Some a)))
           else
             andthen (csys (LOG ERROR ''reconnect faild!''))
            (andthen rwunlock
                     (ret (error_reply ''reconnect faild!''))))
         (t, c'))"
  using assms by (auto simp: RedisCommand_def attempt_def c'_def run_simps client_simps bnd_def Let_def
      split: prod.splits option.splits)

lemma finish_command_Some:
  assumes "m_ConnPool c = Some p" and "\<not> unUsedMutex p" and "\<not> rw_writer c"
  shows "finish_command (Some a) (Some r) (s, c) =
    (Ret (Reply_of r),
     (s, c\<lparr>m_ConnPool := Some (p\<lparr>unUsed := unUsed p @ [Some a], used := used p - 1\<rparr>),
           rw_readers := rw_readers c - 1\<rparr>))"
  using assms by (simp add: finish_command_def run_simps client_simps bnd_def returnItem_apply)

section \<open>Lemmas: what RedisCommand does\<close>

lemma sync_inv_attempt:
  assumes i: "sync_inv (insert a B) (s, p)" and t: "attempt H a tt argv s = (r, t)"
  shows "sync_inv (insert a B) (t, p)"
proof -
  have "a \<in> dom (ctxs s)" using i queue_ok_live by (fastforce simp: sync_inv_def)
  then have d: "dom (ctxs t) = dom (ctxs s)"
    using t by (auto simp: attempt_def split: prod.splits if_splits)
  have "heap_ok t" using i attempt_frame [OF t] by (simp add: sync_inv_def heap_ok_def d)
  moreover have "queue_ok (ctxs t) (unUsed p) (insert a B)"
    by (rule queue_ok_mono [of "ctxs s"]) (use i d in \<open>simp_all add: sync_inv_def\<close>)
  ultimately show ?thesis using i by (simp add: sync_inv_def)
qed

lemma sync_inv_drop:
  assumes i: "sync_inv (insert a B) (s, p)" and "a \<notin> B" and "heap_ok s'"
    and "\<And>b. b \<noteq> a \<Longrightarrow> b \<in> dom (ctxs s) \<Longrightarrow> b \<in> dom (ctxs s')"
  shows "sync_inv B (s', p)"
  using assms by (fastforce simp: sync_inv_def queue_ok_def)

lemma Reconnect_False_frame:
  assumes "Reconnect H (Some a) (s, p) = (Ret False, (s', p'))" and "heap_ok s"
  shows "p' = p" and "heap_ok s'" and "b \<noteq> a \<Longrightarrow> b \<in> dom (ctxs s) \<Longrightarrow> b \<in> dom (ctxs s')"
proof -
  from assms(1) have m: "\<not> unUsedMutex p" by (auto simp: pool_simps Reconnect_def split: if_splits)
  obtain oc w where k: "hr_connect H (c_str (address p)) (port p)
      (hr_free H (the (ctxs s a)) (world s)) = (oc, w)" by fastforce
  have "ctxs s a \<noteq> None"
  proof
    assume "ctxs s a = None"
    with assms(1) m show False by (simp add: Reconnect_def Destroy_def run_simps bnd_def)
  qed
  then obtain x where x: "ctxs s a = Some x" by blast
  let ?s = "s\<lparr>world := w, ctxs := (ctxs s)(a := None, next_addr s := None), next_addr := Suc (next_addr s),
              logs := logs s @ [(INFO, ''free redis context'')]\<rparr>"
  have "p' = p \<and> ctxs s' = (ctxs s)(a := None, next_addr s := None) \<and> next_addr s' = Suc (next_addr s)
        \<and> actxs s' = actxs s \<and> aevents s' = aevents s"
    using assms(1) m x k
    by (cases oc) (auto simp: Reconnect_def Destroy_def run_simps bnd_def redisConnect_def
        split: if_splits)
  then show "p' = p" and "heap_ok s'" and "b \<noteq> a \<Longrightarrow> b \<in> dom (ctxs s) \<Longrightarrow> b \<in> dom (ctxs s')"
    using assms(2) by (auto simp: heap_ok_def less_Suc_eq subset_iff domIff)
qed

lemma sync_inv_give:
  "sync_inv (insert a B) (s, p) \<Longrightarrow> a \<notin> B \<Longrightarrow>
     sync_inv B (s, p\<lparr>unUsed := unUsed p @ [Some a], used := used p - 1\<rparr>)"
  using queue_ok_append [of "ctxs s" "unUsed p" "insert a B" a] by (auto simp: sync_inv_def)

text \<open>A reply at the first attempt: it is handed out, and the context goes to the end of the queue.\<close>

lemma RedisCommand_replied:
  assumes "2 \<le> length command" and c: "m_ConnPool c = Some p" and w: "\<not> rw_writer c"
    and i: "sync_inv B (s, p)" and b: "borrowItem H (s, p) = (Ret (Some a), (s', p'))"
    and t: "attempt H a tt (inner_command (m_BID c) command) s' = (Some r, t)"
  shows "RedisCommand H command tt (s, c) = (Ret (Reply_of r), (t, c\<lparr>m_ConnPool :=
           Some (p'\<lparr>unUsed := unUsed p' @ [Some a], used := used p' - 1\<rparr>)\<rparr>))"
    and "sync_inv B (t, p'\<lparr>unUsed := unUsed p' @ [Some a], used := used p' - 1\<rparr>)"
proof -
  from sync_borrow_some [OF i b] have a: "a \<notin> B" and i': "sync_inv (insert a B) (s', p')"
    and "a \<in> dom (ctxs s')" by (auto simp: healthy_in_def)
  note eq = RedisCommand_first_attempt [OF assms(1) c w b this(3) t]
  have m: "\<not> unUsedMutex p'" using i' by (simp add: sync_inv_def)
  from sync_inv_attempt [OF i' t] a
  show "sync_inv B (t, p'\<lparr>unUsed := unUsed p' @ [Some a], used := used p' - 1\<rparr>)"
    by (rule sync_inv_give)
  show "RedisCommand H command tt (s, c) = (Ret (Reply_of r), (t, c\<lparr>m_ConnPool :=
           Some (p'\<lparr>unUsed := unUsed p' @ [Some a], used := used p' - 1\<rparr>)\<rparr>))"
    using w m by (simp add: eq finish_command_Some)
qed

text \<open>
  No reply at the first attempt. \<open>Reconnect\<close> frees the borrowed context, and the retry then goes
  through the caller's pointer to it.
\<close>

lemma RedisCommand_lost:
  assumes "2 \<le> length command" and c: "m_ConnPool c = Some p" and w: "\<not> rw_writer c"
    and i: "sync_inv B (s, p)" and b: "borrowItem H (s, p) = (Ret (Some a), (s', p'))"
    and t: "attempt H a tt (inner_command (m_BID c) command) s' = (None, t)"
    and k: "hr_connect H (c_str (address p')) (port p') (hr_free H (the (ctxs t a)) (world t)) = (oc, wr)"
  shows "fst (RedisCommand H command tt (s, c)) =
    (case oc of
       None \<Rightarrow> Abrupt (Undef NullDeref)
     | Some y \<Rightarrow> if rc_err y \<noteq> 0 then Ret (error_reply ''reconnect faild!'')
                 else Abrupt (Undef UseAfterFree))"
proof -
  from sync_borrow_some [OF i b] have a: "a \<notin> B" and i': "sync_inv (insert a B) (s', p')"
    and "a \<in> dom (ctxs s')" by (auto simp: healthy_in_def)
  note eq = RedisCommand_first_attempt [OF assms(1) c w b this(3) t]
  have m: "\<not> unUsedMutex p'" using i' by (simp add: sync_inv_def)
  obtain x where x: "ctxs t a = Some x" using attempt_frame(1) [OF t] by blast
  have "heap_ok t" using sync_inv_attempt [OF i' t] by (simp add: sync_inv_def)
  then have "a < next_addr t" using x by (rule heap_ok_below)
  then have n: "next_addr t \<noteq> a" by simp
  from k x have k': "hr_connect H (c_str (address p')) (port p') (hr_free H x (world t)) = (oc, wr)"
    by simp
  obtain s2 where s2: "ctxs s2 a = None" and r: "Reconnect H (Some a) (t, p') =
      (case oc of None \<Rightarrow> (Abrupt (Undef NullDeref), (s2, p'))
       | Some y \<Rightarrow> (if rc_err y \<noteq> 0 then (Ret False, (s2, p')) else (Ret True, (s2, p'))))"
    using Reconnect_live [OF m x n k'] by blast
  show ?thesis
  proof (cases oc)
    case None
    then show ?thesis using r by (simp add: eq bnd_def client_simps)
  next
    case (Some y)
    then show ?thesis
      using r s2 w by (simp add: eq bnd_def client_simps run_simps)
  qed
qed

lemma RedisCommand_lost_inv:
  assumes "2 \<le> length command" and c: "m_ConnPool c = Some p" and w: "\<not> rw_writer c"
    and i: "sync_inv B (s, p)" and b: "borrowItem H (s, p) = (Ret (Some a), (s', p'))"
    and t: "attempt H a tt (inner_command (m_BID c) command) s' = (None, t)"
    and r: "RedisCommand H command tt (s, c) = (Ret rep, (s'', c''))"
  shows "c'' = c\<lparr>m_ConnPool := Some p'\<rparr> \<and> sync_inv B (s'', p')"
proof -
  from sync_borrow_some [OF i b] have a: "a \<notin> B" and i': "sync_inv (insert a B) (s', p')"
    and "a \<in> dom (ctxs s')" by (auto simp: healthy_in_def)
  note eq = RedisCommand_first_attempt [OF assms(1) c w b this(3) t]
  obtain oc wr where k: "hr_connect H (c_str (address p')) (port p')
      (hr_free H (the (ctxs t a)) (world t)) = (oc, wr)" by fastforce
  from RedisCommand_lost [OF assms(1) c w i b t k] r
  obtain y where y: "oc = Some y" "rc_err y \<noteq> 0" by (auto split: option.splits if_splits)
  obtain x where x: "ctxs t a = Some x" using attempt_frame(1) [OF t] by blast
  have it: "sync_inv (insert a B) (t, p')" by (rule sync_inv_attempt [OF i' t])
  then have m: "\<not> unUsedMutex p'" and h: "heap_ok t" by (simp_all add: sync_inv_def)
  from heap_ok_below [OF h x] have n: "next_addr t \<noteq> a" by simp
  obtain s2 where r2: "Reconnect H (Some a) (t, p') = (Ret False, (s2, p'))"
    using Reconnect_live [OF m x n, of H oc wr] k x y by auto
  have "c'' = c\<lparr>m_ConnPool := Some p'\<rparr>" and s'': "ctxs s'' = ctxs s2" "heap_ok s'' = heap_ok s2"
    using r r2 w by (auto simp: eq bnd_def client_simps run_simps)
  moreover have "sync_inv B (s'', p')"
    using Reconnect_False_frame [OF r2 h] by (intro sync_inv_drop [OF it a]) (auto simp: s'')
  ultimately show ?thesis by simp
qed

text \<open>Whatever a command returns, the client is in order again and the lock is as it was.\<close>

lemma RedisCommand_inv:
  assumes i: "client_inv bid B (s, c)"
    and r: "RedisCommand H command tt (s, c) = (Ret rep, (s'', c''))"
  shows "client_inv bid B (s'', c'')" and "rw_readers c'' = rw_readers c"
proof -
  from i obtain p where c: "m_ConnPool c = Some p" and w: "\<not> rw_writer c" and bid: "m_BID c = bid"
    and p: "sync_inv B (s, p)" by (auto simp: client_inv_def)
  have "client_inv bid B (s'', c'') \<and> rw_readers c'' = rw_readers c"
  proof (cases "length command < 2")
    case True
    with r i show ?thesis by (simp add: RedisCommand_short)
  next
    case False
    then have len: "2 \<le> length command" by simp
    from sync_borrow_returns [OF p] obtain q s' p' where b: "borrowItem H (s, p) = (Ret q, (s', p'))"
      by fastforce
    show ?thesis
    proof (cases q)
      case None
      with b have b': "borrowItem H (s, p) = (Ret None, (s', p'))" by simp
      from RedisCommand_no_context [OF len c w b'] r
      have "c'' = c\<lparr>m_ConnPool := Some p'\<rparr>" and "s'' = s'\<lparr>logs := logs s' @ [(ERROR, ''contetx is null!'')]\<rparr>"
        by simp_all
      with sync_borrow_none [OF p b'] w bid show ?thesis by (simp add: client_inv_def sync_inv_def)
    next
      case (Some a)
      with b have b': "borrowItem H (s, p) = (Ret (Some a), (s', p'))" by simp
      obtain o' t where t: "attempt H a tt (inner_command (m_BID c) command) s' = (o', t)" by fastforce
      show ?thesis
      proof (cases o')
        case None
        with t have t': "attempt H a tt (inner_command (m_BID c) command) s' = (None, t)" by simp
        from RedisCommand_lost_inv [OF len c w p b' t' r] w bid show ?thesis
          by (auto simp: client_inv_def)
      next
        case (Some rr)
        with t have t': "attempt H a tt (inner_command (m_BID c) command) s' = (Some rr, t)" by simp
        from RedisCommand_replied [OF len c w p b' t'] r w bid show ?thesis
          by (auto simp: client_inv_def)
      qed
    qed
  qed
  then show "client_inv bid B (s'', c'')" and "rw_readers c'' = rw_readers c" by simp_all
qed

section \<open>Lemmas: keys\<close>

text \<open>The positions the client takes for keys, by the command's name.\<close>

definition key_positions :: "string list \<Rightarrow> nat set" where
  "key_positions command =
     (if command ! 0 \<in> {''MGET'', ''mget'', ''DEL'', ''del''} then {1..<length command}
      else if command ! 0 \<in> {''MSET'', ''mset''} then {i. i < length command \<and> odd i}
      else {i. i = 1 \<and> i < length command})"

definition ns_key :: "string \<Rightarrow> string \<Rightarrow> string" where
  "ns_key bid k = (if bid = [] then k else bid_key bid k)"

lemma length_inner_command [simp]: "length (inner_command bid command) = length command"
  by (simp add: inner_command_def)

lemma inner_command_nth:
  "i < length command \<Longrightarrow> inner_command bid command ! i =
     (if i \<in> key_positions command then ns_key bid (command ! i) else command ! i)"
  by (auto simp: inner_command_def inner_arg_def key_positions_def ns_key_def odd_iff_mod_2_eq_one)

lemma ns_key_inj: "ns_key bid k = ns_key bid k' \<longleftrightarrow> k = k'"
  by (simp add: ns_key_def bid_key_def)

lemma bid_key_disjoint:
  assumes "CHR ''_'' \<notin> set b" and "CHR ''_'' \<notin> set b'"
  shows "bid_key b k = bid_key b' k' \<longleftrightarrow> b = b' \<and> k = k'"
proof
  assume eq: "bid_key b k = bid_key b' k'"
  have b: "takeWhile (\<lambda>c. c \<noteq> CHR ''_'') (bid_key x y) = x" if "CHR ''_'' \<notin> set x" for x y
    using that by (auto simp: bid_key_def takeWhile_append)
  from eq b [OF assms(1), of k] b [OF assms(2), of k'] have "b = b'" by simp
  with eq show "b = b' \<and> k = k'" by (simp add: bid_key_def)
qed simp

lemma keeps_client_state [keeps_intros]:
  "keeps (on_sys I) (getclient f)" "keeps (on_sys I) (updclient g)" "keeps (on_sys I) rdlock" "keeps (on_sys I) wrlock"
  "keeps (on_sys I) rwunlock" "keeps I m \<Longrightarrow> keeps (on_sys I) (csys m)"
  "keeps (on_sys I) m' \<Longrightarrow> keeps (on_sys I) (onpool m')"
  unfolding keeps_def
  by (auto simp: on_sys_def getclient_def getst_def rdlock_def wrlock_def rwunlock_def updclient_def updst_def csys_def
      lift_prog_def onpool_def split: prod.splits option.splits if_splits; fastforce)+

end
