(* ===== verification/Client_Ops.thy ===== *)
theory Client_Ops
  imports Codis_Client
begin

text \<open>
  The synchronous operations of \<open>CodisClient\<close> (\<open>cpp/src/CodisClient.cpp\<close>): each builds a command, runs
  it with \<open>RedisCommand\<close>, and decodes the reply. Overloads over a vector have a suffix. Out-parameters
  are arguments whose new value is returned.
\<close>

section \<open>Shared pieces\<close>

text \<open>The exception \<open>myex\<close> and the size limit of 1 MiB that raises it.\<close>

definition myex :: abrupt where
  "myex = Throw ''Your value is too bigger than 1M''"

definition too_big :: "string \<Rightarrow> bool" where
  "too_big value = (length value > 1048576)"

text \<open>The loop that pushes the \<open>str()\<close> of every element.\<close>

definition element_strs :: "Reply \<Rightarrow> string list" where
  "element_strs rep = foldl (\<lambda>values e. values @ [rep_str e]) [] (rep_elements rep)"

text \<open>The loops that add checked values, or keys with checked values, to a command.\<close>

fun checked_calls :: "Command \<Rightarrow> string list \<Rightarrow> ('s, Command) prog" where
  "checked_calls comm [] = ret comm"
| "checked_calls comm (v # vs) =
     (if too_big v then abort myex else checked_calls (Command_call comm v) vs)"

fun checked_pairs :: "Command \<Rightarrow> (string \<times> string) list \<Rightarrow> ('s, Command) prog" where
  "checked_pairs comm [] = ret comm"
| "checked_pairs comm ((k, v) # kvs) =
     (if too_big v then abort myex
      else checked_pairs (Command_call (Command_call comm k) v) kvs)"

text \<open>
  The loop of \<open>hgetall\<close>: \<open>i\<close> runs over the odd indices; a last element without a partner is not read.
\<close>

fun hgetall_loop :: "Reply list \<Rightarrow> string list \<Rightarrow> string list \<Rightarrow> string list \<times> string list" where
  "hgetall_loop (f # v # rest) flds vals =
     hgetall_loop rest (flds @ [rep_str f]) (vals @ [rep_str v])"
| "hgetall_loop _ flds vals = (flds, vals)"

section \<open>Keys\<close>

definition CodisClient_expire ::
  "'w hiredis \<Rightarrow> string \<Rightarrow> c_int \<Rightarrow> c_int \<Rightarrow> ('w cst, bool) prog" where
  "CodisClient_expire H key seconds tt =
     bnd (RedisCommand_cmd H (Command_calls (Command_new ''EXPIRE'') [key, int2string seconds]) tt)
       (\<lambda>rep. ret (rep_integer rep = 1))"

definition CodisClient_exists ::
  "'w hiredis \<Rightarrow> string \<Rightarrow> c_int \<Rightarrow> ('w cst, bool) prog" where
  "CodisClient_exists H key tt =
     bnd (RedisCommand_cmd H (Command_calls (Command_new ''EXISTS'') [key]) tt)
       (\<lambda>rep. ret (rep_integer rep = 1))"

definition CodisClient_del ::
  "'w hiredis \<Rightarrow> string \<Rightarrow> c_int \<Rightarrow> ('w cst, c_int) prog" where
  "CodisClient_del H key tt =
     bnd (RedisCommand_cmd H (Command_calls (Command_new ''DEL'') [key]) tt)
       (\<lambda>rep. ret (llong_to_int (rep_integer rep)))"

definition CodisClient_del_keys ::
  "'w hiredis \<Rightarrow> string list \<Rightarrow> c_int \<Rightarrow> ('w cst, c_int) prog" where
  "CodisClient_del_keys H keys tt =
     bnd (RedisCommand_cmd H (Command_calls (Command_new ''DEL'') keys) tt)
       (\<lambda>rep. ret (llong_to_int (rep_integer rep)))"

definition CodisClient_type ::
  "'w hiredis \<Rightarrow> string \<Rightarrow> c_int \<Rightarrow> ('w cst, string) prog" where
  "CodisClient_type H key tt =
     bnd (RedisCommand_cmd H (Command_calls (Command_new ''TYPE'') [key]) tt)
       (\<lambda>rep. ret (rep_str rep))"

section \<open>Strings\<close>

definition CodisClient_setbit ::
  "'w hiredis \<Rightarrow> string \<Rightarrow> c_int \<Rightarrow> bool \<Rightarrow> c_int \<Rightarrow> ('w cst, c_int) prog" where
  "CodisClient_setbit H key index value tt =
     bnd (RedisCommand_cmd H (Command_calls (Command_new ''SETBIT'') [key, int2string index, int2string (bool_to_int value)]) tt)
       (\<lambda>rep. ret (llong_to_int (rep_integer rep)))"

definition CodisClient_getbit ::
  "'w hiredis \<Rightarrow> string \<Rightarrow> c_int \<Rightarrow> c_int \<Rightarrow> ('w cst, c_int) prog" where
  "CodisClient_getbit H key index tt =
     bnd (RedisCommand_cmd H (Command_calls (Command_new ''GETBIT'') [key, int2string index]) tt)
       (\<lambda>rep. ret (llong_to_int (rep_integer rep)))"

definition CodisClient_bitcount ::
  "'w hiredis \<Rightarrow> string \<Rightarrow> c_int \<Rightarrow> ('w cst, c_int) prog" where
  "CodisClient_bitcount H key tt =
     bnd (RedisCommand_cmd H (Command_calls (Command_new ''BITCOUNT'') [key]) tt)
       (\<lambda>rep. ret (llong_to_int (rep_integer rep)))"

definition CodisClient_set ::
  "'w hiredis \<Rightarrow> string \<Rightarrow> string \<Rightarrow> c_int \<Rightarrow> ('w cst, bool) prog" where
  "CodisClient_set H key value tt =
     (if too_big value then abort myex
      else bnd (RedisCommand_cmd H (Command_calls (Command_new ''SET'') [key, value]) tt)
       (\<lambda>rep. ret (rep_str rep = ''OK'')))"

definition CodisClient_setnx ::
  "'w hiredis \<Rightarrow> string \<Rightarrow> string \<Rightarrow> c_int \<Rightarrow> ('w cst, bool) prog" where
  "CodisClient_setnx H key value tt =
     (if too_big value then abort myex
      else bnd (RedisCommand_cmd H (Command_calls (Command_new ''SETNX'') [key, value]) tt)
       (\<lambda>rep. ret (rep_integer rep = 1)))"

definition CodisClient_setex ::
  "'w hiredis \<Rightarrow> string \<Rightarrow> string \<Rightarrow> c_int \<Rightarrow> c_int \<Rightarrow> ('w cst, bool) prog" where
  "CodisClient_setex H key value seconds tt =
     (if too_big value then abort myex
      else bnd (RedisCommand_cmd H (Command_calls (Command_new ''SETEX'') [key, int2string seconds, value]) tt)
       (\<lambda>rep. ret (rep_str rep = ''OK'')))"

definition CodisClient_get ::
  "'w hiredis \<Rightarrow> string \<Rightarrow> c_int \<Rightarrow> ('w cst, string) prog" where
  "CodisClient_get H key tt =
     bnd (RedisCommand_cmd H (Command_calls (Command_new ''GET'') [key]) tt)
       (\<lambda>rep. ret (if rep_error rep then [] else rep_str rep))"

definition CodisClient_getset ::
  "'w hiredis \<Rightarrow> string \<Rightarrow> string \<Rightarrow> c_int \<Rightarrow> ('w cst, string) prog" where
  "CodisClient_getset H key value tt =
     (if too_big value then abort myex
      else bnd (RedisCommand_cmd H (Command_calls (Command_new ''GETSET'') [key, value]) tt)
       (\<lambda>rep. ret (if rep_error rep then [] else rep_str rep)))"

definition CodisClient_mget ::
  "'w hiredis \<Rightarrow> string list \<Rightarrow> c_int \<Rightarrow> ('w cst, string list) prog" where
  "CodisClient_mget H keys tt =
     bnd (RedisCommand_cmd H (Command_calls (Command_new ''MGET'') keys) tt)
       (\<lambda>rep. ret (if rep_error rep then [] else element_strs rep))"

definition CodisClient_mset ::
  "'w hiredis \<Rightarrow> KVMap \<Rightarrow> c_int \<Rightarrow> ('w cst, bool) prog" where
  "CodisClient_mset H keyvalues tt =
     bnd (checked_pairs (Command_new ''MSET'') keyvalues) (\<lambda>comm.
     bnd (RedisCommand_cmd H comm tt) (\<lambda>rep. ret (\<not> rep_error rep)))"

definition CodisClient_incr ::
  "'w hiredis \<Rightarrow> string \<Rightarrow> c_int \<Rightarrow> ('w cst, c_int) prog" where
  "CodisClient_incr H key tt =
     bnd (RedisCommand_cmd H (Command_calls (Command_new ''INCR'') [key]) tt)
       (\<lambda>rep. ret (if rep_error rep then 0 else llong_to_int (rep_integer rep)))"

definition CodisClient_decr ::
  "'w hiredis \<Rightarrow> string \<Rightarrow> c_int \<Rightarrow> ('w cst, c_int) prog" where
  "CodisClient_decr H key tt =
     bnd (RedisCommand_cmd H (Command_calls (Command_new ''DECR'') [key]) tt)
       (\<lambda>rep. ret (if rep_error rep then 0 else llong_to_int (rep_integer rep)))"

definition CodisClient_incrby ::
  "'w hiredis \<Rightarrow> string \<Rightarrow> c_int \<Rightarrow> c_int \<Rightarrow> ('w cst, c_int) prog" where
  "CodisClient_incrby H key amount tt =
     bnd (RedisCommand_cmd H (Command_calls (Command_new ''INCRBY'') [key, int2string amount]) tt)
       (\<lambda>rep. ret (if rep_error rep then 0 else llong_to_int (rep_integer rep)))"

definition CodisClient_decrby ::
  "'w hiredis \<Rightarrow> string \<Rightarrow> c_int \<Rightarrow> c_int \<Rightarrow> ('w cst, c_int) prog" where
  "CodisClient_decrby H key amount tt =
     bnd (RedisCommand_cmd H (Command_calls (Command_new ''DECRBY'') [key, int2string amount]) tt)
       (\<lambda>rep. ret (if rep_error rep then 0 else llong_to_int (rep_integer rep)))"

definition CodisClient_append ::
  "'w hiredis \<Rightarrow> string \<Rightarrow> string \<Rightarrow> c_int \<Rightarrow> ('w cst, c_long) prog" where
  "CodisClient_append H key value tt =
     (if too_big value then abort myex
      else bnd (RedisCommand_cmd H (Command_calls (Command_new ''APPEND'') [key, value]) tt)
       (\<lambda>rep. ret (rep_integer rep)))"

section \<open>Lists\<close>

definition CodisClient_lpush ::
  "'w hiredis \<Rightarrow> string \<Rightarrow> string \<Rightarrow> c_int \<Rightarrow> ('w cst, c_int) prog" where
  "CodisClient_lpush H key value tt =
     (if too_big value then abort myex
      else bnd (RedisCommand_cmd H (Command_calls (Command_new ''LPUSH'') [key, value]) tt)
       (\<lambda>rep. ret (llong_to_int (rep_integer rep))))"

definition CodisClient_rpush ::
  "'w hiredis \<Rightarrow> string \<Rightarrow> string \<Rightarrow> c_int \<Rightarrow> ('w cst, c_int) prog" where
  "CodisClient_rpush H key value tt =
     (if too_big value then abort myex
      else bnd (RedisCommand_cmd H (Command_calls (Command_new ''RPUSH'') [key, value]) tt)
       (\<lambda>rep. ret (llong_to_int (rep_integer rep))))"

definition CodisClient_lpush_values ::
  "'w hiredis \<Rightarrow> string \<Rightarrow> string list \<Rightarrow> c_int \<Rightarrow> ('w cst, c_int) prog" where
  "CodisClient_lpush_values H key vals tt =
     bnd (checked_calls (Command_calls (Command_new ''LPUSH'') [key]) vals) (\<lambda>comm.
     bnd (RedisCommand_cmd H comm tt) (\<lambda>rep. ret (llong_to_int (rep_integer rep))))"

definition CodisClient_rpush_values ::
  "'w hiredis \<Rightarrow> string \<Rightarrow> string list \<Rightarrow> c_int \<Rightarrow> ('w cst, c_int) prog" where
  "CodisClient_rpush_values H key vals tt =
     bnd (checked_calls (Command_calls (Command_new ''RPUSH'') [key]) vals) (\<lambda>comm.
     bnd (RedisCommand_cmd H comm tt) (\<lambda>rep. ret (llong_to_int (rep_integer rep))))"

definition CodisClient_llen ::
  "'w hiredis \<Rightarrow> string \<Rightarrow> c_int \<Rightarrow> ('w cst, c_int) prog" where
  "CodisClient_llen H key tt =
     bnd (RedisCommand_cmd H (Command_calls (Command_new ''LLEN'') [key]) tt)
       (\<lambda>rep. ret (llong_to_int (rep_integer rep)))"

definition CodisClient_lrange ::
  "'w hiredis \<Rightarrow> string \<Rightarrow> c_int \<Rightarrow> c_int \<Rightarrow> c_int \<Rightarrow> ('w cst, string list) prog" where
  "CodisClient_lrange H key start stop tt =
     bnd (RedisCommand_cmd H (Command_calls (Command_new ''LRANGE'') [key, int2string start, int2string stop]) tt)
       (\<lambda>rep. ret (element_strs rep))"

definition CodisClient_ltrim ::
  "'w hiredis \<Rightarrow> string \<Rightarrow> c_int \<Rightarrow> c_int \<Rightarrow> c_int \<Rightarrow> ('w cst, bool) prog" where
  "CodisClient_ltrim H key start stop tt =
     bnd (RedisCommand_cmd H (Command_calls (Command_new ''LTRIM'') [key, int2string start, int2string stop]) tt)
       (\<lambda>rep. ret (rep_str rep = ''OK''))"

definition CodisClient_lset ::
  "'w hiredis \<Rightarrow> string \<Rightarrow> c_int \<Rightarrow> string \<Rightarrow> c_int \<Rightarrow> ('w cst, bool) prog" where
  "CodisClient_lset H key index value tt =
     (if too_big value then abort myex
      else bnd (RedisCommand_cmd H (Command_calls (Command_new ''LSET'') [key, int2string index, value]) tt)
       (\<lambda>rep. ret (rep_str rep = ''OK'')))"

definition CodisClient_lrem ::
  "'w hiredis \<Rightarrow> string \<Rightarrow> c_int \<Rightarrow> string \<Rightarrow> c_int \<Rightarrow> ('w cst, bool) prog" where
  "CodisClient_lrem H key count value tt =
     bnd (RedisCommand_cmd H (Command_calls (Command_new ''LREM'') [key, int2string count, value]) tt)
       (\<lambda>rep. ret (rep_integer rep \<noteq> 0))"

definition CodisClient_lpop ::
  "'w hiredis \<Rightarrow> string \<Rightarrow> c_int \<Rightarrow> ('w cst, string) prog" where
  "CodisClient_lpop H key tt =
     bnd (RedisCommand_cmd H (Command_calls (Command_new ''LPOP'') [key]) tt)
       (\<lambda>rep. ret (if rep_error rep then [] else rep_str rep))"

definition CodisClient_rpop ::
  "'w hiredis \<Rightarrow> string \<Rightarrow> c_int \<Rightarrow> ('w cst, string) prog" where
  "CodisClient_rpop H key tt =
     bnd (RedisCommand_cmd H (Command_calls (Command_new ''RPOP'') [key]) tt)
       (\<lambda>rep. ret (if rep_error rep then [] else rep_str rep))"

section \<open>Sets\<close>

definition CodisClient_sadd ::
  "'w hiredis \<Rightarrow> string \<Rightarrow> string \<Rightarrow> c_int \<Rightarrow> ('w cst, bool) prog" where
  "CodisClient_sadd H key member tt =
     bnd (RedisCommand_cmd H (Command_calls (Command_new ''SADD'') [key, member]) tt)
       (\<lambda>rep. ret (rep_integer rep = 1))"

definition CodisClient_sadd_members ::
  "'w hiredis \<Rightarrow> string \<Rightarrow> string list \<Rightarrow> c_int \<Rightarrow> ('w cst, c_int) prog" where
  "CodisClient_sadd_members H key members tt =
     bnd (RedisCommand_cmd H (Command_calls (Command_calls (Command_new ''SADD'') [key]) members) tt)
       (\<lambda>rep. ret (llong_to_int (rep_integer rep)))"

definition CodisClient_srem ::
  "'w hiredis \<Rightarrow> string \<Rightarrow> string \<Rightarrow> c_int \<Rightarrow> ('w cst, bool) prog" where
  "CodisClient_srem H key member tt =
     bnd (RedisCommand_cmd H (Command_calls (Command_new ''SREM'') [key, member]) tt)
       (\<lambda>rep. ret (rep_integer rep = 1))"

definition CodisClient_spop ::
  "'w hiredis \<Rightarrow> string \<Rightarrow> c_int \<Rightarrow> ('w cst, string) prog" where
  "CodisClient_spop H key tt =
     bnd (RedisCommand_cmd H (Command_calls (Command_new ''SPOP'') [key]) tt)
       (\<lambda>rep. ret (if rep_error rep then [] else rep_str rep))"

definition CodisClient_srandmember ::
  "'w hiredis \<Rightarrow> string \<Rightarrow> c_int \<Rightarrow> ('w cst, string) prog" where
  "CodisClient_srandmember H key tt =
     bnd (RedisCommand_cmd H (Command_calls (Command_new ''SRANDMEMBER'') [key]) tt)
       (\<lambda>rep. ret (if rep_error rep then [] else rep_str rep))"

definition CodisClient_scard ::
  "'w hiredis \<Rightarrow> string \<Rightarrow> c_int \<Rightarrow> ('w cst, c_int) prog" where
  "CodisClient_scard H key tt =
     bnd (RedisCommand_cmd H (Command_calls (Command_new ''SCARD'') [key]) tt)
       (\<lambda>rep. ret (llong_to_int (rep_integer rep)))"

definition CodisClient_sismember ::
  "'w hiredis \<Rightarrow> string \<Rightarrow> string \<Rightarrow> c_int \<Rightarrow> ('w cst, bool) prog" where
  "CodisClient_sismember H key member tt =
     bnd (RedisCommand_cmd H (Command_calls (Command_new ''SISMEMBER'') [key, member]) tt)
       (\<lambda>rep. ret (rep_integer rep = 1))"

definition CodisClient_smembers ::
  "'w hiredis \<Rightarrow> string \<Rightarrow> c_int \<Rightarrow> ('w cst, string list) prog" where
  "CodisClient_smembers H key tt =
     bnd (RedisCommand_cmd H (Command_calls (Command_new ''SMEMBERS'') [key]) tt)
       (\<lambda>rep. ret (element_strs rep))"

section \<open>Sorted sets\<close>

definition CodisClient_zadd ::
  "'w hiredis \<Rightarrow> string \<Rightarrow> c_int \<Rightarrow> string \<Rightarrow> c_int \<Rightarrow> ('w cst, bool) prog" where
  "CodisClient_zadd H key score member tt =
     bnd (RedisCommand_cmd H (Command_calls (Command_new ''ZADD'') [key, int2string score, member]) tt)
       (\<lambda>rep. ret (rep_integer rep = 1))"

definition CodisClient_zrem ::
  "'w hiredis \<Rightarrow> string \<Rightarrow> string \<Rightarrow> c_int \<Rightarrow> ('w cst, bool) prog" where
  "CodisClient_zrem H key member tt =
     bnd (RedisCommand_cmd H (Command_calls (Command_new ''ZREM'') [key, member]) tt)
       (\<lambda>rep. ret (rep_integer rep = 1))"

definition CodisClient_zincrby ::
  "'w hiredis \<Rightarrow> string \<Rightarrow> c_int \<Rightarrow> string \<Rightarrow> c_int \<Rightarrow> ('w cst, c_int) prog" where
  "CodisClient_zincrby H key amount member tt =
     bnd (RedisCommand_cmd H (Command_calls (Command_new ''ZINCRBY'') [key, int2string amount, member]) tt)
       (\<lambda>rep. ret (string2int (rep_str rep)))"

definition CodisClient_zrank ::
  "'w hiredis \<Rightarrow> string \<Rightarrow> string \<Rightarrow> c_int \<Rightarrow> ('w cst, c_int) prog" where
  "CodisClient_zrank H key member tt =
     bnd (RedisCommand_cmd H (Command_calls (Command_new ''ZRANK'') [key, member]) tt)
       (\<lambda>rep. ret (llong_to_int (rep_integer rep)))"

definition CodisClient_zrevrank ::
  "'w hiredis \<Rightarrow> string \<Rightarrow> string \<Rightarrow> c_int \<Rightarrow> ('w cst, c_int) prog" where
  "CodisClient_zrevrank H key member tt =
     bnd (RedisCommand_cmd H (Command_calls (Command_new ''ZREVRANK'') [key, member]) tt)
       (\<lambda>rep. ret (llong_to_int (rep_integer rep)))"

definition CodisClient_zrange ::
  "'w hiredis \<Rightarrow> string \<Rightarrow> c_int \<Rightarrow> c_int \<Rightarrow> string \<Rightarrow> c_int \<Rightarrow> ('w cst, string list) prog" where
  "CodisClient_zrange H key start stop withscores tt =
     bnd (if withscores = ''True''
          then RedisCommand_cmd H (Command_call_cstr (Command_calls (Command_new ''ZRANGE'') [key, int2string start, int2string stop]) ''withscores'') tt
          else RedisCommand_cmd H (Command_calls (Command_new ''ZRANGE'') [key, int2string start, int2string stop]) tt)
       (\<lambda>rep. ret (element_strs rep))"

definition CodisClient_zrevrange ::
  "'w hiredis \<Rightarrow> string \<Rightarrow> c_int \<Rightarrow> c_int \<Rightarrow> string \<Rightarrow> c_int \<Rightarrow> ('w cst, string list) prog" where
  "CodisClient_zrevrange H key start stop withscores tt =
     bnd (if withscores = ''True''
          then RedisCommand_cmd H (Command_call_cstr (Command_calls (Command_new ''ZREVRANGE'') [key, int2string start, int2string stop]) ''withscores'') tt
          else RedisCommand_cmd H (Command_calls (Command_new ''ZREVRANGE'') [key, int2string start, int2string stop]) tt)
       (\<lambda>rep. ret (element_strs rep))"

definition CodisClient_zrangebyscore ::
  "'w hiredis \<Rightarrow> string \<Rightarrow> string \<Rightarrow> string \<Rightarrow> string \<Rightarrow> c_int \<Rightarrow> ('w cst, string list) prog" where
  "CodisClient_zrangebyscore H key lo hi withscores tt =
     bnd (if withscores = ''True''
          then RedisCommand_cmd H (Command_call_cstr (Command_calls (Command_new ''ZRANGEBYSCORE'') [key, lo, hi]) ''withscores'') tt
          else RedisCommand_cmd H (Command_calls (Command_new ''ZRANGEBYSCORE'') [key, lo, hi]) tt)
       (\<lambda>rep. ret (element_strs rep))"

definition CodisClient_zrevrangebyscore ::
  "'w hiredis \<Rightarrow> string \<Rightarrow> string \<Rightarrow> string \<Rightarrow> string \<Rightarrow> c_int \<Rightarrow> ('w cst, string list) prog" where
  "CodisClient_zrevrangebyscore H key lo hi withscores tt =
     bnd (if withscores = ''True''
          then RedisCommand_cmd H (Command_call_cstr (Command_calls (Command_new ''ZREVRANGEBYSCORE'') [key, lo, hi]) ''withscores'') tt
          else RedisCommand_cmd H (Command_calls (Command_new ''ZREVRANGEBYSCORE'') [key, lo, hi]) tt)
       (\<lambda>rep. ret (element_strs rep))"

definition CodisClient_zcount ::
  "'w hiredis \<Rightarrow> string \<Rightarrow> c_int \<Rightarrow> c_int \<Rightarrow> c_int \<Rightarrow> ('w cst, c_int) prog" where
  "CodisClient_zcount H key lo hi tt =
     bnd (RedisCommand_cmd H (Command_calls (Command_new ''ZCOUNT'') [key, int2string lo, int2string hi]) tt)
       (\<lambda>rep. ret (llong_to_int (rep_integer rep)))"

definition CodisClient_zcard ::
  "'w hiredis \<Rightarrow> string \<Rightarrow> c_int \<Rightarrow> ('w cst, c_int) prog" where
  "CodisClient_zcard H key tt =
     bnd (RedisCommand_cmd H (Command_calls (Command_new ''ZCARD'') [key]) tt)
       (\<lambda>rep. ret (llong_to_int (rep_integer rep)))"

definition CodisClient_zscore ::
  "'w hiredis \<Rightarrow> string \<Rightarrow> string \<Rightarrow> c_int \<Rightarrow> ('w cst, c_int) prog" where
  "CodisClient_zscore H key member tt =
     bnd (RedisCommand_cmd H (Command_calls (Command_new ''ZSCORE'') [key, member]) tt)
       (\<lambda>rep. ret (string2int (rep_str rep)))"

definition CodisClient_zremrangebyrank ::
  "'w hiredis \<Rightarrow> string \<Rightarrow> c_int \<Rightarrow> c_int \<Rightarrow> c_int \<Rightarrow> ('w cst, c_int) prog" where
  "CodisClient_zremrangebyrank H key lo hi tt =
     bnd (RedisCommand_cmd H (Command_calls (Command_new ''ZREMRANGEBYRANK'') [key, int2string lo, int2string hi]) tt)
       (\<lambda>rep. ret (llong_to_int (rep_integer rep)))"

definition CodisClient_zremrangebyscore ::
  "'w hiredis \<Rightarrow> string \<Rightarrow> c_int \<Rightarrow> c_int \<Rightarrow> c_int \<Rightarrow> ('w cst, c_int) prog" where
  "CodisClient_zremrangebyscore H key lo hi tt =
     bnd (RedisCommand_cmd H (Command_calls (Command_new ''ZREMRANGEBYSCORE'') [key, int2string lo, int2string hi]) tt)
       (\<lambda>rep. ret (llong_to_int (rep_integer rep)))"

section \<open>Hashes\<close>

definition CodisClient_hset ::
  "'w hiredis \<Rightarrow> string \<Rightarrow> string \<Rightarrow> string \<Rightarrow> c_int \<Rightarrow> ('w cst, bool) prog" where
  "CodisClient_hset H key field value tt =
     (if too_big value then abort myex
      else bnd (RedisCommand_cmd H (Command_calls (Command_new ''HSET'') [key, field, value]) tt)
       (\<lambda>rep. ret (rep_integer rep \<noteq> 0)))"

definition CodisClient_hget ::
  "'w hiredis \<Rightarrow> string \<Rightarrow> string \<Rightarrow> c_int \<Rightarrow> ('w cst, string) prog" where
  "CodisClient_hget H key field tt =
     bnd (RedisCommand_cmd H (Command_calls (Command_new ''HGET'') [key, field]) tt)
       (\<lambda>rep. ret (if rep_error rep then [] else rep_str rep))"

definition CodisClient_hmget ::
  "'w hiredis \<Rightarrow> string \<Rightarrow> string list \<Rightarrow> c_int \<Rightarrow> ('w cst, string list) prog" where
  "CodisClient_hmget H key flds tt =
     bnd (RedisCommand_cmd H (Command_calls (Command_calls (Command_new ''HMGET'') [key]) flds) tt)
       (\<lambda>rep. ret (element_strs rep))"

definition CodisClient_hmset ::
  "'w hiredis \<Rightarrow> string \<Rightarrow> string list \<Rightarrow> string list \<Rightarrow> c_int \<Rightarrow> ('w cst, bool) prog" where
  "CodisClient_hmset H key flds vals tt =
     (if length flds \<noteq> length vals then ret False
      else if flds = [] then ret False
      else
        bnd (checked_pairs (Command_calls (Command_new ''HMSET'') [key]) (zip flds vals)) (\<lambda>command.
        bnd (RedisCommand_cmd H command tt) (\<lambda>rep. ret (rep_str rep = ''OK''))))"

definition CodisClient_hincrby ::
  "'w hiredis \<Rightarrow> string \<Rightarrow> string \<Rightarrow> c_int \<Rightarrow> c_int \<Rightarrow> ('w cst, c_int) prog" where
  "CodisClient_hincrby H key field amount tt =
     bnd (RedisCommand_cmd H (Command_calls (Command_new ''HINCRBY'') [key, field, int2string amount]) tt)
       (\<lambda>rep. ret (llong_to_int (rep_integer rep)))"

definition CodisClient_hexists ::
  "'w hiredis \<Rightarrow> string \<Rightarrow> string \<Rightarrow> c_int \<Rightarrow> ('w cst, bool) prog" where
  "CodisClient_hexists H key field tt =
     bnd (RedisCommand_cmd H (Command_calls (Command_new ''HEXISTS'') [key, field]) tt)
       (\<lambda>rep. ret (rep_integer rep = 1))"

definition CodisClient_hdel ::
  "'w hiredis \<Rightarrow> string \<Rightarrow> string \<Rightarrow> c_int \<Rightarrow> ('w cst, bool) prog" where
  "CodisClient_hdel H key field tt =
     bnd (RedisCommand_cmd H (Command_calls (Command_new ''HDEL'') [key, field]) tt)
       (\<lambda>rep. ret (rep_integer rep = 1))"

definition CodisClient_hlen ::
  "'w hiredis \<Rightarrow> string \<Rightarrow> c_int \<Rightarrow> ('w cst, c_int) prog" where
  "CodisClient_hlen H key tt =
     bnd (RedisCommand_cmd H (Command_calls (Command_new ''HLEN'') [key]) tt)
       (\<lambda>rep. ret (llong_to_int (rep_integer rep)))"

definition CodisClient_hkeys ::
  "'w hiredis \<Rightarrow> string \<Rightarrow> c_int \<Rightarrow> ('w cst, string list) prog" where
  "CodisClient_hkeys H key tt =
     bnd (RedisCommand_cmd H (Command_calls (Command_new ''HKEYS'') [key]) tt)
       (\<lambda>rep. ret (element_strs rep))"

definition CodisClient_hvals ::
  "'w hiredis \<Rightarrow> string \<Rightarrow> c_int \<Rightarrow> ('w cst, string list) prog" where
  "CodisClient_hvals H key tt =
     bnd (RedisCommand_cmd H (Command_calls (Command_new ''HVALS'') [key]) tt)
       (\<lambda>rep. ret (element_strs rep))"

definition CodisClient_hgetall ::
  "'w hiredis \<Rightarrow> string \<Rightarrow> string list \<Rightarrow> string list \<Rightarrow> c_int \<Rightarrow> ('w cst, bool \<times> string list \<times> string list) prog" where
  "CodisClient_hgetall H key flds vals tt =
     bnd (RedisCommand_cmd H (Command_calls (Command_new ''HGETALL'') [key]) tt)
       (\<lambda>rep. ret (if rep_error rep then (False, flds, vals)
                    else (True, hgetall_loop (rep_elements rep) flds vals)))"

section \<open>Lemmas\<close>

lemma checked_calls_big: "v \<in> set vs \<Longrightarrow> too_big v \<Longrightarrow> checked_calls comm vs s = (Abrupt myex, s)"
  by (induction comm vs rule: checked_calls.induct) (auto simp: prog_simps)

lemma checked_pairs_big: "(k, v) \<in> set kvs \<Longrightarrow> too_big v \<Longrightarrow> checked_pairs comm kvs s = (Abrupt myex, s)"
  by (induction comm kvs rule: checked_pairs.induct) (auto simp: prog_simps)

lemma hgetall_loop_pairs:
  "hgetall_loop es fs vs =
     (fs @ map (\<lambda>i. rep_str (es ! (2 * i))) [0..<length es div 2],
      vs @ map (\<lambda>i. rep_str (es ! Suc (2 * i))) [0..<length es div 2])"
proof (induction es fs vs rule: hgetall_loop.induct)
  case (1 f v rest fs vs)
  have "[0..<length (f # v # rest) div 2] = 0 # map Suc [0..<length rest div 2]"
    by (simp add: map_Suc_upt upt_conv_Cons del: upt_Suc)
  with 1 show ?case by (simp add: comp_def del: upt_Suc)
qed simp_all

lemma llong_to_int_signed: "llong_to_int n = word_of_int (sint n)"
  by (simp add: llong_to_int_def) (rule bit_word_eqI, simp add: bit_simps)

lemma llong_to_int_exact:
  "sint (llong_to_int n) = sint n \<longleftrightarrow> - (2 ^ 31) \<le> sint n \<and> sint n < 2 ^ 31"
proof -
  have "sint (llong_to_int n) = signed_take_bit 31 (sint n)"
    unfolding llong_to_int_signed by (simp only: signed_of_int) simp
  then show ?thesis by (simp add: signed_take_bit_int_eq_self_iff)
qed

section \<open>Lemmas: every operation keeps the client in order\<close>

lemmas client_op_defs =
  CodisClient_expire_def CodisClient_exists_def CodisClient_del_def
  CodisClient_del_keys_def CodisClient_type_def CodisClient_setbit_def
  CodisClient_getbit_def CodisClient_bitcount_def CodisClient_set_def
  CodisClient_setnx_def CodisClient_setex_def CodisClient_get_def
  CodisClient_getset_def CodisClient_mget_def CodisClient_mset_def
  CodisClient_incr_def CodisClient_decr_def CodisClient_incrby_def
  CodisClient_decrby_def CodisClient_append_def CodisClient_lpush_def
  CodisClient_rpush_def CodisClient_lpush_values_def CodisClient_rpush_values_def
  CodisClient_llen_def CodisClient_lrange_def CodisClient_ltrim_def
  CodisClient_lset_def CodisClient_lrem_def CodisClient_lpop_def
  CodisClient_rpop_def CodisClient_sadd_def CodisClient_sadd_members_def
  CodisClient_srem_def CodisClient_spop_def CodisClient_srandmember_def
  CodisClient_scard_def CodisClient_sismember_def CodisClient_smembers_def
  CodisClient_zadd_def CodisClient_zrem_def CodisClient_zincrby_def
  CodisClient_zrank_def CodisClient_zrevrank_def CodisClient_zrange_def
  CodisClient_zrevrange_def CodisClient_zrangebyscore_def CodisClient_zrevrangebyscore_def
  CodisClient_zcount_def CodisClient_zcard_def CodisClient_zscore_def
  CodisClient_zremrangebyrank_def CodisClient_zremrangebyscore_def CodisClient_hset_def
  CodisClient_hget_def CodisClient_hmget_def CodisClient_hmset_def
  CodisClient_hincrby_def CodisClient_hexists_def CodisClient_hdel_def
  CodisClient_hlen_def CodisClient_hkeys_def CodisClient_hvals_def
  CodisClient_hgetall_def

text \<open>A command on a client in order returns, or ends in undefined behaviour.\<close>

lemma RedisCommand_ends:
  assumes "client_inv bid B (s, c)" and "RedisCommand H command tt (s, c) = (r, sc')" and "no_ub r"
  obtains rep where "r = Ret rep"
proof -
  from assms(1) obtain p where c: "m_ConnPool c = Some p" and w: "\<not> rw_writer c"
    and p: "sync_inv B (s, p)" by (auto simp: client_inv_def)
  have "\<exists>rep. r = Ret rep"
  proof (cases "length command < 2")
    case True
    with assms(2) show ?thesis by (auto simp add: RedisCommand_short)
  next
    case False
    then have len: "2 \<le> length command" by simp
    from sync_borrow_returns [OF p] obtain q s' p' where b: "borrowItem H (s, p) = (Ret q, (s', p'))" by fastforce
    show ?thesis
    proof (cases q)
      case None
      with b RedisCommand_no_context [OF len c w, of H] assms(2) show ?thesis by auto
    next
      case (Some a)
      with b have b': "borrowItem H (s, p) = (Ret (Some a), (s', p'))" by simp
      obtain o' t where t: "attempt H a tt (inner_command (m_BID c) command) s' = (o', t)" by fastforce
      obtain oc wr where k: "hr_connect H (c_str (address p')) (port p')
        (hr_free H (the (ctxs t a)) (world t)) = (oc, wr)" by fastforce
      show ?thesis
      proof (cases o')
        case None
        with t have t': "attempt H a tt (inner_command (m_BID c) command) s' = (None, t)" by simp
        have "r = fst (RedisCommand H command tt (s, c))" using assms(2) by simp
        with RedisCommand_lost [OF len c w p b' t' k] assms(3) show ?thesis
          by (auto split: option.splits if_splits)
      next
        case (Some rr)
        with t RedisCommand_replied(1) [OF len c w p b'] assms(2) show ?thesis by auto
      qed
    qed
  qed
  with that show thesis by blast
qed

text \<open>The client in order, its lock held by \<open>n\<close> readers.\<close>

definition in_order :: "string \<Rightarrow> addr set \<Rightarrow> nat \<Rightarrow> 'w cst \<Rightarrow> bool" where
  "in_order bid B n sc \<longleftrightarrow> client_inv bid B sc \<and> rw_readers (snd sc) = n"

lemma keeps_RedisCommand [keeps_intros]: "keeps (in_order bid B n) (RedisCommand H command tt)"
  unfolding keeps_def
proof (intro allI impI, elim conjE)
  fix sc r sc'
  assume i: "in_order bid B n sc" and r: "RedisCommand H command tt sc = (r, sc')" and u: "no_ub r"
  obtain s c s' c' where sc: "sc = (s, c)" "sc' = (s', c')" by (metis prod.exhaust)
  from i have "client_inv bid B (s, c)" by (simp add: in_order_def sc)
  from RedisCommand_ends [OF this r [unfolded sc] u] obtain rep where "r = Ret rep" .
  with i r show "in_order bid B n sc'" unfolding sc in_order_def by (auto dest: RedisCommand_inv)
qed

lemma keeps_RedisCommand_cmd [keeps_intros]:
  "keeps I (RedisCommand H (cmd_args command) tt) \<Longrightarrow> keeps I (RedisCommand_cmd H command tt)"
  by (simp add: RedisCommand_cmd_def)

lemma keeps_checked_calls [keeps_intros]: "keeps I (checked_calls comm vs)"
  by (induction comm vs rule: checked_calls.induct) (auto intro: keeps_intros)

lemma keeps_checked_pairs [keeps_intros]: "keeps I (checked_pairs comm kvs)"
  by (induction comm kvs rule: checked_pairs.induct) (auto intro: keeps_intros)

end
