(* ===== verification/Client_Refinement.thy ===== *)
theory Client_Refinement
  imports Client_Ops
begin

text \<open>
  What the client promises over a redis server that answers. The locale \<open>redis_exec\<close> is the interface
  between \<open>RedisCommand\<close> and the operations built on it; it is interpreted on \<open>RedisCommand\<close> itself,
  for a library whose connections work. Over a server that keeps a key-value store, the operations
  then implement a key-value store of their own, one per business ID.
\<close>

section \<open>A library whose connections work\<close>

text \<open>
  \<open>st\<close> reads the server's state off the world, \<open>srv\<close> is the server: its answer to a command and its
  next state. Connecting succeeds, connecting and closing leave the server alone, and a healthy
  context delivers each command once.
\<close>

definition reliable ::
  "'w hiredis \<Rightarrow> ('w \<Rightarrow> 'm) \<Rightarrow> ('m \<Rightarrow> string list \<Rightarrow> redisReply \<times> 'm) \<Rightarrow> bool" where
  "reliable H st srv \<longleftrightarrow>
     (\<forall>ip prt w. \<exists>c w'. hr_connect H ip prt w = (Some c, w') \<and> rc_err c = REDIS_OK \<and> st w' = st w) \<and>
     (\<forall>c tv w. rc_err (fst (hr_set_timeout H c tv w)) = rc_err c \<and>
               st (snd (hr_set_timeout H c tv w)) = st w) \<and>
     (\<forall>c w. st (hr_free H c w) = st w) \<and>
     (\<forall>c argv w. rc_err c = REDIS_OK \<longrightarrow>
        (\<exists>c' w'. hr_command H c argv w = (Some (fst (srv (st w) argv)), c', w') \<and>
                 rc_err c' = REDIS_OK \<and> st w' = snd (srv (st w) argv)))"

definition serving ::
  "'w hiredis \<Rightarrow> ('w \<Rightarrow> 'm) \<Rightarrow> ('m \<Rightarrow> string list \<Rightarrow> redisReply \<times> 'm) \<Rightarrow> string \<Rightarrow> addr set \<Rightarrow>
   'w cst \<Rightarrow> bool" where
  "serving H st srv bid B sc \<longleftrightarrow> reliable H st srv \<and> client_inv bid B sc"

section \<open>The interface\<close>

text \<open>The answers of a server to a sequence of commands, and its state after them.\<close>

fun answers :: "('m \<Rightarrow> string list \<Rightarrow> redisReply \<times> 'm) \<Rightarrow> 'm \<Rightarrow> string list list \<Rightarrow> Reply list \<times> 'm" where
  "answers srv m [] = ([], m)"
| "answers srv m (c # cs) =
     (case srv m c of (r, m') \<Rightarrow> case answers srv m' cs of (rs, m'') \<Rightarrow> (Reply_of r # rs, m''))"

locale redis_exec =
  fixes exec :: "string list \<Rightarrow> c_int \<Rightarrow> ('s, Reply) prog"
    and ok :: "'s \<Rightarrow> bool"
    and view :: "'s \<Rightarrow> 'm"
    and serve :: "'m \<Rightarrow> string list \<Rightarrow> redisReply \<times> 'm"
  assumes exec_law: "ok s \<Longrightarrow> 2 \<le> length command \<Longrightarrow>
      \<exists>s'. exec command tt s = (Ret (Reply_of (fst (serve (view s) command))), s') \<and> ok s' \<and>
           view s' = snd (serve (view s) command)"
begin

text \<open>A batch is answered in order, each command once.\<close>

lemma batch:
  "ok s \<Longrightarrow> \<forall>c \<in> set cs. 2 \<le> length c \<Longrightarrow>
     \<exists>s'. mapM_prog (\<lambda>c. exec c tt) cs s = (Ret (fst (answers serve (view s) cs)), s') \<and> ok s' \<and>
          view s' = snd (answers serve (view s) cs)"
proof (induction cs arbitrary: s)
  case Nil
  then show ?case by (simp add: prog_simps)
next
  case (Cons c cs)
  from exec_law [OF Cons.prems(1), of c tt] Cons.prems(2) obtain s1 where
    e: "exec c tt s = (Ret (Reply_of (fst (serve (view s) c))), s1)" and ok: "ok s1" and
    v: "view s1 = snd (serve (view s) c)" by auto
  from Cons.IH [OF ok] Cons.prems(2) obtain s2 where
    m: "mapM_prog (\<lambda>c. exec c tt) cs s1 = (Ret (fst (answers serve (view s1) cs)), s2)" and
    "ok s2" and "view s2 = snd (answers serve (view s1) cs)" by auto
  then show ?case by (simp add: bnd_def prog_simps e m v split: prod.splits)
qed

text \<open>An operation that sends one command and decodes its reply.\<close>

lemma decode:
  assumes "ok s" and "2 \<le> length command"
  shows "\<exists>s'. bnd (exec command tt) (\<lambda>rep. ret (f rep)) s =
             (Ret (f (Reply_of (fst (serve (view s) command)))), s') \<and> ok s' \<and>
             view s' = snd (serve (view s) command)"
  using exec_law [OF assms, of tt] by (auto simp: bnd_def ret_def)

end

section \<open>RedisCommand provides it\<close>

lemma free_all_st: "reliable H st srv \<Longrightarrow> st (world (free_all H as s)) = st (world s)"
  by (induction as arbitrary: s) (auto simp: reliable_def)

lemma reliable_borrow:
  assumes R: "reliable H st srv" and i: "sync_inv B (s, p)"
  shows "\<exists>a s' p'. borrowItem H (s, p) = (Ret (Some a), (s', p')) \<and> st (world s') = st (world s)"
proof -
  from i obtain as where m: "\<not> unUsedMutex p" and pw: "password p = []"
    and q: "unUsed p = map Some as" and d: "distinct as" and live: "set as \<subseteq> dom (ctxs s)"
    by (auto simp: sync_inv_def queue_ok_def)
  then have all: "\<forall>a \<in> set as. a \<in> dom (ctxs s)" by auto
  then show ?thesis
  proof (cases rule: idle_split)
    case (first_healthy bad a rest)
    have "borrowItem H (s, p) = (Ret (Some a), (free_all H bad s, p\<lparr>unUsed := map Some rest\<rparr>))"
      using first_healthy d by (intro borrowItem_idle m) (auto simp: q)
    with free_all_st [OF R] show ?thesis by blast
  next
    case all_broken
    let ?s = "free_all H as s" and ?p = "p\<lparr>unUsedMutex := True, unUsed := []\<rparr>"
    obtain c w where c: "connect_result H ?s ?p = (Some c, w)" and e: "rc_err c = 0"
      and w: "st w = st (world ?s)"
      using R unfolding reliable_def connect_result_def REDIS_OK_def by metis
    have w': "st w = st (world s)" using w free_all_st [OF R, of as s] by simp
    have "password ?p = []" using pw by simp
    from borrowItem_connect [OF m q all_broken d create_ok [OF this c e]]
    show ?thesis by (intro exI conjI) (assumption, simp add: w')
  qed
qed

lemma serving_exec:
  assumes S: "serving H st srv bid B (s, c)" and len: "2 \<le> length command"
  shows "\<exists>s' c'. RedisCommand H command tt (s, c) =
            (Ret (Reply_of (fst (srv (st (world s)) (inner_command bid command)))), (s', c')) \<and>
          serving H st srv bid B (s', c') \<and>
          st (world s') = snd (srv (st (world s)) (inner_command bid command))"
proof -
  from S obtain p where R: "reliable H st srv" and bid: "m_BID c = bid" and w: "\<not> rw_writer c"
    and c: "m_ConnPool c = Some p" and i: "sync_inv B (s, p)"
    by (auto simp: serving_def client_inv_def)
  obtain a s' p' where b: "borrowItem H (s, p) = (Ret (Some a), (s', p'))"
    and st': "st (world s') = st (world s)" using reliable_borrow [OF R i] by blast
  let ?argv = "inner_command (m_BID c) command"
  from sync_borrow_some [OF i b] obtain x where x: "ctxs s' a = Some x" "rc_err x = REDIS_OK"
    by (auto simp: healthy_in_def)
  obtain x2 w2 where t2: "hr_set_timeout H x (timeout_of tt) (world s') = (x2, w2)" by fastforce
  have x2: "rc_err x2 = REDIS_OK" and w2: "st w2 = st (world s)"
    using R t2 x(2) st' by (metis reliable_def fst_conv snd_conv)+
  obtain x3 w3 where t3: "hr_command H x2 ?argv w2 = (Some (fst (srv (st w2) ?argv)), x3, w3)"
    and w3: "st w3 = snd (srv (st w2) ?argv)"
    using R x2 unfolding reliable_def by metis
  let ?t = "s'\<lparr>world := w3, ctxs := (ctxs s')(a \<mapsto> x3)\<rparr>"
  have t: "attempt H a tt ?argv s' = (Some (fst (srv (st w2) ?argv)), ?t)"
    using t2 t3 x(1) by (simp add: attempt_def)
  from RedisCommand_replied [OF len c w i b t] R bid w w2 w3 show ?thesis
    by (fastforce simp: serving_def client_inv_def)
qed

interpretation rc: redis_exec "RedisCommand H" "serving H st srv bid B" "\<lambda>(s, c). st (world s)"
    "\<lambda>m command. srv m (inner_command bid command)"
  for H :: "'w hiredis" and st :: "'w \<Rightarrow> 'm" and srv and bid and B
proof
  fix sc :: "'w cst" and command :: "string list" and tt :: c_int
  assume "serving H st srv bid B sc" and "2 \<le> length command"
  then show "\<exists>sc'. RedisCommand H command tt sc =
        (Ret (Reply_of (fst (srv (case sc of (s, c) \<Rightarrow> st (world s)) (inner_command bid command)))), sc')
      \<and> serving H st srv bid B sc' \<and> (case sc' of (s, c) \<Rightarrow> st (world s)) =
        snd (srv (case sc of (s, c) \<Rightarrow> st (world s)) (inner_command bid command))"
    using serving_exec [of H st srv bid B] by (cases sc) fastforce
qed

end
