(* ===== verification/Kv_Spec.thy ===== *)
theory Kv_Spec
  imports Client_Refinement
begin

text \<open>
  The contract of the string operations: over a redis server, a client with business ID \<open>bid\<close>
  implements a key-value store of its own, inside the namespace of \<open>bid\<close>. The abstract store is a map
  from keys to values; \<open>kv_spec\<close> says what each operation does to it and returns.
\<close>

section \<open>The server\<close>

definition bulk_reply :: "string option \<Rightarrow> redisReply" where
  "bulk_reply v = (case v of None \<Rightarrow> RedisReply 4 0 [] [] | Some s \<Rightarrow> RedisReply 1 0 s [])"

definition int_reply :: "nat \<Rightarrow> redisReply" where
  "int_reply n = RedisReply 3 (of_nat n) [] []"

definition ok_reply :: redisReply where
  "ok_reply = RedisReply 5 0 ''OK'' []"

text \<open>The arguments of \<open>MSET\<close>: keys and values in turn.\<close>

definition pair_args :: "(string \<times> string) list \<Rightarrow> string list" where
  "pair_args kvs = concat (map (\<lambda>(k, v). [k, v]) kvs)"

text \<open>
  The documented behaviour of the commands, for a server whose string keys \<open>store\<close> reads off its
  state. \<open>MSET\<close> sets its pairs from left to right; \<open>DEL\<close> counts the keys that existed.
\<close>

definition speaks_kv ::
  "('m \<Rightarrow> string list \<Rightarrow> redisReply \<times> 'm) \<Rightarrow> ('m \<Rightarrow> string \<rightharpoonup> string) \<Rightarrow> bool" where
  "speaks_kv srv store \<longleftrightarrow> (\<forall>m.
     (\<forall>k v. fst (srv m [''SET'', k, v]) = ok_reply \<and>
            store (snd (srv m [''SET'', k, v])) = (store m)(k \<mapsto> v)) \<and>
     (\<forall>k v. fst (srv m [''SETNX'', k, v]) = int_reply (if store m k = None then 1 else 0) \<and>
            store (snd (srv m [''SETNX'', k, v])) =
              (if store m k = None then (store m)(k \<mapsto> v) else store m)) \<and>
     (\<forall>k. fst (srv m [''GET'', k]) = bulk_reply (store m k) \<and>
          store (snd (srv m [''GET'', k])) = store m) \<and>
     (\<forall>k v. fst (srv m [''GETSET'', k, v]) = bulk_reply (store m k) \<and>
            store (snd (srv m [''GETSET'', k, v])) = (store m)(k \<mapsto> v)) \<and>
     (\<forall>k. fst (srv m [''EXISTS'', k]) = int_reply (if store m k = None then 0 else 1) \<and>
          store (snd (srv m [''EXISTS'', k])) = store m) \<and>
     (\<forall>ks. ks \<noteq> [] \<longrightarrow>
          fst (srv m (''DEL'' # ks)) = int_reply (card (set ks \<inter> dom (store m))) \<and>
          store (snd (srv m (''DEL'' # ks))) = store m |` (- set ks)) \<and>
     (\<forall>ks. ks \<noteq> [] \<longrightarrow>
          fst (srv m (''MGET'' # ks)) = RedisReply 2 0 [] (map (bulk_reply \<circ> store m) ks) \<and>
          store (snd (srv m (''MGET'' # ks))) = store m) \<and>
     (\<forall>kvs. kvs \<noteq> [] \<longrightarrow>
          fst (srv m (''MSET'' # pair_args kvs)) = ok_reply \<and>
          store (snd (srv m (''MSET'' # pair_args kvs))) = store m ++ map_of (rev kvs)))"

section \<open>The specification\<close>

datatype kv_op =
    Set_op string string
  | Setnx_op string string
  | Get_op string
  | Getset_op string string
  | Exists_op string
  | Del_op "string list"
  | Mget_op "string list"
  | Mset_op "(string \<times> string) list"

datatype kv_result = Bool_res bool | Int_res c_int | Str_res string | Strs_res "string list"

definition or_empty :: "string option \<Rightarrow> string" where
  "or_empty v = (case v of None \<Rightarrow> [] | Some s \<Rightarrow> s)"

text \<open>
  An absent key reads as the empty string. A value over the limit raises before anything is sent.
  \<open>mset\<close> of nothing fails; \<open>mget\<close> and \<open>del\<close> of nothing return nothing.
\<close>

fun kv_spec :: "kv_op \<Rightarrow> (string \<rightharpoonup> string, kv_result) prog" where
  "kv_spec (Set_op k v) m =
     (if too_big v then (Abrupt myex, m) else (Ret (Bool_res True), m(k \<mapsto> v)))"
| "kv_spec (Setnx_op k v) m =
     (if too_big v then (Abrupt myex, m)
      else if m k = None then (Ret (Bool_res True), m(k \<mapsto> v)) else (Ret (Bool_res False), m))"
| "kv_spec (Get_op k) m = (Ret (Str_res (or_empty (m k))), m)"
| "kv_spec (Getset_op k v) m =
     (if too_big v then (Abrupt myex, m) else (Ret (Str_res (or_empty (m k))), m(k \<mapsto> v)))"
| "kv_spec (Exists_op k) m = (Ret (Bool_res (m k \<noteq> None)), m)"
| "kv_spec (Del_op ks) m = (Ret (Int_res (of_nat (card (set ks \<inter> dom m)))), m |` (- set ks))"
| "kv_spec (Mget_op ks) m = (Ret (Strs_res (map (or_empty \<circ> m) ks)), m)"
| "kv_spec (Mset_op kvs) m =
     (if \<exists>(k, v) \<in> set kvs. too_big v then (Abrupt myex, m)
      else (Ret (Bool_res (kvs \<noteq> [])), m ++ map_of (rev kvs)))"

text \<open>The same operations on the client.\<close>

fun client_op :: "'w hiredis \<Rightarrow> c_int \<Rightarrow> kv_op \<Rightarrow> ('w cst, kv_result) prog" where
  "client_op H tt (Set_op k v) = bnd (CodisClient_set H k v tt) (\<lambda>b. ret (Bool_res b))"
| "client_op H tt (Setnx_op k v) = bnd (CodisClient_setnx H k v tt) (\<lambda>b. ret (Bool_res b))"
| "client_op H tt (Get_op k) = bnd (CodisClient_get H k tt) (\<lambda>v. ret (Str_res v))"
| "client_op H tt (Getset_op k v) = bnd (CodisClient_getset H k v tt) (\<lambda>v. ret (Str_res v))"
| "client_op H tt (Exists_op k) = bnd (CodisClient_exists H k tt) (\<lambda>b. ret (Bool_res b))"
| "client_op H tt (Del_op ks) = bnd (CodisClient_del_keys H ks tt) (\<lambda>n. ret (Int_res n))"
| "client_op H tt (Mget_op ks) = bnd (CodisClient_mget H ks tt) (\<lambda>vs. ret (Strs_res vs))"
| "client_op H tt (Mset_op kvs) = bnd (CodisClient_mset H kvs tt) (\<lambda>b. ret (Bool_res b))"

text \<open>
  The client's store is the server's store seen through the namespace; \<open>rest\<close> is everything else on
  the server, which stays as it is.
\<close>

definition kv_rel ::
  "'w hiredis \<Rightarrow> ('w \<Rightarrow> 'm) \<Rightarrow> ('m \<Rightarrow> string list \<Rightarrow> redisReply \<times> 'm) \<Rightarrow> ('m \<Rightarrow> string \<rightharpoonup> string) \<Rightarrow>
   string \<Rightarrow> addr set \<Rightarrow> (string \<rightharpoonup> string) \<Rightarrow> 'w cst \<Rightarrow> (string \<rightharpoonup> string) \<Rightarrow> bool" where
  "kv_rel H st srv store bid B rest sc kv \<longleftrightarrow>
     serving H st srv bid B sc \<and>
     kv = store (st (world (fst sc))) \<circ> ns_key bid \<and>
     store (st (world (fst sc))) |` (- range (ns_key bid)) = rest"

section \<open>Lemmas: the commands as they are sent\<close>

lemma inner_command_enum:
  "inner_command bid command = map (\<lambda>(i, x). if i \<in> key_positions command then ns_key bid x else x)
     (enumerate 0 command)"
  by (rule nth_equalityI) (auto simp: inner_command_nth nth_enumerate_eq)

lemma inner_single:
  "c \<notin> {''MSET'', ''mset'', ''MGET'', ''mget'', ''DEL'', ''del''} \<Longrightarrow>
     inner_command bid (c # k # r) = c # ns_key bid k # r"
  by (rule nth_equalityI) (auto simp: inner_command_nth key_positions_def nth_Cons split: nat.splits)

lemma inner_many:
  "c \<in> {''MGET'', ''mget'', ''DEL'', ''del''} \<Longrightarrow>
     inner_command bid (c # ks) = c # map (ns_key bid) ks"
  by (rule nth_equalityI) (auto simp: inner_command_nth key_positions_def nth_Cons split: nat.splits)

lemma enumerate_pairs:
  "odd n \<Longrightarrow> map (\<lambda>(i, x). if odd i then f x else x) (enumerate n (pair_args kvs)) =
     pair_args (map (\<lambda>(k, v). (f k, v)) kvs)"
  by (induction kvs arbitrary: n) (auto simp: pair_args_def)

lemma enumerate_below: "(i, x) \<in> set (enumerate n xs) \<Longrightarrow> i < n + length xs"
  by (auto simp: in_set_enumerate_eq)

lemma inner_pairs:
  "inner_command bid (''MSET'' # pair_args kvs) =
     ''MSET'' # pair_args (map (\<lambda>(k, v). (ns_key bid k, v)) kvs)"
proof -
  have "map (\<lambda>(i, x). if i \<in> key_positions (''MSET'' # pair_args kvs) then ns_key bid x else x)
          (enumerate 1 (pair_args kvs)) =
        map (\<lambda>(i, x). if odd i then ns_key bid x else x) (enumerate 1 (pair_args kvs))"
    by (rule map_cong) (auto simp: key_positions_def dest: enumerate_below)
  moreover have "0 \<notin> key_positions (''MSET'' # pair_args kvs)" by (simp add: key_positions_def)
  ultimately show ?thesis by (simp add: inner_command_enum enumerate_pairs)
qed

lemma checked_pairs_result:
  "checked_pairs comm kvs s =
     (if \<exists>(k, v) \<in> set kvs. too_big v then (Abrupt myex, s)
      else (Ret (Command_calls comm (pair_args kvs)), s))"
  by (induction comm kvs rule: checked_pairs.induct)
     (auto simp: prog_simps pair_args_def Command_calls_def)

lemma element_strs_map: "element_strs rep = map rep_str (rep_elements rep)"
  by (simp add: element_strs_def foldl_push_back)

lemma str_bulk [simp]: "rep_str (Reply_of (bulk_reply v)) = or_empty v"
  by (simp add: bulk_reply_def or_empty_def split: option.splits)

lemma type_bulk [simp]: "rr_type (bulk_reply v) \<noteq> 6"
  by (simp add: bulk_reply_def split: option.splits)

lemma integer_int [simp]: "rep_integer (Reply_of (int_reply n)) = of_nat n"
  by (simp add: int_reply_def)

lemma ok_sel [simp]: "rep_str (Reply_of ok_reply) = ''OK''" "rr_type ok_reply = 5"
  by (simp_all add: ok_reply_def)

lemma llong_to_int_of_nat [simp]: "llong_to_int (of_nat n) = of_nat n"
  by (simp add: llong_to_int_def unsigned_of_nat word_of_nat_eq_iff take_bit_take_bit)


section \<open>Lemmas: the namespace\<close>

lemma ns_upd: "(m(ns_key bid k \<mapsto> v)) \<circ> ns_key bid = (m \<circ> ns_key bid)(k \<mapsto> v)"
  by (auto simp: ns_key_inj)

lemma ns_upd_rest: "(m(ns_key bid k \<mapsto> v)) |` (- range (ns_key bid)) = m |` (- range (ns_key bid))"
  by (auto simp: restrict_map_def)

lemma ns_del: "(m |` (- (ns_key bid ` S))) \<circ> ns_key bid = (m \<circ> ns_key bid) |` (- S)"
  by (rule ext) (auto simp: restrict_map_def ns_key_inj image_iff)

lemma ns_del_rest: "- ns_key bid ` S \<inter> - range (ns_key bid) = - range (ns_key bid)"
  by auto

lemma ns_card: "card (ns_key bid ` S \<inter> dom m) = card (S \<inter> dom (m \<circ> ns_key bid))"
proof -
  have "ns_key bid ` S \<inter> dom m = ns_key bid ` (S \<inter> dom (m \<circ> ns_key bid))" by auto
  then show ?thesis by (simp add: card_image inj_on_def ns_key_inj)
qed

lemma ns_map_of:
  "map_of (map (\<lambda>(k, v). (ns_key bid k, v)) kvs) (ns_key bid k) = map_of kvs k"
  by (induction kvs) (auto simp: ns_key_inj)

lemma ns_mset:
  "(m ++ map_of (rev (map (\<lambda>(k, v). (ns_key bid k, v)) kvs))) \<circ> ns_key bid =
     (m \<circ> ns_key bid) ++ map_of (rev kvs)"
  unfolding rev_map by (rule ext) (simp add: map_add_def ns_map_of comp_def)

lemma ns_mset_rest:
  "(m ++ map_of (rev (map (\<lambda>(k, v). (ns_key bid k, v)) kvs))) |` (- range (ns_key bid)) =
     m |` (- range (ns_key bid))"
proof (rule ext)
  fix x
  let ?kvs = "map (\<lambda>(k, v). (ns_key bid k, v)) kvs"
  have "map_of (rev ?kvs) x = None" if "x \<notin> range (ns_key bid)"
    using that by (auto simp: map_of_eq_None_iff)
  then show "((m ++ map_of (rev ?kvs)) |` (- range (ns_key bid))) x = (m |` (- range (ns_key bid))) x"
    by (auto simp: restrict_map_def map_add_def)
qed

section \<open>Lemmas: one command against the store\<close>

lemma kv_exec:
  assumes rel: "kv_rel H st srv store bid B rest sc kv" and "2 \<le> length command"
  defines "m \<equiv> st (world (fst sc))"
  assumes "fst (srv m (inner_command bid command)) = r"
    and "store (snd (srv m (inner_command bid command))) \<circ> ns_key bid = kv'"
    and "store (snd (srv m (inner_command bid command))) |` (- range (ns_key bid)) =
         store m |` (- range (ns_key bid))"
  shows "\<exists>sc'. bnd (RedisCommand H command tt) (\<lambda>rep. ret (f rep)) sc = (Ret (f (Reply_of r)), sc') \<and>
           kv_rel H st srv store bid B rest sc' kv'"
proof -
  from rel have "serving H st srv bid B sc" by (simp add: kv_rel_def)
  from rc.decode [OF this assms(2), of tt f] obtain sc' where
    "bnd (RedisCommand H command tt) (\<lambda>rep. ret (f rep)) sc = (Ret (f (Reply_of r)), sc')"
    "serving H st srv bid B sc'" "st (world (fst sc')) = snd (srv m (inner_command bid command))"
    using assms(4) by (auto simp: case_prod_beta m_def)
  then show ?thesis using assms(5,6) rel by (auto simp: kv_rel_def m_def)
qed

text \<open>The laws of the server, at the commands the client sends.\<close>

lemma speaks_SET:
  assumes "speaks_kv srv store"
  shows "fst (srv m (inner_command bid [''SET'', k, v])) = ok_reply"
    and "store (snd (srv m (inner_command bid [''SET'', k, v]))) = (store m)(ns_key bid k \<mapsto> v)"
  using assms unfolding speaks_kv_def by (simp_all add: inner_single)

lemma speaks_SETNX:
  assumes "speaks_kv srv store"
  shows "fst (srv m (inner_command bid [''SETNX'', k, v])) =
           int_reply (if store m (ns_key bid k) = None then 1 else 0)"
    and "store (snd (srv m (inner_command bid [''SETNX'', k, v]))) =
           (if store m (ns_key bid k) = None then (store m)(ns_key bid k \<mapsto> v) else store m)"
  using assms unfolding speaks_kv_def by (simp_all add: inner_single)

lemma speaks_GET:
  assumes "speaks_kv srv store"
  shows "fst (srv m (inner_command bid [''GET'', k])) = bulk_reply (store m (ns_key bid k))"
    and "store (snd (srv m (inner_command bid [''GET'', k]))) = store m"
  using assms unfolding speaks_kv_def by (simp_all add: inner_single)

lemma speaks_GETSET:
  assumes "speaks_kv srv store"
  shows "fst (srv m (inner_command bid [''GETSET'', k, v])) = bulk_reply (store m (ns_key bid k))"
    and "store (snd (srv m (inner_command bid [''GETSET'', k, v]))) = (store m)(ns_key bid k \<mapsto> v)"
  using assms unfolding speaks_kv_def by (simp_all add: inner_single)

lemma speaks_EXISTS:
  assumes "speaks_kv srv store"
  shows "fst (srv m (inner_command bid [''EXISTS'', k])) =
           int_reply (if store m (ns_key bid k) = None then 0 else 1)"
    and "store (snd (srv m (inner_command bid [''EXISTS'', k]))) = store m"
  using assms unfolding speaks_kv_def by (simp_all add: inner_single)

lemma speaks_DEL:
  assumes "speaks_kv srv store" and "ks \<noteq> []"
  shows "fst (srv m (inner_command bid (''DEL'' # ks))) =
           int_reply (card (set (map (ns_key bid) ks) \<inter> dom (store m)))"
    and "store (snd (srv m (inner_command bid (''DEL'' # ks)))) =
           store m |` (- set (map (ns_key bid) ks))"
  using assms unfolding speaks_kv_def by (simp_all only: inner_many insert_iff simp_thms map_is_Nil_conv)

lemma speaks_MGET:
  assumes "speaks_kv srv store" and "ks \<noteq> []"
  shows "fst (srv m (inner_command bid (''MGET'' # ks))) =
           RedisReply 2 0 [] (map (bulk_reply \<circ> store m) (map (ns_key bid) ks))"
    and "store (snd (srv m (inner_command bid (''MGET'' # ks)))) = store m"
  using assms unfolding speaks_kv_def by (simp_all only: inner_many insert_iff simp_thms map_is_Nil_conv)

lemma speaks_MSET:
  assumes "speaks_kv srv store" and "kvs \<noteq> []"
  shows "fst (srv m (inner_command bid (''MSET'' # pair_args kvs))) = ok_reply"
    and "store (snd (srv m (inner_command bid (''MSET'' # pair_args kvs)))) =
           store m ++ map_of (rev (map (\<lambda>(k, v). (ns_key bid k, v)) kvs))"
  using assms unfolding speaks_kv_def by (simp_all only: inner_pairs simp_thms map_is_Nil_conv)

section \<open>Each operation implements its specification\<close>

lemmas op_simps = RedisCommand_cmd_def command_simps bnd_assoc bnd_ret

text \<open>From one exchange with the server to one step of the specification.\<close>

lemma simulates_exec:
  assumes S: "speaks_kv srv store" and len: "2 \<le> length command"
    and spec: "\<And>m. spec (store m \<circ> ns_key bid) =
          (Ret (f (Reply_of (fst (srv m (inner_command bid command))))),
           store (snd (srv m (inner_command bid command))) \<circ> ns_key bid)"
    and rest: "\<And>m. store (snd (srv m (inner_command bid command))) |` (- range (ns_key bid)) =
          store m |` (- range (ns_key bid))"
  shows "simulates (kv_rel H st srv store bid B rst)
           (bnd (RedisCommand H command tt) (\<lambda>rep. ret (f rep))) spec"
proof (rule simulatesI)
  fix sc kv assume rel: "kv_rel H st srv store bid B rst sc kv"
  then have kv: "kv = store (st (world (fst sc))) \<circ> ns_key bid" by (simp add: kv_rel_def)
  from kv_exec [OF rel len refl refl rest, of tt f] spec [folded kv]
  show "\<exists>r sc' kv'. bnd (RedisCommand H command tt) (\<lambda>rep. ret (f rep)) sc = (r, sc') \<and>
          spec kv = (r, kv') \<and> kv_rel H st srv store bid B rst sc' kv'" 
    unfolding kv by blast
qed

lemma client_set_spec:
  assumes "speaks_kv srv store"
  shows "simulates (kv_rel H st srv store bid B rest) (client_op H tt (Set_op k v)) (kv_spec (Set_op k v))"
proof (cases "too_big v")
  case True
  then show ?thesis by (simp add: simulates_def CodisClient_set_def prog_simps)
next
  case False
  then show ?thesis
    by (simp add: CodisClient_set_def op_simps, intro simulates_exec [OF assms])
       (simp_all add: speaks_SET [OF assms] ns_upd ns_upd_rest False)
qed

lemma client_setnx_spec:
  assumes "speaks_kv srv store"
  shows "simulates (kv_rel H st srv store bid B rest) (client_op H tt (Setnx_op k v)) (kv_spec (Setnx_op k v))"
proof (cases "too_big v")
  case True
  then show ?thesis by (simp add: simulates_def CodisClient_setnx_def prog_simps)
next
  case False
  then show ?thesis
    by (simp add: CodisClient_setnx_def op_simps, intro simulates_exec [OF assms])
       (simp_all add: speaks_SETNX [OF assms] ns_upd ns_upd_rest False)
qed

lemma client_get_spec:
  assumes "speaks_kv srv store"
  shows "simulates (kv_rel H st srv store bid B rest) (client_op H tt (Get_op k)) (kv_spec (Get_op k))"
  by (simp add: CodisClient_get_def op_simps, intro simulates_exec [OF assms])
     (simp_all add: speaks_GET [OF assms])

lemma client_getset_spec:
  assumes "speaks_kv srv store"
  shows "simulates (kv_rel H st srv store bid B rest) (client_op H tt (Getset_op k v)) (kv_spec (Getset_op k v))"
proof (cases "too_big v")
  case True
  then show ?thesis by (simp add: simulates_def CodisClient_getset_def prog_simps)
next
  case False
  then show ?thesis
    by (simp add: CodisClient_getset_def op_simps, intro simulates_exec [OF assms])
       (simp_all add: speaks_GETSET [OF assms] ns_upd ns_upd_rest False)
qed

lemma client_exists_spec:
  assumes "speaks_kv srv store"
  shows "simulates (kv_rel H st srv store bid B rest) (client_op H tt (Exists_op k)) (kv_spec (Exists_op k))"
  by (simp add: CodisClient_exists_def op_simps, intro simulates_exec [OF assms])
     (simp_all add: speaks_EXISTS [OF assms])

lemma client_del_spec:
  assumes "speaks_kv srv store"
  shows "simulates (kv_rel H st srv store bid B rest) (client_op H tt (Del_op ks)) (kv_spec (Del_op ks))"
proof (cases ks)
  case Nil
  then show ?thesis
    by (simp add: simulates_def CodisClient_del_keys_def op_simps RedisCommand_short bnd_def ret_def llong_to_int_def
        restrict_map_def)
next
  case (Cons k r)
  then have ks: "ks \<noteq> []" by simp
  then have "2 \<le> length (''DEL'' # ks)" by (cases ks) auto
  then show ?thesis
    by (simp only: CodisClient_del_keys_def op_simps client_op.simps append_Cons append_Nil,
        intro simulates_exec [OF assms])
       (simp_all add: speaks_DEL [OF assms ks] ns_del ns_del_rest ns_card)
qed

lemma client_mget_spec:
  assumes "speaks_kv srv store"
  shows "simulates (kv_rel H st srv store bid B rest) (client_op H tt (Mget_op ks)) (kv_spec (Mget_op ks))"
proof (cases ks)
  case Nil
  then show ?thesis
    by (simp add: simulates_def CodisClient_mget_def op_simps RedisCommand_short bnd_def ret_def)
next
  case (Cons k r)
  then have ks: "ks \<noteq> []" by simp
  then have "2 \<le> length (''MGET'' # ks)" by (cases ks) auto
  then show ?thesis
    by (simp only: CodisClient_mget_def op_simps client_op.simps append_Cons append_Nil,
        intro simulates_exec [OF assms])
       (simp_all add: speaks_MGET [OF assms ks] element_strs_map comp_def)
qed

lemma client_mset_spec:
  assumes "speaks_kv srv store"
  shows "simulates (kv_rel H st srv store bid B rest) (client_op H tt (Mset_op kvs)) (kv_spec (Mset_op kvs))"
proof -
  consider (big) "\<exists>(k, v) \<in> set kvs. too_big v" | (none) "kvs = []"
    | (some) "\<not> (\<exists>(k, v) \<in> set kvs. too_big v)" "kvs \<noteq> []" by blast
  then show ?thesis
  proof cases
    case big
    then show ?thesis
      by (simp add: simulates_def CodisClient_mset_def checked_pairs_result bnd_def)
  next
    case none
    then show ?thesis
      by (simp add: simulates_def CodisClient_mset_def op_simps RedisCommand_short bnd_def ret_def)
  next
    case some
    then have len: "2 \<le> length (''MSET'' # pair_args kvs)" by (cases kvs) (auto simp: pair_args_def)
    have "client_op H tt (Mset_op kvs) =
        bnd (RedisCommand H (''MSET'' # pair_args kvs) tt) (\<lambda>rep. ret (Bool_res (\<not> rep_error rep)))"
      using some(1) by (intro ext)
        (simp add: CodisClient_mset_def op_simps bnd_def [of "checked_pairs x y" for x y] checked_pairs_result)
    moreover have "simulates (kv_rel H st srv store bid B rest) \<dots> (kv_spec (Mset_op kvs))"
      using some by (intro simulates_exec [OF assms len])
        (simp_all add: speaks_MSET [OF assms some(2)] ns_mset ns_mset_rest)
    ultimately show ?thesis by simp
  qed
qed

lemma client_op_spec:
  assumes "speaks_kv srv store"
  shows "simulates (kv_rel H st srv store bid B rest) (client_op H tt op) (kv_spec op)"
  by (cases op)
     (simp_all only: client_set_spec [OF assms] client_setnx_spec [OF assms] client_get_spec [OF assms]
        client_getset_spec [OF assms] client_exists_spec [OF assms] client_del_spec [OF assms]
        client_mget_spec [OF assms] client_mset_spec [OF assms])

section \<open>Lemmas: sequences of operations\<close>

text \<open>Over a redis server whose connections work, any sequence of the string operations of a
  client behaves as the abstract store of its business ID: same results, same exceptions for
  oversize values, the same keys changed, every key outside the namespace left alone.\<close>

lemma client_refines_store:
  assumes "speaks_kv srv store" and "kv_rel H st srv store bid B rest sc kv"
    and "mapM_prog kv_spec ops kv = (r, kv')"
  shows "\<exists>sc'. mapM_prog (client_op H tt) ops sc = (r, sc') \<and> kv_rel H st srv store bid B rest sc' kv'"
proof -
  have "simulates (kv_rel H st srv store bid B rest) (mapM_prog (client_op H tt) ops)
          (mapM_prog kv_spec ops)"
    by (intro simulates_mapM client_op_spec [OF assms(1)])
  from simulatesD [OF this assms(2,3)] show ?thesis .
qed

text \<open>Clients with different business IDs that hold no underscore do not disturb each other: no
  sequence of string operations of one changes a key of the other.\<close>

lemma clients_isolated:
  assumes "speaks_kv srv store" and "serving H st srv bid B (s, c)"
    and "CHR ''_'' \<notin> set bid" and "CHR ''_'' \<notin> set bid'" and "bid \<noteq> bid'" and "bid \<noteq> []"
    and "mapM_prog (client_op H tt) ops (s, c) = (r, (s', c'))"
  shows "store (st (world s')) (bid_key bid' k) = store (st (world s)) (bid_key bid' k)"
proof -
  let ?rest = "store (st (world s)) |` (- range (ns_key bid))"
  have rel: "kv_rel H st srv store bid B ?rest (s, c) (store (st (world s)) \<circ> ns_key bid)"
    using assms(2) by (simp add: kv_rel_def)
  have sim: "simulates (kv_rel H st srv store bid B ?rest) (mapM_prog (client_op H tt) ops) (mapM_prog kv_spec ops)"
    by (intro simulates_mapM client_op_spec [OF assms(1)])
  obtain r2 kv2 where "mapM_prog kv_spec ops (store (st (world s)) \<circ> ns_key bid) = (r2, kv2)" by fastforce
  from simulatesD [OF sim rel this] assms(7)
  have "store (st (world s')) |` (- range (ns_key bid)) = ?rest" by (auto simp: kv_rel_def)
  moreover have "bid_key bid' k \<notin> range (ns_key bid)"
    using assms(3-6) by (auto simp: ns_key_def bid_key_disjoint)
  ultimately show ?thesis by (metis restrict_in ComplI)
qed

end
