(* ===== verification/Example_Server.thy ===== *)
theory Example_Server
  imports Kv_Spec
begin

text \<open>
  A small redis server and a library whose connections work, on which the witnesses of the
  development run: it satisfies the hypotheses \<open>reliable\<close> and \<open>speaks_kv\<close>. A second library, whose
  commands always get lost, drives the error paths.
\<close>

section \<open>The server\<close>

fun arg_pairs :: "string list \<Rightarrow> (string \<times> string) list" where
  "arg_pairs (k # v # r) = (k, v) # arg_pairs r"
| "arg_pairs _ = []"

fun kv_server :: "(string \<rightharpoonup> string) \<Rightarrow> string list \<Rightarrow> redisReply \<times> (string \<rightharpoonup> string)" where
  "kv_server m [] = (RedisReply 6 0 ''ERR empty'' [], m)"
| "kv_server m (c # as) =
     (if c = ''SET'' then (ok_reply, m(as ! 0 \<mapsto> as ! 1))
      else if c = ''SETNX'' then
        (if m (as ! 0) = None then (int_reply 1, m(as ! 0 \<mapsto> as ! 1)) else (int_reply 0, m))
      else if c = ''GET'' then (bulk_reply (m (as ! 0)), m)
      else if c = ''GETSET'' then (bulk_reply (m (as ! 0)), m(as ! 0 \<mapsto> as ! 1))
      else if c = ''EXISTS'' then (int_reply (if m (as ! 0) = None then 0 else 1), m)
      else if c = ''DEL'' then
        (int_reply (length (filter (\<lambda>k. k \<in> dom m) (remdups as))), m |` (- set as))
      else if c = ''MGET'' then (RedisReply 2 0 [] (map (bulk_reply \<circ> m) as), m)
      else if c = ''MSET'' then (ok_reply, m ++ map_of (rev (arg_pairs as)))
      else (RedisReply 6 0 ''ERR unknown command'' [], m))"

lemma arg_pairs_pair_args [simp]: "arg_pairs (pair_args kvs) = kvs"
  by (induction kvs) (auto simp: pair_args_def)

lemma count_present:
  "length (filter (\<lambda>k. k \<in> dom m) (remdups ks)) = card (set ks \<inter> dom m)"
proof -
  have "set (filter (\<lambda>k. k \<in> dom m) (remdups ks)) = set ks \<inter> dom m" by auto
  then show ?thesis by (metis distinct_card distinct_filter distinct_remdups)
qed

lemma kv_server_speaks: "speaks_kv kv_server (\<lambda>m. m)"
  by (auto simp: speaks_kv_def count_present [unfolded domIff] count_present)

section \<open>The libraries\<close>

definition good_context :: redisContext where
  "good_context = \<lparr>rc_err = 0, rc_errstr = [], rc_fd = 3\<rparr>"

definition good_actx :: redisAsyncContext where
  "good_actx = \<lparr>ac_c = good_context, ac_err = 0, ac_errstr = [], ac_ev_data = None,
                ac_onDisconnect = False\<rparr>"

definition kv_lib :: "(string \<rightharpoonup> string) hiredis" where
  "kv_lib = \<lparr>
     hr_connect = (\<lambda>ip prt w. (Some good_context, w)),
     hr_set_timeout = (\<lambda>c tv w. (c, w)),
     hr_command = (\<lambda>c argv w. case kv_server w argv of (r, w') \<Rightarrow> (Some r, c, w')),
     hr_free = (\<lambda>c w. w),
     hr_aconnect = (\<lambda>ip prt w. (Some good_actx, w)),
     hr_acommand = (\<lambda>c argv rq w. (0, c, w)),
     hr_adisconnect = (\<lambda>c w. (True, w))\<rparr>"

text \<open>Every command is lost, and the context gets its error set; connecting works.\<close>

definition lossy_lib :: "unit hiredis" where
  "lossy_lib = \<lparr>
     hr_connect = (\<lambda>ip prt w. (Some good_context, w)),
     hr_set_timeout = (\<lambda>c tv w. (c, w)),
     hr_command = (\<lambda>c argv w. (None, c\<lparr>rc_err := 1\<rparr>, w)),
     hr_free = (\<lambda>c w. w),
     hr_aconnect = (\<lambda>ip prt w. (None, w)),
     hr_acommand = (\<lambda>c argv rq w. (REDIS_ERR, c, w)),
     hr_adisconnect = (\<lambda>c w. (True, w))\<rparr>"

definition empty_sys :: "'w \<Rightarrow> 'w sys" where
  "empty_sys w = \<lparr>world = w, ctxs = (\<lambda>_. None), actxs = (\<lambda>_. None), aevents = (\<lambda>_. None),
     requests = (\<lambda>_. None), locals = (\<lambda>_. None), called = [], loop_stop = (\<lambda>_. False),
     next_addr = 1, logs = []\<rparr>"

text \<open>A client as its constructor leaves it, with business ID \<open>bid\<close>.\<close>

definition new_client :: "string \<Rightarrow> CodisClient" where
  "new_client bid = \<lparr>m_Loop = Some 0, m_ConnPool = Some (RedisClientPool_default 0 ''127.0.0.1'' 6379),
     m_BID = bid, rw_readers = 0, rw_writer = False, proxy_IP = ''127.0.0.1'',
     proxy_Port = [char_of (235 :: nat)]\<rparr>"

lemma new_client_is_new:
  "CodisClient_new 0 (Some 0) 0 ''127.0.0.1'' 6379 bid s = (Ret (new_client bid), s)"
  by (simp add: CodisClient_new_def new_client_def prog_simps)

lemma kv_lib_reliable: "reliable kv_lib (\<lambda>w. w) kv_server"
  by (auto simp: reliable_def kv_lib_def good_context_def REDIS_OK_def split: prod.splits)

lemma new_client_inv: "client_inv bid {} (empty_sys w, new_client bid)"
  by (simp add: client_inv_def new_client_def sync_inv_def queue_ok_Nil heap_ok_def empty_sys_def
      RedisClientPool_default_def RedisClientPool_new_def)

lemma new_client_serving: "serving kv_lib (\<lambda>w. w) kv_server bid {} (empty_sys w, new_client bid)"
  by (simp add: serving_def kv_lib_reliable new_client_inv)

lemma new_client_rel:
  "kv_rel kv_lib (\<lambda>w. w) kv_server (\<lambda>m. m) bid {} (\<lambda>_. None)
     (empty_sys (\<lambda>_. None), new_client bid) (\<lambda>_. None)"
  using new_client_serving by (auto simp: kv_rel_def restrict_map_def) (auto simp: empty_sys_def)

text \<open>A server that gives every command the same reply.\<close>

definition canned_lib :: "redisReply \<Rightarrow> unit hiredis" where
  "canned_lib r = \<lparr>
     hr_connect = (\<lambda>ip prt w. (Some good_context, w)),
     hr_set_timeout = (\<lambda>c tv w. (c, w)),
     hr_command = (\<lambda>c argv w. (Some r, c, w)),
     hr_free = (\<lambda>c w. w),
     hr_aconnect = (\<lambda>ip prt w. (Some good_actx, w)),
     hr_acommand = (\<lambda>c argv rq w. (0, c, w)),
     hr_adisconnect = (\<lambda>c w. (True, w))\<rparr>"

lemma canned_lib_reliable: "reliable (canned_lib r) (\<lambda>w. ()) (\<lambda>w argv. (r, ()))"
  by (auto simp: reliable_def canned_lib_def good_context_def REDIS_OK_def)

lemma canned_command:
  "2 \<le> length command \<Longrightarrow>
     \<exists>sc. RedisCommand (canned_lib r) command tt (empty_sys (), new_client bid) = (Ret (Reply_of r), sc)"
  using serving_exec [of "canned_lib r" "\<lambda>w. ()" "\<lambda>w argv. (r, ())" bid "{}" "empty_sys ()" "new_client bid" command tt]
  by (auto simp: serving_def canned_lib_reliable new_client_inv)

end
