(* ===== verification/Client_Async.thy ===== *)
theory Client_Async
  imports Client_Ops "HOL-Library.List_Lexorder" "HOL-Library.Char_ord"
begin

text \<open>
  The asynchronous read \<open>mget2\<close> of \<open>CodisClient\<close> and its completion \<open>mget2Callback\<close>
  (\<open>cpp/src/CodisClient.cpp\<close>). The request data holds the address of a local variable of \<open>mget2\<close>: the
  model keeps that variable in \<open>locals\<close> while \<open>mget2\<close> runs and drops it when \<open>mget2\<close> returns, so the
  order of return and completion, which run on different threads, is the order of the two calls.
\<close>

section \<open>The ordered map of results\<close>

text \<open>
  \<open>std::map<string, string>\<close>: the pairs in ascending order of the keys, which compare bytewise;
  \<open>insert\<close> keeps the value that is there.
\<close>

fun kv_insert :: "string \<Rightarrow> string \<Rightarrow> KVMap \<Rightarrow> KVMap" where
  "kv_insert k v [] = [(k, v)]"
| "kv_insert k v ((k', v') # m) =
     (if k < k' then (k, v) # (k', v') # m
      else if k = k' then (k', v') # m
      else (k', v') # kv_insert k v m)"

text \<open>
  The loop of the callback: element \<open>i\<close> goes with key \<open>i\<close>. Indexing \<open>user_keylist_\<close> past its end, on
  a reply longer than the request, is undefined.
\<close>

fun kvmap_loop :: "string list \<Rightarrow> redisReply list \<Rightarrow> KVMap \<Rightarrow> KVMap option" where
  "kvmap_loop keys [] kvmap = Some kvmap"
| "kvmap_loop [] (e # es) kvmap = None"
| "kvmap_loop (k # keys) (e # es) kvmap = kvmap_loop keys es (kv_insert k (rr_str e) kvmap)"

section \<open>mget2\<close>

text \<open>A NULL event loop is the address 0.\<close>

definition loop_addr :: "CodisClient \<Rightarrow> addr" where
  "loop_addr c = (case m_Loop c of None \<Rightarrow> 0 | Some l \<Rightarrow> l)"

definition mget2_command :: "string \<Rightarrow> string list \<Rightarrow> string list" where
  "mget2_command bid keys =
     foldl (\<lambda>command k. command @ [if bid \<noteq> [] then bid_key bid k else k]) [''MGET''] keys"

text \<open>A function body with one local variable whose address escapes.\<close>

definition with_local :: "(addr \<Rightarrow> ('w cst, 'a) prog) \<Rightarrow> ('w cst, 'a) prog" where
  "with_local body = (\<lambda>(s, c).
     let v = next_addr s in
     case body v (s\<lparr>locals := (locals s)(v \<mapsto> None), next_addr := Suc v\<rparr>, c) of
       (r, (s', c')) \<Rightarrow> (r, (s'\<lparr>locals := (locals s')(v := None)\<rparr>, c')))"

definition set_local :: "addr \<Rightarrow> ptr \<Rightarrow> ('w cst, unit) prog" where
  "set_local v p = csys (updst (\<lambda>s. s\<lparr>locals := (locals s)(v \<mapsto> p)\<rparr>))"

definition new_request :: "MgetAsyncRequestContext \<Rightarrow> ('w cst, addr) prog" where
  "new_request rq =
     csys (\<lambda>s. (Ret (next_addr s),
                s\<lparr>requests := (requests s)(next_addr s \<mapsto> rq), next_addr := Suc (next_addr s)\<rparr>))"

text \<open>What follows the last attempt to queue the command.\<close>

definition mget2_finish :: "ptr \<Rightarrow> c_int \<Rightarrow> ('w cst, bool) prog" where
  "mget2_finish async_context rc =
     (if rc = REDIS_ERR then
        bnd (csys (load_actx async_context)) (\<lambda>x.
        andthen (csys (LOG ERROR (''run command error('' @ int2string rc @ ''): '' @ ac_errstr x)))
       (andthen (onpool (returnItemAsync async_context))
                (ret False)))
      else ret True)"

text \<open>\<open>this\<close> is the client's own address.\<close>

definition mget2 ::
  "'w hiredis \<Rightarrow> addr \<Rightarrow> string list \<Rightarrow> addr \<Rightarrow> ('w cst, bool) prog" where
  "mget2 H this keys callback =
     with_local (\<lambda>v.
     bnd (getclient (\<lambda>c. (m_BID c, loop_addr c))) (\<lambda>(bid, lp).
     let argv = mget2_command bid keys in
     bnd (onpool (borrowItemAsync H lp)) (\<lambda>async_context.
     andthen (set_local v async_context)
     (if async_context = None then
        andthen (csys (LOG ERROR ''contetx is NULL!!''))
       (andthen (onpool (returnItemAsync async_context))
                (ret False))
      else
        bnd (new_request \<lparr>user_keylist = keys, rq_callback = callback, rq_async_context = v,
                          rq_client = this\<rparr>) (\<lambda>rq.
        bnd (csys (redisAsyncCommandArgv H async_context argv rq)) (\<lambda>rc.
        if rc = REDIS_ERR then
          bnd (onpool (ReconnectAsync H async_context lp)) (\<lambda>ok.
          if \<not> ok then
            andthen (csys (LOG ERROR ''reconnect faild, ''))
           (andthen (onpool (returnItemAsync async_context))
                    (ret False))
          else
            bnd (csys (redisAsyncCommandArgv H async_context argv rq)) (mget2_finish async_context))
        else mget2_finish async_context rc))))))"

section \<open>The completion\<close>

definition returnAsync :: "ptr \<Rightarrow> ('w cst, unit) prog" where
  "returnAsync async_context = onpool (returnItemAsync async_context)"

text \<open>
  \<open>reply\<close> is NULL when the connection was lost. The user's callback is recorded with the map it is
  given.
\<close>

definition mget2Callback :: "redisReply option \<Rightarrow> addr \<Rightarrow> ('w cst, unit) prog" where
  "mget2Callback reply privdata = (\<lambda>(s, c).
     case reply of
       None \<Rightarrow> (Abrupt (Undef NullDeref), (s, c))
     | Some r \<Rightarrow>
         (case requests s privdata of
            None \<Rightarrow> (Abrupt (Undef UseAfterFree), (s, c))
          | Some rctxt \<Rightarrow>
              (case kvmap_loop (user_keylist rctxt) (rr_element r) [] of
                 None \<Rightarrow> (Abrupt (Undef OutOfBounds), (s, c))
               | Some kvmap \<Rightarrow>
                   (let s1 = s\<lparr>called := called s @ [(rq_callback rctxt, kvmap)]\<rparr> in
                    case locals s1 (rq_async_context rctxt) of
                      None \<Rightarrow> (Abrupt (Undef UseAfterFree), (s1, c))
                    | Some async_context \<Rightarrow>
                        andthen (returnAsync async_context)
                          (csys (updst (\<lambda>s. s\<lparr>requests := (requests s)(privdata := None)\<rparr>)))
                          (s1, c)))))"

section \<open>Lemmas: the ordered map\<close>

definition kv_ok :: "KVMap \<Rightarrow> bool" where
  "kv_ok m \<longleftrightarrow> sorted_wrt (<) (map fst m)"

lemma set_kv_insert: "fst ` set (kv_insert k v m) = insert k (fst ` set m)"
  by (induction k v m rule: kv_insert.induct) auto

lemma kv_insert_ok: "kv_ok m \<Longrightarrow> kv_ok (kv_insert k v m)"
proof (induction k v m rule: kv_insert.induct)
  case (2 k v k' v' m)
  have "\<forall>x \<in> fst ` set (kv_insert k v m). k' < x" if "k' < k"
    using "2.prems" that unfolding set_kv_insert by (auto simp: kv_ok_def)
  with 2 show ?case by (auto simp: kv_ok_def)
qed (simp add: kv_ok_def)

text \<open>The pairs that are there win over the one inserted.\<close>

lemma map_of_kv_insert: "kv_ok m \<Longrightarrow> map_of (kv_insert k v m) = [k \<mapsto> v] ++ map_of m"
proof (induction k v m rule: kv_insert.induct)
  case (2 k v k' v' m)
  show ?case
  proof (cases "k < k'")
    case True
    then have "k \<notin> fst ` set ((k', v') # m)" using "2.prems" by (force simp: kv_ok_def)
    then have "map_of ((k', v') # m) k = None" by (simp only: map_of_eq_None_iff not_False_eq_True)
    then have "map_of ((k, v) # (k', v') # m) x = ([k \<mapsto> v] ++ map_of ((k', v') # m)) x" for x
      by (cases "x = k") (auto simp: map_add_def split: option.splits)
    with True show ?thesis by (intro ext) (simp only: kv_insert.simps if_True)
  next
    case False
    with 2 show ?thesis by (auto simp: kv_ok_def map_add_def fun_eq_iff split: option.splits)
  qed
qed simp

lemma kvmap_loop_enough:
  "length es \<le> length keys \<Longrightarrow> kv_ok m \<Longrightarrow>
     \<exists>m'. kvmap_loop keys es m = Some m' \<and> kv_ok m' \<and> map_of m' = map_of (zip keys (map rr_str es)) ++ map_of m"
proof (induction keys es m rule: kvmap_loop.induct)
  case (3 k keys e es kvmap)
  from "3.prems" have "length es \<le> length keys" and "kv_ok (kv_insert k (rr_str e) kvmap)"
    by (simp_all add: kv_insert_ok)
  moreover have "map_of (zip (k # keys) (map rr_str (e # es))) x =
      (map_of (zip keys (map rr_str es)) ++ [k \<mapsto> rr_str e]) x" for x
    by (simp add: map_add_def)
  then have "map_of (zip (k # keys) (map rr_str (e # es))) =
      map_of (zip keys (map rr_str es)) ++ [k \<mapsto> rr_str e]" by (rule ext)
  ultimately show ?case
    using "3.IH" "3.prems"(2) by (simp only: kvmap_loop.simps map_of_kv_insert map_add_assoc)
qed auto

lemma kvmap_loop_too_long: "length keys < length es \<Longrightarrow> kvmap_loop keys es m = None"
  by (induction keys es m rule: kvmap_loop.induct) auto

section \<open>Lemmas: the completion and the frame it reads\<close>

lemma mget2Callback_result:
  assumes rq: "requests s q = Some rctxt" and len: "length (rr_element r) \<le> length (user_keylist rctxt)"
  shows "\<exists>m. kv_ok m \<and> map_of m = map_of (zip (user_keylist rctxt) (map rr_str (rr_element r))) \<and>
    mget2Callback (Some r) q (s, c) =
      (case locals s (rq_async_context rctxt) of
         None \<Rightarrow> (Abrupt (Undef UseAfterFree), (s\<lparr>called := called s @ [(rq_callback rctxt, m)]\<rparr>, c))
       | Some p \<Rightarrow>
           andthen (returnAsync p) (csys (updst (\<lambda>s. s\<lparr>requests := (requests s)(q := None)\<rparr>)))
             (s\<lparr>called := called s @ [(rq_callback rctxt, m)]\<rparr>, c))"
proof -
  have "kv_ok []" by (simp add: kv_ok_def)
  from kvmap_loop_enough [OF len this] obtain m where
    "kvmap_loop (user_keylist rctxt) (rr_element r) [] = Some m" and "kv_ok m"
    and "map_of m = map_of (zip (user_keylist rctxt) (map rr_str (rr_element r)))" by auto
  with rq show ?thesis by (auto simp: mget2Callback_def Let_def split: option.splits)
qed

lemma returnAsync_apply:
  "m_ConnPool c = Some p \<Longrightarrow> \<not> unUsedAsyncMutex p \<Longrightarrow>
     returnAsync x (s, c) = (Ret (), (s, c\<lparr>m_ConnPool :=
       Some (p\<lparr>unUsedAsync := unUsedAsync p @ [x], usedAsync := usedAsync p - 1\<rparr>)\<rparr>))"
  by (simp add: returnAsync_def client_simps returnItemAsync_apply)

text \<open>A completion that runs while \<open>mget2\<close> is still in its body does what it is meant to: the user gets
  the values under the caller's keys, in ascending order of the keys, the first value where a key was
  asked for twice; the connection goes back to the idle queue, and the request is freed.\<close>

lemma completion_in_time:
  assumes "m_ConnPool c = Some p" and "\<not> unUsedAsyncMutex p" and "requests s q = Some rq"
    and "locals s (rq_async_context rq) = Some ac" and "length (rr_element r) \<le> length (user_keylist rq)"
  shows "\<exists>m. mget2Callback (Some r) q (s, c) =
      (Ret (), (s\<lparr>called := called s @ [(rq_callback rq, m)], requests := (requests s)(q := None)\<rparr>,
        c\<lparr>m_ConnPool := Some (p\<lparr>unUsedAsync := unUsedAsync p @ [ac], usedAsync := usedAsync p - 1\<rparr>)\<rparr>)) \<and>
    sorted_wrt (<) (map fst m) \<and> map_of m = map_of (zip (user_keylist rq) (map rr_str (rr_element r)))"
proof -
  from mget2Callback_result [OF assms(3,5), of c] obtain m where
    "kv_ok m" and "map_of m = map_of (zip (user_keylist rq) (map rr_str (rr_element r)))" and
    "mget2Callback (Some r) q (s, c) =
      andthen (returnAsync ac) (csys (updst (\<lambda>s. s\<lparr>requests := (requests s)(q := None)\<rparr>)))
             (s\<lparr>called := called s @ [(rq_callback rq, m)]\<rparr>, c)" using assms(4) by auto
  then show ?thesis
    using assms(1,2) by (auto simp: andthen_def bnd_def returnAsync_apply client_simps prog_simps kv_ok_def)
qed

end
