(* ===== verification/Client_Api.thy ===== *)
theory Client_Api
  imports Client_Async
begin

text \<open>
  The public interface of \<open>CodisClient\<close> (\<open>cpp/include/CodisClient.h\<close>) as data: a datatype per section of
  the class, with one constructor per method and the method's parameters in order, and the dispatch
  of a call to its operation. An argument left out in a call is the default of the declaration,
  filled in by the compiler.
\<close>

section \<open>Calls and their values\<close>

definition default_tt :: c_int where "default_tt = 0"
definition default_withscores :: string where "default_withscores = ''False''"

datatype api_value =
    Bool_v bool
  | Int_v c_int
  | Long_v c_long
  | Str_v string
  | Strs_v "string list"
  | Pairs_v "bool \<times> string list \<times> string list"
  | Reply_v Reply
  | Replies_v "Reply list"

definition value_of :: "('a \<Rightarrow> api_value) \<Rightarrow> ('s, 'a) prog \<Rightarrow> ('s, api_value) prog" where
  "value_of f m = bnd m (\<lambda>x. ret (f x))"

datatype key_call =
    call_exists string c_int
  | call_del string c_int
  | call_del_keys "string list" c_int
  | call_type string c_int
  | call_expire string c_int c_int

datatype string_call =
    call_set string string c_int
  | call_setnx string string c_int
  | call_setex string string c_int c_int
  | call_get string c_int
  | call_getset string string c_int
  | call_setbit string c_int bool c_int
  | call_getbit string c_int c_int
  | call_bitcount string c_int
  | call_mget "string list" c_int
  | call_mget2 "string list" addr
  | call_mset KVMap c_int
  | call_incr string c_int
  | call_decr string c_int
  | call_incrby string c_int c_int
  | call_decrby string c_int c_int
  | call_append string string c_int

datatype list_call =
    call_lpush string string c_int
  | call_rpush string string c_int
  | call_lpush_values string "string list" c_int
  | call_rpush_values string "string list" c_int
  | call_llen string c_int
  | call_lrange string c_int c_int c_int
  | call_ltrim string c_int c_int c_int
  | call_lset string c_int string c_int
  | call_lrem string c_int string c_int
  | call_lpop string c_int
  | call_rpop string c_int

datatype set_call =
    call_sadd string string c_int
  | call_sadd_members string "string list" c_int
  | call_srem string string c_int
  | call_spop string c_int
  | call_srandmember string c_int
  | call_scard string c_int
  | call_sismember string string c_int
  | call_smembers string c_int

datatype zset_call =
    call_zadd string c_int string c_int
  | call_zrem string string c_int
  | call_zincrby string c_int string c_int
  | call_zrank string string c_int
  | call_zrevrank string string c_int
  | call_zrange string c_int c_int string c_int
  | call_zrevrange string c_int c_int string c_int
  | call_zrangebyscore string string string string c_int
  | call_zrevrangebyscore string string string string c_int
  | call_zcount string c_int c_int c_int
  | call_zcard string c_int
  | call_zscore string string c_int
  | call_zremrangebyrank string c_int c_int c_int
  | call_zremrangebyscore string c_int c_int c_int

datatype hash_call =
    call_hset string string string c_int
  | call_hget string string c_int
  | call_hmget string "string list" c_int
  | call_hmset string "string list" "string list" c_int
  | call_hincrby string string c_int c_int
  | call_hexists string string c_int
  | call_hdel string string c_int
  | call_hlen string c_int
  | call_hkeys string c_int
  | call_hvals string c_int
  | call_hgetall string "string list" "string list" c_int

datatype command_call =
    call_RedisCommand "string list" c_int
  | call_RedisCommand_cmd Command c_int
  | call_RedisCommands "Command list"

datatype client_call =
    OnKey key_call
  | OnString string_call
  | OnList list_call
  | OnSet set_call
  | OnZset zset_call
  | OnHash hash_call
  | OnCommand command_call

section \<open>Dispatch\<close>

fun client_key_run :: "'w hiredis \<Rightarrow> addr \<Rightarrow> key_call \<Rightarrow> ('w cst, api_value) prog" where
  "client_key_run H this (call_exists key tt) = value_of Bool_v (CodisClient_exists H key tt)"
| "client_key_run H this (call_del key tt) = value_of Int_v (CodisClient_del H key tt)"
| "client_key_run H this (call_del_keys keys tt) = value_of Int_v (CodisClient_del_keys H keys tt)"
| "client_key_run H this (call_type key tt) = value_of Str_v (CodisClient_type H key tt)"
| "client_key_run H this (call_expire key seconds tt) = value_of Bool_v (CodisClient_expire H key seconds tt)"

text \<open>The asynchronous read needs the address of the client it runs on.\<close>

fun client_string_run :: "'w hiredis \<Rightarrow> addr \<Rightarrow> string_call \<Rightarrow> ('w cst, api_value) prog" where
  "client_string_run H this (call_set key val tt) = value_of Bool_v (CodisClient_set H key val tt)"
| "client_string_run H this (call_setnx key val tt) = value_of Bool_v (CodisClient_setnx H key val tt)"
| "client_string_run H this (call_setex key val seconds tt) = value_of Bool_v (CodisClient_setex H key val seconds tt)"
| "client_string_run H this (call_get key tt) = value_of Str_v (CodisClient_get H key tt)"
| "client_string_run H this (call_getset key val tt) = value_of Str_v (CodisClient_getset H key val tt)"
| "client_string_run H this (call_setbit key index val tt) = value_of Int_v (CodisClient_setbit H key index val tt)"
| "client_string_run H this (call_getbit key index tt) = value_of Int_v (CodisClient_getbit H key index tt)"
| "client_string_run H this (call_bitcount key tt) = value_of Int_v (CodisClient_bitcount H key tt)"
| "client_string_run H this (call_mget keys tt) = value_of Strs_v (CodisClient_mget H keys tt)"
| "client_string_run H this (call_mget2 keys callback) = value_of Bool_v (mget2 H this keys callback)"
| "client_string_run H this (call_mset keyvalues tt) = value_of Bool_v (CodisClient_mset H keyvalues tt)"
| "client_string_run H this (call_incr key tt) = value_of Int_v (CodisClient_incr H key tt)"
| "client_string_run H this (call_decr key tt) = value_of Int_v (CodisClient_decr H key tt)"
| "client_string_run H this (call_incrby key amount tt) = value_of Int_v (CodisClient_incrby H key amount tt)"
| "client_string_run H this (call_decrby key amount tt) = value_of Int_v (CodisClient_decrby H key amount tt)"
| "client_string_run H this (call_append key val tt) = value_of Long_v (CodisClient_append H key val tt)"

fun client_list_run :: "'w hiredis \<Rightarrow> addr \<Rightarrow> list_call \<Rightarrow> ('w cst, api_value) prog" where
  "client_list_run H this (call_lpush key val tt) = value_of Int_v (CodisClient_lpush H key val tt)"
| "client_list_run H this (call_rpush key val tt) = value_of Int_v (CodisClient_rpush H key val tt)"
| "client_list_run H this (call_lpush_values key vals tt) = value_of Int_v (CodisClient_lpush_values H key vals tt)"
| "client_list_run H this (call_rpush_values key vals tt) = value_of Int_v (CodisClient_rpush_values H key vals tt)"
| "client_list_run H this (call_llen key tt) = value_of Int_v (CodisClient_llen H key tt)"
| "client_list_run H this (call_lrange key start stop tt) = value_of Strs_v (CodisClient_lrange H key start stop tt)"
| "client_list_run H this (call_ltrim key start stop tt) = value_of Bool_v (CodisClient_ltrim H key start stop tt)"
| "client_list_run H this (call_lset key index val tt) = value_of Bool_v (CodisClient_lset H key index val tt)"
| "client_list_run H this (call_lrem key count val tt) = value_of Bool_v (CodisClient_lrem H key count val tt)"
| "client_list_run H this (call_lpop key tt) = value_of Str_v (CodisClient_lpop H key tt)"
| "client_list_run H this (call_rpop key tt) = value_of Str_v (CodisClient_rpop H key tt)"

fun client_set_run :: "'w hiredis \<Rightarrow> addr \<Rightarrow> set_call \<Rightarrow> ('w cst, api_value) prog" where
  "client_set_run H this (call_sadd key member tt) = value_of Bool_v (CodisClient_sadd H key member tt)"
| "client_set_run H this (call_sadd_members key members tt) = value_of Int_v (CodisClient_sadd_members H key members tt)"
| "client_set_run H this (call_srem key member tt) = value_of Bool_v (CodisClient_srem H key member tt)"
| "client_set_run H this (call_spop key tt) = value_of Str_v (CodisClient_spop H key tt)"
| "client_set_run H this (call_srandmember key tt) = value_of Str_v (CodisClient_srandmember H key tt)"
| "client_set_run H this (call_scard key tt) = value_of Int_v (CodisClient_scard H key tt)"
| "client_set_run H this (call_sismember key member tt) = value_of Bool_v (CodisClient_sismember H key member tt)"
| "client_set_run H this (call_smembers key tt) = value_of Strs_v (CodisClient_smembers H key tt)"

fun client_zset_run :: "'w hiredis \<Rightarrow> addr \<Rightarrow> zset_call \<Rightarrow> ('w cst, api_value) prog" where
  "client_zset_run H this (call_zadd key score member tt) = value_of Bool_v (CodisClient_zadd H key score member tt)"
| "client_zset_run H this (call_zrem key member tt) = value_of Bool_v (CodisClient_zrem H key member tt)"
| "client_zset_run H this (call_zincrby key amount member tt) = value_of Int_v (CodisClient_zincrby H key amount member tt)"
| "client_zset_run H this (call_zrank key member tt) = value_of Int_v (CodisClient_zrank H key member tt)"
| "client_zset_run H this (call_zrevrank key member tt) = value_of Int_v (CodisClient_zrevrank H key member tt)"
| "client_zset_run H this (call_zrange key start stop withscores tt) = value_of Strs_v (CodisClient_zrange H key start stop withscores tt)"
| "client_zset_run H this (call_zrevrange key start stop withscores tt) = value_of Strs_v (CodisClient_zrevrange H key start stop withscores tt)"
| "client_zset_run H this (call_zrangebyscore key mn mx withscores tt) = value_of Strs_v (CodisClient_zrangebyscore H key mn mx withscores tt)"
| "client_zset_run H this (call_zrevrangebyscore key mn mx withscores tt) = value_of Strs_v (CodisClient_zrevrangebyscore H key mn mx withscores tt)"
| "client_zset_run H this (call_zcount key mn mx tt) = value_of Int_v (CodisClient_zcount H key mn mx tt)"
| "client_zset_run H this (call_zcard key tt) = value_of Int_v (CodisClient_zcard H key tt)"
| "client_zset_run H this (call_zscore key member tt) = value_of Int_v (CodisClient_zscore H key member tt)"
| "client_zset_run H this (call_zremrangebyrank key mn mx tt) = value_of Int_v (CodisClient_zremrangebyrank H key mn mx tt)"
| "client_zset_run H this (call_zremrangebyscore key mn mx tt) = value_of Int_v (CodisClient_zremrangebyscore H key mn mx tt)"

fun client_hash_run :: "'w hiredis \<Rightarrow> addr \<Rightarrow> hash_call \<Rightarrow> ('w cst, api_value) prog" where
  "client_hash_run H this (call_hset key fld val tt) = value_of Bool_v (CodisClient_hset H key fld val tt)"
| "client_hash_run H this (call_hget key fld tt) = value_of Str_v (CodisClient_hget H key fld tt)"
| "client_hash_run H this (call_hmget key fld tt) = value_of Strs_v (CodisClient_hmget H key fld tt)"
| "client_hash_run H this (call_hmset key flds vals tt) = value_of Bool_v (CodisClient_hmset H key flds vals tt)"
| "client_hash_run H this (call_hincrby key fld amount tt) = value_of Int_v (CodisClient_hincrby H key fld amount tt)"
| "client_hash_run H this (call_hexists key fld tt) = value_of Bool_v (CodisClient_hexists H key fld tt)"
| "client_hash_run H this (call_hdel key fld tt) = value_of Bool_v (CodisClient_hdel H key fld tt)"
| "client_hash_run H this (call_hlen key tt) = value_of Int_v (CodisClient_hlen H key tt)"
| "client_hash_run H this (call_hkeys key tt) = value_of Strs_v (CodisClient_hkeys H key tt)"
| "client_hash_run H this (call_hvals key tt) = value_of Strs_v (CodisClient_hvals H key tt)"
| "client_hash_run H this (call_hgetall key flds vals tt) = value_of Pairs_v (CodisClient_hgetall H key flds vals tt)"

fun client_command_run :: "'w hiredis \<Rightarrow> addr \<Rightarrow> command_call \<Rightarrow> ('w cst, api_value) prog" where
  "client_command_run H this (call_RedisCommand command tt) = value_of Reply_v (RedisCommand H command tt)"
| "client_command_run H this (call_RedisCommand_cmd command tt) = value_of Reply_v (RedisCommand_cmd H command tt)"
| "client_command_run H this (call_RedisCommands commands) = value_of Replies_v (RedisCommands H commands)"

fun client_run :: "'w hiredis \<Rightarrow> addr \<Rightarrow> client_call \<Rightarrow> ('w cst, api_value) prog" where
  "client_run H this (OnKey c) = client_key_run H this c"
| "client_run H this (OnString c) = client_string_run H this c"
| "client_run H this (OnList c) = client_list_run H this c"
| "client_run H this (OnSet c) = client_set_run H this c"
| "client_run H this (OnZset c) = client_zset_run H this c"
| "client_run H this (OnHash c) = client_hash_run H this c"
| "client_run H this (OnCommand c) = client_command_run H this c"

section \<open>Lemmas: every call keeps the client in order\<close>

text \<open>All methods but the asynchronous one go through \<open>RedisCommand\<close>.\<close>

definition synchronous :: "client_call \<Rightarrow> bool" where
  "synchronous c \<longleftrightarrow> (\<forall>keys callback. c \<noteq> OnString (call_mget2 keys callback))"

lemma keeps_value_of [keeps_intros]: "keeps I m \<Longrightarrow> keeps I (value_of f m)"
  unfolding value_of_def by (intro keeps_intros)

text \<open>Whatever \<open>RedisCommand\<close> keeps, every synchronous method keeps.\<close>

lemma keeps_calls:
  assumes "\<And>command tt. keeps I (RedisCommand H command tt)"
  shows keeps_key: "keeps I (client_key_run H this kc)"
    and keeps_string: "synchronous (OnString sc) \<Longrightarrow> keeps I (client_string_run H this sc)"
    and keeps_list: "keeps I (client_list_run H this lc)"
    and keeps_set: "keeps I (client_set_run H this ec)"
    and keeps_zset: "keeps I (client_zset_run H this zc)"
    and keeps_hash: "keeps I (client_hash_run H this hc)"
    and keeps_command: "keeps I (client_command_run H this cc)"
  subgoal by (cases kc) (auto simp: client_op_defs intro!: keeps_intros assms)
  subgoal by (cases sc) (auto simp: synchronous_def client_op_defs intro!: keeps_intros assms)
  subgoal by (cases lc) (auto simp: client_op_defs intro!: keeps_intros assms)
  subgoal by (cases ec) (auto simp: client_op_defs intro!: keeps_intros assms)
  subgoal by (cases zc) (auto simp: client_op_defs intro!: keeps_intros assms)
  subgoal by (cases hc) (auto simp: client_op_defs intro!: keeps_intros assms)
  subgoal by (cases cc) (auto simp: RedisCommands_def intro!: keeps_intros assms)
  done

lemma keeps_client_call:
  "(\<And>command tt. keeps I (RedisCommand H command tt)) \<Longrightarrow> synchronous c \<Longrightarrow> keeps I (client_run H this c)"
  by (cases c)
     (simp_all add: keeps_key keeps_string keeps_list keeps_set keeps_zset keeps_hash keeps_command)

lemma keeps_client_run: "synchronous c \<Longrightarrow> keeps (in_order bid B n) (client_run H this c)"
  by (rule keeps_client_call) (rule keeps_RedisCommand)

end
