(* ===== verification/Client_Properties.thy ===== *)
theory Client_Properties
  imports Example_Server Client_Api
begin

text \<open>
  The properties of one \<open>CodisClient\<close> and its pool: what a command does on every path, what is sent,
  who owns a connection, how the counter of borrowed connections runs, the asynchronous read, and the
  decoding of replies. The witnesses run on the libraries of \<open>Example_Server\<close>.
\<close>

section \<open>Decoding and limits\<close>

lemma hmset_big:
  assumes "length fs = length vs" and "v \<in> set vs" and "too_big v"
  shows "CodisClient_hmset H k fs vs tt sc = (Abrupt myex, sc)"
proof -
  from assms obtain f where "(f, v) \<in> set (zip fs vs)" by (metis in_set_impl_in_set_zip2)
  moreover have "fs \<noteq> []" using assms by auto
  ultimately show ?thesis
    using assms by (simp add: CodisClient_hmset_def bnd_def checked_pairs_big)
qed

text \<open>C18: A value over 1 MiB raises the exception before anything is sent, in every operation that
  checks sizes: the process and the client are left exactly as they were.\<close>

theorem oversize_never_sent:
  assumes "too_big v"
  shows "CodisClient_set H k v tt sc = (Abrupt myex, sc) \<and>
    CodisClient_setnx H k v tt sc = (Abrupt myex, sc) \<and>
    CodisClient_setex H k v secs tt sc = (Abrupt myex, sc) \<and>
    CodisClient_getset H k v tt sc = (Abrupt myex, sc) \<and>
    CodisClient_append H k v tt sc = (Abrupt myex, sc) \<and>
    CodisClient_lpush H k v tt sc = (Abrupt myex, sc) \<and>
    CodisClient_rpush H k v tt sc = (Abrupt myex, sc) \<and>
    CodisClient_lset H k i v tt sc = (Abrupt myex, sc) \<and>
    CodisClient_hset H k f v tt sc = (Abrupt myex, sc) \<and>
    (v \<in> set vs \<longrightarrow> CodisClient_lpush_values H k vs tt sc = (Abrupt myex, sc)) \<and>
    (v \<in> set vs \<longrightarrow> CodisClient_rpush_values H k vs tt sc = (Abrupt myex, sc)) \<and>
    ((k', v) \<in> set kvs \<longrightarrow> CodisClient_mset H kvs tt sc = (Abrupt myex, sc)) \<and>
    (length fs = length vs \<and> v \<in> set vs \<longrightarrow> CodisClient_hmset H k fs vs tt sc = (Abrupt myex, sc))"
  using assms hmset_big [of fs vs v H k tt sc]
  by (simp add: CodisClient_set_def CodisClient_setnx_def CodisClient_setex_def
      CodisClient_getset_def CodisClient_append_def CodisClient_lpush_def CodisClient_rpush_def
      CodisClient_lset_def CodisClient_hset_def CodisClient_lpush_values_def CodisClient_rpush_values_def
      CodisClient_mset_def checked_calls_big checked_pairs_big bnd_def prog_simps)

theorem oversize_never_sent_witness:
  "CodisClient_hmset kv_lib ''k'' [''f''] [replicate 1048577 CHR ''x''] 0 (empty_sys (\<lambda>_. None), new_client ''shop'') =
     (Abrupt (Throw ''Your value is too bigger than 1M''), (empty_sys (\<lambda>_. None), new_client ''shop''))"
  using oversize_never_sent [of "replicate 1048577 CHR ''x''" kv_lib "''k''" 0 "(empty_sys (\<lambda>_. None), new_client ''shop'')"
      0 0 "''f''" "[replicate 1048577 CHR ''x'']" "''k''" "[]" "[''f'']"]
  by (simp add: too_big_def myex_def)

text \<open>\<open>hgetall\<close> puts the elements at even positions into the fields and their right neighbours
  into the values, in order, behind what the vectors held; an element without a neighbour is dropped.\<close>

lemma hgetall_reads_pairs:
  assumes "RedisCommand H [''HGETALL'', key] tt sc = (Ret rep, sc')" and "\<not> rep_error rep"
  shows "CodisClient_hgetall H key fs vs tt sc =
    (Ret (True,
      fs @ map (\<lambda>i. rep_str (rep_elements rep ! (2 * i))) [0..<length (rep_elements rep) div 2],
      vs @ map (\<lambda>i. rep_str (rep_elements rep ! Suc (2 * i))) [0..<length (rep_elements rep) div 2]), sc')"
  using assms
  by (simp add: CodisClient_hgetall_def RedisCommand_cmd_def command_simps bnd_def prog_simps hgetall_loop_pairs)

text \<open>An integer reply comes back as a C \<open>int\<close>, cut to its low 32 bits: it is the server's number
  exactly when that number fits, so a counter of 2 to the 31 comes back negative.\<close>

lemma integer_reply_narrowed:
  assumes "RedisCommand H [''INCR'', key] tt sc = (Ret (Reply_of (RedisReply 3 n [] [])), sc')"
  shows "\<exists>x. CodisClient_incr H key tt sc = (Ret x, sc') \<and> x = word_of_int (sint n) \<and>
             (sint x = sint n \<longleftrightarrow> - (2 ^ 31) \<le> sint n \<and> sint n < 2 ^ 31)"
proof (intro exI conjI)
  show "CodisClient_incr H key tt sc = (Ret (llong_to_int n), sc')"
    using assms by (simp add: CodisClient_incr_def RedisCommand_cmd_def command_simps bnd_def prog_simps)
qed (rule llong_to_int_signed llong_to_int_exact)+

section \<open>One command\<close>

text \<open>C5: A command without a reply is not retried on the new connection: the first connection is freed,
  and the retry goes through the freed pointer. If the library cannot allocate a context the code reads
  through NULL, if the new connection fails the caller gets an error reply, and if it succeeds, the
  retry is a use after free; the server's reply is never seen.\<close>

theorem lost_command_outcomes:
  assumes "2 \<le> length command" and "client_inv bid B (s, c)" and "m_ConnPool c = Some p"
    and "borrowItem H (s, p) = (Ret (Some a), (s', p'))"
    and "attempt H a tt (inner_command bid command) s' = (None, t)"
    and "hr_connect H (c_str (address p')) (port p') (hr_free H (the (ctxs t a)) (world t)) = (oc, wr)"
  shows "fst (RedisCommand H command tt (s, c)) =
    (case oc of
       None \<Rightarrow> Abrupt (Undef NullDeref)
     | Some y \<Rightarrow> if rc_err y \<noteq> 0 then Ret (error_reply ''reconnect faild!'')
                 else Abrupt (Undef UseAfterFree))"
  using assms by (intro RedisCommand_lost [where B = B]) (auto simp: client_inv_def)

theorem lost_command_outcomes_witness:
  "fst (RedisCommand lossy_lib [''GET'', ''k''] 100 (empty_sys (), new_client ''shop'')) = Abrupt (Undef UseAfterFree)"
proof -
  let ?p = "RedisClientPool_default 0 ''127.0.0.1'' 6379"
  let ?s = "empty_sys ()\<lparr>ctxs := [1 \<mapsto> good_context], next_addr := 2\<rparr>"
  have b: "borrowItem lossy_lib (empty_sys (), ?p) = (Ret (Some 1), (?s, ?p\<lparr>used := 1\<rparr>))"
    by (simp add: borrowItem_def run_simps bnd_def create_def redisConnect_def lossy_lib_def empty_sys_def
        good_context_def RedisClientPool_default_def RedisClientPool_new_def)
  obtain t where t: "attempt lossy_lib 1 100 (inner_command ''shop'' [''GET'', ''k'']) ?s = (None, t)"
    by (simp add: attempt_def lossy_lib_def)
  have k: "hr_connect lossy_lib (c_str (address (?p\<lparr>used := 1\<rparr>))) (port (?p\<lparr>used := 1\<rparr>))
      (hr_free lossy_lib (the (ctxs t 1)) (world t)) = (Some good_context, world t)"
    by (simp add: lossy_lib_def)
  from lost_command_outcomes [OF _ new_client_inv _ b t k] show ?thesis
    by (simp add: new_client_def good_context_def)
qed

text \<open>A command that gets its reply at the first attempt hands the reply out and puts the
  connection back at the end of the idle queue; the pool is in order again, with the same connections
  in other hands.\<close>

lemma replied_command_returns_connection:
  assumes "2 \<le> length command" and "client_inv bid B (s, c)" and "m_ConnPool c = Some p"
    and "borrowItem H (s, p) = (Ret (Some a), (s', p'))"
    and "attempt H a tt (inner_command bid command) s' = (Some r, t)"
  shows "\<exists>c'. RedisCommand H command tt (s, c) = (Ret (Reply_of r), (t, c')) \<and> client_inv bid B (t, c') \<and>
           c' = c\<lparr>m_ConnPool := Some (p'\<lparr>unUsed := unUsed p' @ [Some a], used := used p' - 1\<rparr>)\<rparr>"
proof (intro exI conjI)
  have w: "\<not> rw_writer c" and i: "sync_inv B (s, p)" and bid: "m_BID c = bid"
    using assms(2,3) by (auto simp: client_inv_def)
  note r = RedisCommand_replied [OF assms(1,3) w i assms(4), unfolded bid, OF assms(5)]
  show "RedisCommand H command tt (s, c) = (Ret (Reply_of r), (t, c\<lparr>m_ConnPool :=
      Some (p'\<lparr>unUsed := unUsed p' @ [Some a], used := used p' - 1\<rparr>)\<rparr>))" by (rule r(1))
  show "client_inv bid B (t, c\<lparr>m_ConnPool :=
      Some (p'\<lparr>unUsed := unUsed p' @ [Some a], used := used p' - 1\<rparr>)\<rparr>)"
    using r(2) w bid by (simp add: client_inv_def)
qed simp

lemma yields_finish [yields_intros]: "yields reply_wf (finish_command redis reply)"
  unfolding finish_command_def
  by (cases reply) (auto intro!: yields_intros simp: Reply_of_wf error_reply_wf)

lemma yields_RedisCommand [yields_intros]: "yields reply_wf (RedisCommand H command tt)"
  unfolding RedisCommand_def Let_def by (intro yields_intros error_reply_wf)

text \<open>C15: Every reply a command returns, on whatever path and over whatever library, and every reply of a
  batch, is well formed: the error flag is set exactly with the error type, and string, integer and elements are
  filled for their types only, at every depth.\<close>

theorem replies_well_formed:
  shows "(RedisCommand H command tt sc = (Ret rep, sc') \<longrightarrow> reply_wf rep) \<and>
    (RedisCommands H comms sc = (Ret reps, sc') \<longrightarrow> list_all reply_wf reps)"
proof -
  have "yields (list_all reply_wf) (RedisCommands H comms)"
    unfolding RedisCommands_def RedisCommand_cmd_def by (intro yields_mapM yields_intros)
  from yieldsD [OF yields_RedisCommand] yieldsD [OF this] show ?thesis by (intro conjI impI)
qed

theorem replies_well_formed_witness:
  "\<exists>rep sc'. RedisCommand (canned_lib (RedisReply 2 0 [] [bulk_reply (Some ''1''), RedisReply 6 0 ''ERR'' []]))
      [''EXEC'', ''k''] 0 (empty_sys (), new_client ''shop'') = (Ret rep, sc') \<and> reply_wf rep"
proof -
  let ?r = "RedisReply 2 0 [] [bulk_reply (Some ''1''), RedisReply 6 0 ''ERR'' []]"
  obtain sc' where c: "RedisCommand (canned_lib ?r) [''EXEC'', ''k''] 0 (empty_sys (), new_client ''shop'') = (Ret (Reply_of ?r), sc')"
    using canned_command [of "[''EXEC'', ''k'']" ?r 0 "''shop''"] by auto
  with replies_well_formed [THEN conjunct1, THEN mp, OF c] show ?thesis by blast
qed





text \<open>A batch is answered in order, each command delivered once: over a server whose connections
  work, the replies are the server's answers to the rewritten commands one after the other.\<close>

lemma batch_in_order:
  assumes "serving H st srv bid B (s, c)" and "\<forall>cmd \<in> set cmds. 2 \<le> length (cmd_args cmd)"
  shows "\<exists>s' c'. RedisCommands H cmds (s, c) =
      (Ret (fst (answers (\<lambda>m command. srv m (inner_command bid command)) (st (world s)) (map cmd_args cmds))), (s', c')) \<and>
    st (world s') = snd (answers (\<lambda>m command. srv m (inner_command bid command)) (st (world s)) (map cmd_args cmds))"
proof -
  have "mapM_prog (\<lambda>cmd. RedisCommand H (cmd_args cmd) 0) cmds = mapM_prog (\<lambda>c. RedisCommand H c 0) (map cmd_args cmds)"
    by (induction cmds) simp_all
  moreover have "\<forall>c \<in> set (map cmd_args cmds). 2 \<le> length c" using assms(2) by simp
  ultimately show ?thesis
    using rc.batch [OF assms(1), of "map cmd_args cmds" 0] by (auto simp: RedisCommands_def RedisCommand_cmd_def)
qed

text \<open>The timeout in milliseconds is split without loss: the seconds and microseconds add up to it,
  and the microseconds stay below a million with the sign of the timeout.\<close>

lemma timeout_split:
  "tv_sec (timeout_of tt) * 1000000 + tv_usec (timeout_of tt) = sint tt * 1000 \<and>
   \<bar>tv_usec (timeout_of tt)\<bar> < 1000000 \<and>
   0 \<le> tv_usec (timeout_of tt) * sint tt \<and> 0 \<le> tv_sec (timeout_of tt) * sint tt"
proof (intro conjI)
  let ?t = "sint tt"
  have q: "?t sdiv 1000 = (if 0 \<le> ?t then ?t div 1000 else - (- ?t div 1000))"
    by (simp add: signed_divide_int_def sgn_if)
  have r: "?t smod 1000 = (if 0 \<le> ?t then ?t mod 1000 else - (- ?t mod 1000))"
    by (simp add: signed_modulo_int_def sgn_if)
  have neg: "a * 1000 + b = - x \<Longrightarrow> - a * 1000 + - b = x" for a b x :: int by simp
  have m: "?t sdiv 1000 * 1000 + ?t smod 1000 = ?t"
    using div_mult_mod_eq [of ?t 1000] neg [OF div_mult_mod_eq [of "- ?t" 1000]] by (simp only: q r split: if_split) blast
  show "tv_sec (timeout_of tt) * 1000000 + tv_usec (timeout_of tt) = ?t * 1000"
    using m by (simp add: timeout_of_def)
  show "\<bar>tv_usec (timeout_of tt)\<bar> < 1000000" by (simp add: timeout_of_def r)
  show "0 \<le> tv_usec (timeout_of tt) * ?t"
    by (simp add: timeout_of_def r zero_le_mult_iff)
  show "0 \<le> tv_sec (timeout_of tt) * ?t"
    by (simp add: timeout_of_def q zero_le_mult_iff pos_imp_zdiv_nonneg_iff)
qed

section \<open>Who owns a connection\<close>

lemma queue_ok_held:
  assumes "queue_ok h q (held_all held)" and "a \<in> held t"
  shows "a \<in> dom h \<and> Some a \<notin> set q"
proof -
  from assms(1) obtain as where q: "q = map Some as" "set as \<inter> held_all held = {}"
    and "held_all held \<subseteq> dom h" by (auto simp: queue_ok_def)
  moreover have a: "a \<in> held_all held" using assms(2) by (auto simp: held_all_def)
  ultimately have "a \<in> dom h" and "a \<notin> set as" by blast+
  then show ?thesis by (auto simp: q)
qed

text \<open>The first steps of two threads on an empty pool, for the witnesses.\<close>

definition demo_pool :: RedisClientPool where
  "demo_pool = RedisClientPool_default 0 ''127.0.0.1'' 6379"



text \<open>Whatever any number of threads do with the synchronous pool of one client (borrow, use, return,
  interleaved in any order), no connection is ever in the hands of two of them, and a connection in
  use is live and not in the idle queue.\<close>

lemma sync_connections_exclusive:
  assumes "sync_inv {} sp0" and "pool_reach (borrowItem H) returnItem (sync_act H) sp0 ((s, p), held)"
  shows "(\<forall>t u. t \<noteq> u \<longrightarrow> held t \<inter> held u = {}) \<and>
    (\<forall>t. \<forall>a \<in> held t. a \<in> dom (ctxs s) \<and> Some a \<notin> set (unUsed p))"
proof (intro conjI)
  show "\<forall>t u. t \<noteq> u \<longrightarrow> held t \<inter> held u = {}" using sync_pool.never_shared [OF assms] by blast
  have "sync_inv (held_all held) (s, p)"
    using sync_pool.reach_conf_inv [OF assms(2,1)] by (simp add: sync_pool.conf_inv_def)
  then have "queue_ok (ctxs s) (unUsed p) (held_all held)" by (simp add: sync_inv_def)
  from queue_ok_held [OF this] show "\<forall>t. \<forall>a \<in> held t. a \<in> dom (ctxs s) \<and> Some a \<notin> set (unUsed p)"
    by blast
qed

text \<open>The pool never blocks or crashes such threads: in every reachable configuration a borrow returns
  (a connection or NULL) and a thread can give back what it holds.\<close>

lemma sync_pool_progress:
  assumes "sync_inv {} sp0" and "pool_reach (borrowItem H) returnItem (sync_act H) sp0 (sp, held)"
  shows "(\<exists>r sp'. borrowItem H sp = (Ret r, sp')) \<and>
    (\<forall>t. \<forall>a \<in> held t. \<exists>sp'. returnItem (Some a) sp = (Ret (), sp'))"
  using sync_pool.never_stuck [OF assms] by blast+



section \<open>The queue and its counter\<close>

text \<open>A borrow hands out the first healthy idle connection, in the order they were returned; the broken
  ones before it are closed, the others stay queued, and the counter of borrowed connections is left as
  it is.\<close>

lemma borrow_first_healthy:
  assumes "\<not> unUsedMutex p" and "unUsed p = map Some (bad @ a # rest)" and "distinct (bad @ a # rest)"
    and "\<forall>b \<in> set bad. broken_in s b" and "healthy_in s a"
  shows "borrowItem H (s, p) = (Ret (Some a), (free_all H bad s, p\<lparr>unUsed := map Some rest\<rparr>)) \<and>
    (\<forall>b. ctxs (free_all H bad s) b = (if b \<in> set bad then None else ctxs s b))"
  using assms by (intro conjI borrowItem_idle allI) (auto simp: free_all_ctxs)

lemma borrow_return_idle:
  assumes "\<not> unUsedMutex p" and "unUsed p = [Some a]" and "healthy_in s a"
  shows "bnd (borrowItem H) returnItem (s, p) = (Ret (), (s, p\<lparr>used := used p - 1\<rparr>))"
proof -
  have b: "borrowItem H (s, p) = (Ret (Some a), (s, p\<lparr>unUsed := []\<rparr>))"
    using borrowItem_idle [OF assms(1), of "[]" a "[]" s H] assms(2,3) by simp
  show ?thesis using assms(1,2) by (simp add: bnd_def b returnItem_apply)
qed

text \<open>The counter of borrowed connections is not one: a connection taken from the idle queue is not
  counted on its way out and is on its way back, so after one connection was made (counter 1) and
  returned (counter 0), every further use takes the counter one below, from 0 to the largest number.\<close>

lemma used_counter_drifts:
  assumes "\<not> unUsedMutex p" and "unUsed p = [Some a]" and "healthy_in s a"
  shows "mapM_prog (\<lambda>_. bnd (borrowItem H) returnItem) (replicate n ()) (s, p) =
    (Ret (replicate n ()), (s, p\<lparr>used := used p - of_nat n\<rparr>))"
  using assms
proof (induction n arbitrary: p)
  case 0
  then show ?case by (simp add: prog_simps)
next
  case (Suc n)
  let ?p = "p\<lparr>used := used p - 1\<rparr>"
  have "mapM_prog (\<lambda>_. bnd (borrowItem H) returnItem) (replicate n ()) (s, ?p) =
      (Ret (replicate n ()), (s, ?p\<lparr>used := used ?p - of_nat n\<rparr>))"
    by (rule Suc.IH) (use Suc.prems in simp_all)
  then show ?case
    using mapM_Cons_Ret [of "\<lambda>_. bnd (borrowItem H) returnItem", OF borrow_return_idle [OF Suc.prems]]
    by (simp add: diff_diff_add)
qed

section \<open>The asynchronous read\<close>

text \<open>C31: A failed borrow poisons the asynchronous pool: \<open>mget2\<close> puts the NULL it got into the idle queue,
  returns false, and the next \<open>mget2\<close> reads through that NULL.\<close>

theorem null_poisons_async_pool:
  assumes "m_ConnPool c = Some p" and "\<not> unUsedAsyncMutex p" and "unUsedAsync p = []"
    and "hr_aconnect H (c_str (address p)) (port p) (world s) = (Some x, w)" and "ac_err x \<noteq> 0"
  shows "\<exists>sc1. mget2 H this keys cb (s, c) = (Ret False, sc1) \<and>
    fst (mget2 H this keys' cb' sc1) = Abrupt (Undef NullDeref)"
proof -
  let ?p = "p\<lparr>unUsedAsync := [None], usedAsync := usedAsync p - 1\<rparr>"
  have "\<exists>s1. mget2 H this keys cb (s, c) = (Ret False, (s1, c\<lparr>m_ConnPool := Some ?p\<rparr>))"
    using assms
    by (simp add: mget2_def with_local_def borrowItemAsync_def createAsync_def redisAsyncConnect_def set_local_def
        returnItemAsync_def run_simps client_simps bnd_def Let_def)
  then obtain s1 where m: "mget2 H this keys cb (s, c) = (Ret False, (s1, c\<lparr>m_ConnPool := Some ?p\<rparr>))" ..
  have "fst (mget2 H this keys' cb' (s1, c\<lparr>m_ConnPool := Some ?p\<rparr>)) = Abrupt (Undef NullDeref)"
    using assms(2) by (simp add: mget2_def with_local_def borrowItemAsync_def run_simps client_simps bnd_def Let_def)
  with m show ?thesis by blast
qed

theorem null_poisons_async_pool_witness:
  "let H = kv_lib\<lparr>hr_aconnect := \<lambda>ip prt w. (Some (good_actx\<lparr>ac_err := 1\<rparr>), w)\<rparr> in
   \<exists>sc1. mget2 H 9 [''k''] 7 (empty_sys (\<lambda>_. None), new_client ''shop'') = (Ret False, sc1) \<and>
     fst (mget2 H 9 [''k''] 7 sc1) = Abrupt (Undef NullDeref)"
  unfolding Let_def
  by (rule null_poisons_async_pool [where p = demo_pool and x = "good_actx\<lparr>ac_err := 1\<rparr>"])
     (simp_all add: new_client_def demo_pool_def RedisClientPool_default_def RedisClientPool_new_def)

end
