(* ===== verification/Concurrent_Commands.thy ===== *)
theory Concurrent_Commands
  imports Client_Refinement
begin

text \<open>
  Many threads call \<open>RedisCommand\<close> of one client at the same time. The function is cut where it touches what the
  threads share: each piece is one step, and the threads take steps in any order.
\<close>

section \<open>RedisCommand in steps\<close>

text \<open>
  Where a thread is in \<open>CodisClient::RedisCommand\<close>, with the local variables it still needs: called; past the check
  of \<open>m_ConnPool\<close>; holding the read lock; with a borrowed context; with the timeout set; without a reply; after a
  reconnect that succeeded; with the timeout set again; with a reply; before an error is logged; before the lock is
  released; returned.
\<close>

datatype phase =
    Called "string list" c_int
  | Checked "string list" c_int
  | Locked "string list" c_int
  | Borrowed addr "string list" c_int
  | Sending addr "string list" c_int
  | Unanswered addr "string list" c_int
  | Reconnected addr "string list" c_int
  | Resending addr "string list"
  | Answered addr redisReply
  | Failing string Reply
  | Leaving Reply
  | Returned Reply

fun cmd_step :: "'w hiredis \<Rightarrow> phase \<Rightarrow> ('w cst, phase) prog" where
  "cmd_step H (Called command tt) =
     (if length command < 2 then ret (Returned (error_reply ''Command length should gt 2''))
      else
        bnd (getclient m_BID) (\<lambda>bid.
        bnd (getclient m_ConnPool) (\<lambda>cp.
        if cp = None then
          andthen (csys (LOG ERROR ''connpool is null!''))
                  (ret (Returned (error_reply ''Can not fetch client from pool!!!'')))
        else ret (Checked (inner_command bid command) tt))))"
| "cmd_step H (Checked argv tt) = andthen rdlock (ret (Locked argv tt))"
| "cmd_step H (Locked argv tt) =
     bnd (onpool (borrowItem H)) (\<lambda>redis.
     case redis of
       None \<Rightarrow> ret (Failing ''contetx is null!'' (error_reply ''context is NULL !!''))
     | Some a \<Rightarrow> ret (Borrowed a argv tt))"
| "cmd_step H (Borrowed a argv tt) =
     andthen (csys (redisSetTimeout H (Some a) (timeout_of tt))) (ret (Sending a argv tt))"
| "cmd_step H (Sending a argv tt) =
     bnd (csys (redisCommandArgv H (Some a) argv)) (\<lambda>reply.
     case reply of None \<Rightarrow> ret (Unanswered a argv tt) | Some r \<Rightarrow> ret (Answered a r))"
| "cmd_step H (Unanswered a argv tt) =
     bnd (onpool (Reconnect H (Some a))) (\<lambda>result.
     if result then ret (Reconnected a argv tt)
     else ret (Failing ''reconnect faild!'' (error_reply ''reconnect faild!'')))"
| "cmd_step H (Reconnected a argv tt) =
     andthen (csys (redisSetTimeout H (Some a) (timeout_of tt))) (ret (Resending a argv))"
| "cmd_step H (Resending a argv) =
     bnd (csys (redisCommandArgv H (Some a) argv)) (\<lambda>reply.
     case reply of None \<Rightarrow> ret (Leaving (error_reply ''Do Command faild.'')) | Some r \<Rightarrow> ret (Answered a r))"
| "cmd_step H (Answered a r) = andthen (onpool (returnItem (Some a))) (ret (Leaving (Reply_of r)))"
| "cmd_step H (Failing msg rep) = andthen (csys (LOG ERROR msg)) (ret (Leaving rep))"
| "cmd_step H (Leaving rep) = andthen rwunlock (ret (Returned rep))"
| "cmd_step H (Returned rep) = ret (Returned rep)"

text \<open>How many steps a thread has left, at most.\<close>

fun steps_left :: "phase \<Rightarrow> nat" where
  "steps_left (Called _ _) = 10"
| "steps_left (Checked _ _) = 9"
| "steps_left (Locked _ _) = 8"
| "steps_left (Borrowed _ _ _) = 7"
| "steps_left (Sending _ _ _) = 6"
| "steps_left (Unanswered _ _ _) = 5"
| "steps_left (Reconnected _ _ _) = 4"
| "steps_left (Resending _ _) = 3"
| "steps_left (Answered _ _) = 2"
| "steps_left (Failing _ _) = 2"
| "steps_left (Leaving _) = 1"
| "steps_left (Returned _) = 0"

text \<open>What a thread has returned; a thread alone, for at most \<open>n\<close> steps.\<close>

fun returned :: "phase \<Rightarrow> Reply option" where
  "returned (Returned rep) = Some rep"
| "returned _ = None"

primrec cmd_run :: "'w hiredis \<Rightarrow> nat \<Rightarrow> phase \<Rightarrow> ('w cst, Reply option) prog" where
  "cmd_run H 0 ph = ret (returned ph)"
| "cmd_run H (Suc n) ph = (if steps_left ph = 0 then ret (returned ph) else bnd (cmd_step H ph) (cmd_run H n))"

lemma cmd_run_Returned [simp]: "cmd_run H n (Returned rep) = ret (Some rep)"
  by (cases n) simp_all

lemma cmd_run_step: "steps_left ph \<noteq> 0 \<Longrightarrow> cmd_run H (Suc n) ph = bnd (cmd_step H ph) (cmd_run H n)"
  by simp

lemma cmd_step_left:
  assumes "steps_left ph \<noteq> 0"
  shows "yields (\<lambda>ph'. steps_left ph' < steps_left ph) (cmd_step H ph)"
  using assms by (cases ph) (auto intro!: yields_intros split: option.split)

text \<open>Alone, a thread in its steps does what \<open>RedisCommand\<close> does.\<close>

lemma cmd_run_whole: "cmd_run H 10 (Called command tt) = bnd (RedisCommand H command tt) (\<lambda>rep. ret (Some rep))"
proof -
  let ?some = "\<lambda>rep. ret (Some rep)"
  have a: "cmd_run H (Suc (Suc n)) (Answered a r) = bnd (finish_command (Some a) (Some r)) ?some" for a r n
    by (simp add: seq_simps finish_command_def)
  have f: "cmd_run H (Suc (Suc n)) (Failing msg rep) =
      bnd (csys (LOG ERROR msg)) (\<lambda>_. bnd rwunlock (\<lambda>_. ret (Some rep)))" for msg rep n
    by (simp add: seq_simps)
  have r: "cmd_run H (Suc (Suc (Suc (Suc n)))) (Reconnected a argv tt) =
      bnd (csys (redisSetTimeout H (Some a) (timeout_of tt))) (\<lambda>_.
      bnd (csys (redisCommandArgv H (Some a) argv)) (\<lambda>reply. bnd (finish_command (Some a) reply) ?some))" for a argv tt n
    by (simp add: seq_simps del: cmd_step.simps(9-11))
       (intro bnd_next, auto simp: seq_simps a finish_command_def split: option.split)
  have u: "cmd_run H (Suc (Suc (Suc (Suc (Suc n))))) (Unanswered a argv tt) =
      bnd (onpool (Reconnect H (Some a))) (\<lambda>result.
      if result then bnd (csys (redisSetTimeout H (Some a) (timeout_of tt))) (\<lambda>_.
        bnd (csys (redisCommandArgv H (Some a) argv)) (\<lambda>reply. bnd (finish_command (Some a) reply) ?some))
      else bnd (csys (LOG ERROR ''reconnect faild!'')) (\<lambda>_. bnd rwunlock (\<lambda>_.
        ret (Some (error_reply ''reconnect faild!'')))))" for a argv tt n
    by (subst cmd_run_step) (auto intro!: bnd_next simp: seq_simps f r simp del: cmd_run.simps(2))
  have b: "cmd_run H (Suc (Suc (Suc (Suc (Suc (Suc (Suc n))))))) (Borrowed a argv tt) =
      bnd (csys (redisSetTimeout H (Some a) (timeout_of tt))) (\<lambda>_.
      bnd (csys (redisCommandArgv H (Some a) argv)) (\<lambda>reply.
      case reply of None \<Rightarrow> cmd_run H (Suc (Suc (Suc (Suc (Suc n))))) (Unanswered a argv tt)
       | Some r \<Rightarrow> bnd (finish_command (Some a) (Some r)) ?some))" for a argv tt n
    by (simp add: cmd_run_step seq_simps del: cmd_run.simps(2))
       (intro bnd_next, auto simp: seq_simps a split: option.split simp del: cmd_run.simps(2))
  have l: "cmd_run H (Suc (Suc (Suc (Suc (Suc (Suc (Suc (Suc n)))))))) (Locked argv tt) =
      bnd (onpool (borrowItem H)) (\<lambda>redis. case redis of
        None \<Rightarrow> bnd (csys (LOG ERROR ''contetx is null!'')) (\<lambda>_. bnd rwunlock (\<lambda>_.
          ret (Some (error_reply ''context is NULL !!''))))
      | Some a \<Rightarrow> cmd_run H (Suc (Suc (Suc (Suc (Suc (Suc (Suc n))))))) (Borrowed a argv tt))" for argv tt n
    by (subst cmd_run_step) (auto intro!: bnd_next simp: seq_simps f split: option.split simp del: cmd_run.simps(2))
  show ?thesis
    by (auto simp: RedisCommand_def seq_simps cmd_run_step numeral_eq_Suc Let_def l b u simp del: cmd_run.simps(2) cmd_step.simps(3-)
        intro!: bnd_next split: option.split)
qed


section \<open>Lemmas: what a step leaves alone\<close>

text \<open>The addresses in use never become those of other objects, and the contexts \<open>B\<close> of other threads are as before.\<close>

definition undisturbed :: "addr set \<Rightarrow> 'w sys \<Rightarrow> 'w sys \<Rightarrow> bool" where
  "undisturbed B s s' \<longleftrightarrow> next_addr s \<le> next_addr s' \<and> (\<forall>b \<in> B. ctxs s' b = ctxs s b) \<and>
     (\<forall>b < next_addr s. ctxs s b = None \<longrightarrow> ctxs s' b = None)"

lemma undisturbed_refl [simp]: "undisturbed B s s"
  by (simp add: undisturbed_def)

lemma undisturbed_gone:
  "undisturbed B s s' \<Longrightarrow> a < next_addr s \<and> ctxs s a = None \<Longrightarrow> a < next_addr s' \<and> ctxs s' a = None"
  by (auto simp: undisturbed_def)

lemma sync_borrow_frame:
  assumes i: "sync_inv B (s, p)" and b: "borrowItem H (s, p) = (r, (s', p'))"
  shows "undisturbed B s s'"
proof -
  from i obtain as where m: "\<not> unUsedMutex p" and pw: "password p = []" and h: "heap_ok s"
    and q: "unUsed p = map Some as" and d: "distinct as" and disj: "set as \<inter> B = {}"
    and live: "set as \<union> B \<subseteq> dom (ctxs s)"
    by (auto simp: sync_inv_def queue_ok_def)
  have B: "x < next_addr s \<and> x \<notin> set as" if "x \<in> B" for x
    using that live disj h by (auto simp: heap_ok_def subset_iff)
  have all: "\<forall>a \<in> set as. a \<in> dom (ctxs s)" using live by auto
  from all show ?thesis
  proof (cases rule: idle_split)
    case (first_healthy bad a rest)
    have "borrowItem H (s, p) = (Ret (Some a), (free_all H bad s, p\<lparr>unUsed := map Some rest\<rparr>))"
      using first_healthy d by (intro borrowItem_idle m) (auto simp: q)
    then show ?thesis using b B first_healthy(1) by (auto simp: undisturbed_def free_all_ctxs)
  next
    case all_broken
    have "password (p\<lparr>unUsedMutex := True, unUsed := []\<rparr>) = []" using pw by simp
    then show ?thesis
    proof (cases rule: create_cases [where H = H and s = "free_all H as s"])
      case (none t)
      have "borrowItem H (s, p) = (Ret None, (t, p\<lparr>unUsed := []\<rparr>))"
        using borrowItem_connect [OF m q all_broken d none(1)] by simp
      then show ?thesis using b none(2,3) by (auto simp: undisturbed_def free_all_ctxs dest!: B)
    next
      case (some t c)
      have "borrowItem H (s, p) = (Ret (Some (next_addr s)), (t, p\<lparr>unUsed := [], used := used p + 1\<rparr>))"
        using borrowItem_connect [OF m q all_broken d some(1)] by simp
      then show ?thesis using b some(2,4) by (auto simp: undisturbed_def free_all_ctxs dest!: B)
    qed
  qed
qed

lemma Reconnect_frame:
  assumes "Reconnect H (Some a) (s, p) = (Ret ok, (s', p'))" and h: "heap_ok s"
  shows "p' = p" and "heap_ok s'" and "ctxs s' a = None" and "a < next_addr s"
    and "a \<notin> B \<Longrightarrow> B \<subseteq> dom (ctxs s) \<Longrightarrow> undisturbed B s s'"
proof -
  from assms(1) have m: "\<not> unUsedMutex p" by (auto simp: pool_simps Reconnect_def split: if_splits)
  obtain oc w where k: "hr_connect H (c_str (address p)) (port p)
      (hr_free H (the (ctxs s a)) (world s)) = (oc, w)" by fastforce
  have "ctxs s a \<noteq> None"
  proof
    assume "ctxs s a = None"
    with assms(1) m show False by (simp add: Reconnect_def Destroy_def run_simps bnd_def)
  qed
  then obtain x where x: "ctxs s a = Some x" by blast
  with h show a: "a < next_addr s" by (auto simp: heap_ok_def)
  have e: "p' = p \<and> (\<exists>c. ctxs s' = (ctxs s)(a := None, next_addr s := c)) \<and> next_addr s' = Suc (next_addr s)
        \<and> actxs s' = actxs s \<and> aevents s' = aevents s"
    using assms(1) m x k
    by (cases oc) (auto simp: Reconnect_def Destroy_def run_simps bnd_def redisConnect_def
        split: if_splits)
  then obtain c where c: "ctxs s' = (ctxs s)(a := None, next_addr s := c)" by blast
  show "p' = p" using e by simp
  show "ctxs s' a = None" using c a by simp
  show "heap_ok s'" using e h by (auto simp: c heap_ok_def less_Suc_eq subset_iff domIff)
  show "undisturbed B s s'" if "a \<notin> B" "B \<subseteq> dom (ctxs s)"
    using that h e by (auto simp: undisturbed_def c heap_ok_def)
qed

section \<open>What a thread may rely on\<close>

text \<open>
  The contexts a thread holds, those it still points to although \<open>Reconnect\<close> has freed them, and whether it holds the
  read lock.
\<close>

fun held :: "phase \<Rightarrow> addr list" where
  "held (Borrowed a _ _) = [a]"
| "held (Sending a _ _) = [a]"
| "held (Unanswered a _ _) = [a]"
| "held (Answered a _) = [a]"
| "held _ = []"

fun dangling :: "phase \<Rightarrow> addr list" where
  "dangling (Reconnected a _ _) = [a]"
| "dangling (Resending a _) = [a]"
| "dangling _ = []"

fun inside :: "phase \<Rightarrow> bool" where
  "inside (Called _ _) = False"
| "inside (Checked _ _) = False"
| "inside (Returned _) = False"
| "inside _ = True"

text \<open>The client as a thread finds it, while other threads hold the contexts \<open>B\<close> and \<open>n\<close> read locks.\<close>

definition thread_inv :: "string \<Rightarrow> addr set \<Rightarrow> nat \<Rightarrow> phase \<Rightarrow> 'w cst \<Rightarrow> bool" where
  "thread_inv bid B n ph = (\<lambda>(s, c). client_inv bid (set (held ph) \<union> B) (s, c) \<and> set (held ph) \<inter> B = {} \<and>
     rw_readers c = n + (if inside ph then 1 else 0) \<and> (\<forall>a \<in> set (dangling ph). a < next_addr s \<and> ctxs s a = None))"

lemma client_inv_act:
  assumes "client_inv bid B (s, c)" and "a \<in> B" and "ctxs s' = (ctxs s)(a \<mapsto> x)" and "next_addr s' = next_addr s"
    and "actxs s' = actxs s" and "aevents s' = aevents s"
  shows "client_inv bid B (s', c)"
proof -
  from assms(1) obtain p where p: "m_BID c = bid" "\<not> rw_writer c" "m_ConnPool c = Some p" "sync_inv B (s, p)"
    by (auto simp: client_inv_def)
  then have "a \<in> dom (ctxs s)" using assms(2) queue_ok_live by (fastforce simp: sync_inv_def)
  then have d: "dom (ctxs s') = dom (ctxs s)" using assms(3) by auto
  have "queue_ok (ctxs s') (unUsed p) B"
    by (rule queue_ok_mono [of "ctxs s"]) (use p d in \<open>simp_all add: sync_inv_def\<close>)
  then show ?thesis using p assms(4-6) d by (simp add: client_inv_def sync_inv_def heap_ok_def)
qed

lemma client_inv_frame [simp]:
  "client_inv bid B (s, c\<lparr>rw_readers := n\<rparr>) = client_inv bid B (s, c)"
  "client_inv bid B (s\<lparr>logs := l\<rparr>, c) = client_inv bid B (s, c)"
  by (simp_all add: client_inv_def sync_inv_def)

lemma undisturbed_act:
  "ctxs s a = Some y \<Longrightarrow> a \<notin> B \<Longrightarrow> ctxs s' = (ctxs s)(a \<mapsto> x) \<Longrightarrow> next_addr s' = next_addr s \<Longrightarrow> undisturbed B s s'"
  by (auto simp: undisturbed_def)

lemma undisturbed_frame: "ctxs s' = ctxs s \<Longrightarrow> next_addr s' = next_addr s \<Longrightarrow> undisturbed B s s'"
  by (simp add: undisturbed_def)

lemma step_locked:
  assumes i: "thread_inv bid B n (Locked argv tt) (s, c)"
    and r: "cmd_step H (Locked argv tt) (s, c) = (Ret ph', (s', c'))"
  shows "thread_inv bid B n ph' (s', c') \<and> undisturbed B s s'"
proof -
  from i obtain p where c: "m_ConnPool c = Some p" "\<not> rw_writer c" "m_BID c = bid" and p: "sync_inv B (s, p)"
    by (auto simp: thread_inv_def client_inv_def)
  obtain o' s1 p1 where b: "borrowItem H (s, p) = (Ret o', (s1, p1))" using sync_borrow_returns [OF p] by fastforce
  note u = sync_borrow_frame [OF p b]
  show ?thesis
  proof (cases o')
    case None
    with sync_borrow_none [OF p] i r c b u show ?thesis
      by (auto simp: thread_inv_def client_inv_def run_simps client_simps bnd_def ret_def)
  next
    case (Some a)
    with sync_borrow_some [OF p] b have "a \<notin> B" "sync_inv (insert a B) (s1, p1)" by simp_all
    with i r c b Some u show ?thesis
      by (auto simp: thread_inv_def client_inv_def run_simps client_simps bnd_def ret_def)
  qed
qed

lemma step_acts:
  assumes i: "thread_inv bid B n ph (s, c)" and ph: "ph = Borrowed a argv tt \<or> ph = Sending a argv tt"
    and r: "cmd_step H ph (s, c) = (Ret ph', (s', c'))"
  shows "thread_inv bid B n ph' (s', c') \<and> undisturbed B s s'"
proof -
  from i ph have ci: "client_inv bid (insert a B) (s, c)" and a: "a \<notin> B" by (auto simp: thread_inv_def)
  then obtain y where y: "ctxs s a = Some y"
    using queue_ok_live by (fastforce simp: client_inv_def sync_inv_def)
  have e: "c' = c \<and> ctxs s' = (ctxs s)(a \<mapsto> the (ctxs s' a)) \<and> next_addr s' = next_addr s \<and> actxs s' = actxs s \<and>
      aevents s' = aevents s \<and> held ph' = [a] \<and> inside ph' \<and> dangling ph' = []"
    using r y ph by (auto simp: run_simps client_simps bnd_def ret_def redisSetTimeout_live redisCommandArgv_live
        split: prod.splits option.splits)
  then have x: "ctxs s' = (ctxs s)(a \<mapsto> the (ctxs s' a))" by blast
  with e client_inv_act [OF ci _ x] i ph a undisturbed_act [OF y a x] show ?thesis
    by (auto simp: thread_inv_def)
qed

lemma step_reconnect:
  assumes i: "thread_inv bid B n (Unanswered a argv tt) (s, c)"
    and r: "cmd_step H (Unanswered a argv tt) (s, c) = (Ret ph', (s', c'))"
  shows "thread_inv bid B n ph' (s', c') \<and> undisturbed B s s'"
proof -
  from i obtain p where c: "m_ConnPool c = Some p" "\<not> rw_writer c" "m_BID c = bid" and p: "sync_inv (insert a B) (s, p)"
    and a: "a \<notin> B"
    by (auto simp: thread_inv_def client_inv_def)
  from p have h: "heap_ok s" and live: "B \<subseteq> dom (ctxs s)" using queue_ok_live by (fastforce simp: sync_inv_def)+
  obtain o' s0 p0 where "Reconnect H (Some a) (s, p) = (o', (s0, p0))" by (metis prod.collapse)
  with r c obtain ok p1 where b: "Reconnect H (Some a) (s, p) = (Ret ok, (s', p1))" and c': "c' = c\<lparr>m_ConnPool := Some p1\<rparr>"
    and ph': "ph' = (if ok then Reconnected a argv tt else Failing ''reconnect faild!'' (error_reply ''reconnect faild!''))"
    by (cases o') (auto simp: bnd_def client_simps ret_def split: if_split_asm)
  note R = Reconnect_frame [OF b h]
  have u: "undisturbed B s s'" by (rule R(5) [OF a live])
  have "b \<in> dom (ctxs s')" if "b \<noteq> a" "b \<in> dom (ctxs s)" for b
    using R(5) [of "{b}"] that by (auto simp: undisturbed_def)
  then have "sync_inv B (s', p)" by (intro sync_inv_drop [OF p a R(2)]) auto
  moreover have "a < next_addr s'" using R(4) u by (simp add: undisturbed_def)
  ultimately show ?thesis using c c' ph' R(1,3) u i by (auto simp: thread_inv_def client_inv_def)
qed

lemma step_return:
  assumes i: "thread_inv bid B n (Answered a rep) (s, c)"
    and r: "cmd_step H (Answered a rep) (s, c) = (Ret ph', (s', c'))"
  shows "thread_inv bid B n ph' (s', c') \<and> undisturbed B s s'"
proof -
  from i obtain p where c: "m_ConnPool c = Some p" "\<not> rw_writer c" "m_BID c = bid" and p: "sync_inv (insert a B) (s, p)"
    and a: "a \<notin> B" by (auto simp: thread_inv_def client_inv_def)
  from p have m: "\<not> unUsedMutex p" by (simp add: sync_inv_def)
  with sync_inv_give [OF p a] i r c show ?thesis
    by (auto simp: thread_inv_def client_inv_def andthen_def bnd_def ret_def client_simps returnItem_apply)
qed

text \<open>A step of a thread keeps that, and leaves the other threads' contexts alone.\<close>

lemma cmd_step_inv:
  assumes i: "thread_inv bid B n ph (s, c)" and r: "cmd_step H ph (s, c) = (Ret ph', (s', c'))"
  shows "thread_inv bid B n ph' (s', c') \<and> undisturbed B s s'"
proof -
  from i obtain p where c: "m_ConnPool c = Some p" and w: "\<not> rw_writer c"
    by (auto simp: thread_inv_def client_inv_def)
  show ?thesis
  proof (cases ph)
    case (Called command tt)
    with i r c show ?thesis by (auto simp: thread_inv_def run_simps client_simps bnd_def ret_def split: if_splits)
  next
    case (Checked argv tt)
    with i r w show ?thesis by (auto simp: thread_inv_def run_simps client_simps bnd_def ret_def)
  next
    case (Locked argv tt)
    then show ?thesis using step_locked [OF _ r [unfolded Locked]] i by simp
  next
    case (Unanswered a argv tt)
    then show ?thesis using step_reconnect [OF _ r [unfolded Unanswered]] i by simp
  next
    case (Answered a rep)
    then show ?thesis using step_return [OF _ r [unfolded Answered]] i by simp
  next
    case (Failing msg rep)
    with i r show ?thesis by (auto simp: thread_inv_def run_simps client_simps bnd_def ret_def undisturbed_def)
  next
    case (Leaving rep)
    with i r w show ?thesis by (auto simp: thread_inv_def run_simps client_simps bnd_def ret_def)
  qed (use i r step_acts [OF i _ r] in \<open>auto simp: thread_inv_def run_simps client_simps bnd_def ret_def\<close>)
qed

section \<open>Threads\<close>

text \<open>
  The threads take steps in any order. A run is labelled with the thread of each step and whether its reply became
  known in it; the labels of the latter kind are the order in which the commands took effect.
\<close>

fun reply_known :: "phase \<Rightarrow> Reply option" where
  "reply_known (Answered _ r) = Some (Reply_of r)"
| "reply_known (Failing _ rep) = Some rep"
| "reply_known (Leaving rep) = Some rep"
| "reply_known (Returned rep) = Some rep"
| "reply_known _ = None"

inductive thread_step :: "'w hiredis \<Rightarrow> 'w cst \<times> phase list \<Rightarrow> nat \<times> bool \<Rightarrow> 'w cst \<times> phase list \<Rightarrow> bool" for H where
  steps: "t < length ts \<Longrightarrow> steps_left (ts ! t) \<noteq> 0 \<Longrightarrow> cmd_step H (ts ! t) sc = (Ret ph, sc') \<Longrightarrow>
     e = (reply_known (ts ! t) = None \<and> reply_known ph \<noteq> None) \<Longrightarrow> thread_step H (sc, ts) (t, e) (sc', ts[t := ph])"

inductive threads_run :: "'w hiredis \<Rightarrow> 'w cst \<times> phase list \<Rightarrow> (nat \<times> bool) list \<Rightarrow> 'w cst \<times> phase list \<Rightarrow> bool" for H where
  run_start: "threads_run H cf [] cf"
| run_step: "threads_run H cf ls cf' \<Longrightarrow> thread_step H cf' l cf'' \<Longrightarrow> threads_run H cf (ls @ [l]) cf''"

inductive_cases thread_step_from: "thread_step H (sc, ts) (t, e) cf'"

definition effects :: "(nat \<times> bool) list \<Rightarrow> nat list" where
  "effects ls = map fst (filter snd ls)"

lemma effects_simps [simp]: "effects [] = []" "effects (ls @ ls') = effects ls @ effects ls'"
  "effects [(t, e)] = (if e then [t] else [])"
  by (simp_all add: effects_def)

lemma threads_run_trans:
  "threads_run H cf' ls' cf'' \<Longrightarrow> threads_run H cf ls cf' \<Longrightarrow> threads_run H cf (ls @ ls') cf''"
  by (induction rule: threads_run.induct) (auto simp flip: append_assoc intro: threads_run.intros)

lemma run_invariant:
  assumes "threads_run H cf ls cf'" and "P [] cf"
    and "\<And>ls cf l cf'. P ls cf \<Longrightarrow> thread_step H cf l cf' \<Longrightarrow> P (ls @ [l]) cf'"
  shows "P ls cf'"
  using assms by (induction rule: threads_run.induct) auto

text \<open>The steps a run can have.\<close>

lemma run_length:
  assumes "threads_run H cf ls cf'"
  shows "length ls + sum_list (map steps_left (snd cf')) \<le> sum_list (map steps_left (snd cf))"
  using assms
proof (induction rule: threads_run.induct)
  case (run_step cf ls cf' l cf'')
  from run_step.hyps(2) have "Suc (sum_list (map steps_left (snd cf''))) \<le> sum_list (map steps_left (snd cf'))"
  proof (cases rule: thread_step.cases)
    case (steps t ts sc ph sc' e)
    then have l: "steps_left ph < steps_left (ts ! t)" using yieldsD [OF cmd_step_left] by blast
    from update_split [OF steps(4)] obtain xs ys where "ts = xs @ ts ! t # ys" "ts[t := ph] = xs @ ph # ys" by metis
    then have "sum_list (map steps_left ts) = sum_list (map steps_left (xs @ ts ! t # ys))"
      "sum_list (map steps_left (ts[t := ph])) = sum_list (map steps_left (xs @ ph # ys))" by simp_all
    with l steps(1-3) show ?thesis by simp
  qed
  with run_step.IH show ?case by simp
qed simp

section \<open>What all threads keep\<close>

definition threads_inv :: "string \<Rightarrow> 'w cst \<times> phase list \<Rightarrow> bool" where
  "threads_inv bid = (\<lambda>((s, c), ts). client_inv bid (set (concat (map held ts))) (s, c) \<and>
     distinct (concat (map held ts)) \<and> rw_readers c = length (filter inside ts) \<and>
     (\<forall>ph \<in> set ts. \<forall>a \<in> set (dangling ph). a < next_addr s \<and> ctxs s a = None))"

text \<open>The same, seen from one thread.\<close>

lemma threads_inv_split:
  "threads_inv bid (sc, xs @ ph # ys) \<longleftrightarrow>
     thread_inv bid (set (concat (map held (xs @ ys)))) (length (filter inside (xs @ ys))) ph sc \<and>
     distinct (concat (map held (xs @ ys))) \<and>
     (\<forall>ph \<in> set (xs @ ys). \<forall>a \<in> set (dangling ph). a < next_addr (fst sc) \<and> ctxs (fst sc) a = None)"
proof -
  have d: "distinct (held ph)" by (cases ph) simp_all
  have u: "set (concat (map held (xs @ ph # ys))) = set (held ph) \<union> set (concat (map held (xs @ ys)))" by auto
  show ?thesis
    unfolding threads_inv_def thread_inv_def by (cases sc) (simp add: u d, auto)
qed

lemma thread_step_inv:
  assumes "thread_step H (sc, ts) l (sc', ts')" and i: "threads_inv bid (sc, ts)"
  shows "threads_inv bid (sc', ts')"
  using assms(1)
proof (cases rule: thread_step.cases)
  case (steps t ph e)
  obtain s c s' c' where [simp]: "sc = (s, c)" "sc' = (s', c')" by fastforce
  define ph0 where "ph0 = ts ! t"
  from update_split [OF steps(3)] obtain xs ys where ts: "ts = xs @ ph0 # ys" and u: "ts' = xs @ ph # ys"
    unfolding ph0_def using steps(2) by metis
  let ?B = "set (concat (map held (xs @ ys)))"
  note i' = i [unfolded ts threads_inv_split]
  have "thread_inv bid ?B (length (filter inside (xs @ ys))) ph (s', c') \<and> undisturbed ?B s s'"
    by (rule cmd_step_inv) (use i' steps(5) [folded ph0_def] in simp_all)
  moreover from i' have "\<forall>ph \<in> set (xs @ ys). \<forall>a \<in> set (dangling ph). a < next_addr s \<and> ctxs s a = None" by simp
  ultimately have "\<forall>ph \<in> set (xs @ ys). \<forall>a \<in> set (dangling ph). a < next_addr s' \<and> ctxs s' a = None"
    and "thread_inv bid ?B (length (filter inside (xs @ ys))) ph (s', c')"
    using undisturbed_gone by blast+
  then show ?thesis using i' unfolding u threads_inv_split by simp
qed

lemma thread_view:
  assumes "threads_inv bid (sc, ts)" and "t < length ts"
  obtains B n where "thread_inv bid B n (ts ! t) sc" and "\<And>u. u < length ts \<Longrightarrow> u \<noteq> t \<Longrightarrow> set (held (ts ! u)) \<subseteq> B"
proof -
  let ?xs = "take t ts" and ?ys = "drop (Suc t) ts"
  have "threads_inv bid (sc, ?xs @ ts ! t # ?ys)" using assms by (simp add: id_take_nth_drop [symmetric])
  then have "thread_inv bid (set (concat (map held (?xs @ ?ys)))) (length (filter inside (?xs @ ?ys))) (ts ! t) sc"
    unfolding threads_inv_split by blast
  moreover have "ts ! u \<in> set (?xs @ ?ys)" if "u < length ts" "u \<noteq> t" for u
  proof (cases "u < t")
    case True
    then show ?thesis using assms(2) by (auto simp: in_set_conv_nth intro: exI [of _ u])
  next
    case False
    then have "?ys ! (u - Suc t) = ts ! u" "u - Suc t < length ?ys" using that by auto
    then show ?thesis by (metis Un_iff nth_mem set_append)
  qed
  then have "set (held (ts ! u)) \<subseteq> set (concat (map held (?xs @ ?ys)))" if "u < length ts" "u \<noteq> t" for u
    using that by (simp only: set_concat set_map) blast
  ultimately show thesis by (rule that)
qed

text \<open>Threads that are all about to call.\<close>

abbreviation started :: "(string list \<times> c_int) list \<Rightarrow> phase list" where
  "started cmds \<equiv> map (\<lambda>(command, tt). Called command tt) cmds"

lemma started_inv:
  assumes "client_inv bid {} sc" and "rw_readers (snd sc) = 0"
  shows "threads_inv bid (sc, started cmds)"
proof -
  have "held (case x of (command, tt) \<Rightarrow> Called command tt) = []" "\<not> inside (case x of (command, tt) \<Rightarrow> Called command tt)"
    "dangling (case x of (command, tt) \<Rightarrow> Called command tt) = []" for x by (cases x; simp)+
  moreover have "distinct (concat (map (held \<circ> (\<lambda>(command, tt). Called command tt)) cmds))" by (induction cmds) auto
  ultimately show ?thesis using assms by (cases sc) (auto simp: threads_inv_def)
qed

lemma run_threads_inv:
  assumes "threads_run H (sc, started cmds) ls cf" and "client_inv bid {} sc" and "rw_readers (snd sc) = 0"
  shows "threads_inv bid cf"
  using assms(1)
proof (rule run_invariant [where P = "\<lambda>ls. threads_inv bid"])
  fix ls cf l cf'
  assume "threads_inv bid cf" and "thread_step H cf l cf'"
  then show "threads_inv bid cf'" using thread_step_inv by (cases cf; cases cf') blast
qed (rule started_inv [OF assms(2,3)])

lemma effects_threads: "set (effects ls) \<subseteq> fst ` set ls"
  by (auto simp: effects_def)

lemma run_threads_length: "threads_run H cf ls cf' \<Longrightarrow> length (snd cf') = length (snd cf)"
  by (rule run_invariant [where P = "\<lambda>ls cf'. length (snd cf') = length (snd cf)"]) (auto elim: thread_step.cases)

section \<open>Schedules\<close>

text \<open>The threads in the order of a list, if each can take its step.\<close>

fun play ::
  "'w hiredis \<Rightarrow> nat list \<Rightarrow> 'w cst \<times> phase list \<Rightarrow> ((nat \<times> bool) list \<times> 'w cst \<times> phase list) option" where
  "play H [] cf = Some ([], cf)"
| "play H (t # ts) (sc, phs) =
     (if t < length phs \<and> steps_left (phs ! t) \<noteq> 0
      then case cmd_step H (phs ! t) sc of
             (Ret ph, sc') \<Rightarrow>
               map_option (\<lambda>(ls, cf). ((t, reply_known (phs ! t) = None \<and> reply_known ph \<noteq> None) # ls, cf))
                 (play H ts (sc', phs[t := ph]))
           | (Abrupt e, sc') \<Rightarrow> None
      else None)"

lemma play_run: "play H sched cf = Some (ls, cf') \<Longrightarrow> threads_run H cf ls cf'"
proof (induction H sched cf arbitrary: ls rule: play.induct)
  case (1 H cf)
  then show ?case by (auto intro: threads_run.intros)
next
  case (2 H t ts sc phs)
  then obtain ph sc' ls' where l: "t < length phs" "steps_left (phs ! t) \<noteq> 0" and c: "cmd_step H (phs ! t) sc = (Ret ph, sc')"
    and p: "play H ts (sc', phs[t := ph]) = Some (ls', cf')"
    and ls: "ls = [(t, reply_known (phs ! t) = None \<and> reply_known ph \<noteq> None)] @ ls'"
    by (auto split: if_splits prod.splits outcome.splits)
  have "threads_run H (sc', phs[t := ph]) ls' cf'" using 2(1) l c p by simp
  moreover have "threads_run H (sc, phs) ([] @ [(t, reply_known (phs ! t) = None \<and> reply_known ph \<noteq> None)]) (sc', phs[t := ph])"
    by (rule run_step [OF run_start steps [OF l c refl]])
  ultimately show ?case unfolding ls by (simp only: append_Nil threads_run_trans)
qed

end
