(* ===== verification/Linearizability.thy ===== *)
theory Linearizability
  imports Concurrent_Commands
begin

text \<open>
  Threads that call one client over connections that work. Each command takes effect in one of the thread's steps, so
  every run is the commands run one by one, in the order of those steps; every thread can go on until it has returned.
\<close>

section \<open>Over connections that work\<close>

text \<open>What a command does to the server, all at once.\<close>

definition effect ::
  "('m \<Rightarrow> string list \<Rightarrow> redisReply \<times> 'm) \<Rightarrow> string \<Rightarrow> string list \<Rightarrow> 'm \<Rightarrow> Reply \<times> 'm" where
  "effect srv bid command m =
     (if length command < 2 then (error_reply ''Command length should gt 2'', m)
      else case srv m (inner_command bid command) of (r, m') \<Rightarrow> (Reply_of r, m'))"

lemma serving_effect:
  assumes "serving H st srv bid B sc"
  shows "\<exists>sc'. RedisCommand H command tt sc = (Ret (fst (effect srv bid command (st (world (fst sc))))), sc') \<and>
    serving H st srv bid B sc' \<and> st (world (fst sc')) = snd (effect srv bid command (st (world (fst sc))))"
proof (cases "length command < 2")
  case True
  then show ?thesis using assms RedisCommand_short [of command H tt sc] by (simp add: effect_def)
next
  case False
  with assms serving_exec [of H st srv bid B "fst sc" "snd sc" command tt] show ?thesis
    by (fastforce simp: effect_def case_prod_beta)
qed

text \<open>A thread that is serving a command, and has not lost its connection.\<close>

fun on_track :: "string \<Rightarrow> string list \<times> c_int \<Rightarrow> 'w sys \<Rightarrow> phase \<Rightarrow> bool" where
  "on_track bid (command, tt) s (Called c t) \<longleftrightarrow> c = command \<and> t = tt"
| "on_track bid (command, tt) s (Checked argv _) \<longleftrightarrow> 2 \<le> length command \<and> argv = inner_command bid command"
| "on_track bid (command, tt) s (Locked argv _) \<longleftrightarrow> 2 \<le> length command \<and> argv = inner_command bid command"
| "on_track bid (command, tt) s (Borrowed a argv _) \<longleftrightarrow>
     2 \<le> length command \<and> argv = inner_command bid command \<and> healthy_in s a"
| "on_track bid (command, tt) s (Sending a argv _) \<longleftrightarrow>
     2 \<le> length command \<and> argv = inner_command bid command \<and> healthy_in s a"
| "on_track bid cmd s (Answered a r) \<longleftrightarrow> True"
| "on_track bid cmd s (Leaving rep) \<longleftrightarrow> True"
| "on_track bid cmd s (Returned rep) \<longleftrightarrow> True"
| "on_track bid cmd s _ \<longleftrightarrow> False"

lemma on_track_undisturbed:
  "on_track bid cmd s ph \<Longrightarrow> undisturbed (set (held ph)) s s' \<Longrightarrow> on_track bid cmd s' ph"
  by (cases cmd; cases ph) (auto simp: undisturbed_def healthy_in_def)

text \<open>The step \<open>ph\<close> to \<open>ph'\<close> is the one in which the command takes effect, or changes nothing that counts.\<close>

definition counts ::
  "('m \<Rightarrow> string list \<Rightarrow> redisReply \<times> 'm) \<Rightarrow> string \<Rightarrow> string list \<Rightarrow> phase \<Rightarrow> 'm \<Rightarrow> phase \<Rightarrow> 'm \<Rightarrow> bool" where
  "counts srv bid command ph m ph' m' \<longleftrightarrow>
     (if reply_known ph = None \<and> reply_known ph' \<noteq> None
      then effect srv bid command m = (the (reply_known ph'), m')
      else reply_known ph' = reply_known ph \<and> m' = m)"

lemma borrow_on_track:
  assumes R: "reliable H st srv" and i: "thread_inv bid B n (Locked argv tt) (s, c)"
  shows "\<exists>a s' c'. cmd_step H (Locked argv tt) (s, c) = (Ret (Borrowed a argv tt), (s', c')) \<and> healthy_in s' a \<and>
    st (world s') = st (world s)"
proof -
  from i obtain p where c: "m_ConnPool c = Some p" and p: "sync_inv B (s, p)" by (auto simp: thread_inv_def client_inv_def)
  obtain a s' p' where b: "borrowItem H (s, p) = (Ret (Some a), (s', p'))" "st (world s') = st (world s)"
    using reliable_borrow [OF R p] by blast
  then show ?thesis using sync_borrow_some [OF p b(1)] c by (simp add: bnd_def ret_def client_simps)
qed

lemma timeout_on_track:
  assumes R: "reliable H st srv" and a: "healthy_in s a"
  shows "\<exists>s'. cmd_step H (Borrowed a argv tt) (s, c) = (Ret (Sending a argv tt), (s', c)) \<and> healthy_in s' a \<and>
    st (world s') = st (world s)"
proof -
  from a obtain x where x: "ctxs s a = Some x" "rc_err x = REDIS_OK" by (auto simp: healthy_in_def)
  then show ?thesis using R by (simp add: run_simps client_simps bnd_def reliable_def healthy_in_def)
qed

lemma send_on_track:
  assumes R: "reliable H st srv" and a: "healthy_in s a" and "srv (st (world s)) argv = (r, m)"
  shows "\<exists>s'. cmd_step H (Sending a argv tt) (s, c) = (Ret (Answered a r), (s', c)) \<and> st (world s') = m"
proof -
  from a obtain x where x: "ctxs s a = Some x" "rc_err x = REDIS_OK" by (auto simp: healthy_in_def)
  with R assms(3) obtain x' w' where "hr_command H x argv (world s) = (Some r, x', w')" "st w' = m"
    unfolding reliable_def by (metis fst_conv snd_conv)
  then show ?thesis using x by (simp add: bnd_def ret_def client_simps redisCommandArgv_live)
qed

text \<open>A step of such a thread succeeds, and its command takes effect in one of them.\<close>

lemma on_track_step:
  assumes R: "reliable H st srv" and i: "thread_inv bid B n ph (s, c)" and t: "on_track bid (command, tt) s ph"
    and l: "steps_left ph \<noteq> 0"
  shows "\<exists>ph' s' c'. cmd_step H ph (s, c) = (Ret ph', (s', c')) \<and> on_track bid (command, tt) s' ph' \<and>
    counts srv bid command ph (st (world s)) ph' (st (world s'))"
proof -
  from i obtain p where c: "m_ConnPool c = Some p" "\<not> rw_writer c" "m_BID c = bid" and m: "\<not> unUsedMutex p"
    by (auto simp: thread_inv_def client_inv_def sync_inv_def)
  show ?thesis
  proof (cases ph)
    case (Called _ _)
    with c t show ?thesis
      by (cases "length command < 2") (simp_all add: prog_simps client_simps bnd_def counts_def effect_def)
  next
    case (Checked _ _)
    with c t show ?thesis by (simp add: prog_simps client_simps bnd_def counts_def)
  next
    case (Locked argv tt)
    with borrow_on_track [OF R] i t show ?thesis by (fastforce simp: counts_def simp del: cmd_step.simps)
  next
    case (Borrowed a argv tt)
    with timeout_on_track [OF R] t show ?thesis by (fastforce simp: counts_def simp del: cmd_step.simps)
  next
    case (Sending a argv tt')
    obtain r x where x: "srv (st (world s)) argv = (r, x)" by fastforce
    from Sending t x have "effect srv bid command (st (world s)) = (Reply_of r, x)" by (auto simp: effect_def)
    with Sending send_on_track [OF R _ x] t show ?thesis
      by (fastforce simp: counts_def simp del: cmd_step.simps)
  next
    case (Answered _ _)
    with c m show ?thesis by (simp add: andthen_def ret_def client_simps bnd_def counts_def returnItem_apply)
  next
    case (Leaving _)
    with c show ?thesis by (simp add: prog_simps client_simps bnd_def counts_def)
  qed (use t l in simp_all)
qed

section \<open>Runs take effect one by one\<close>

definition one_by_one :: "'w hiredis \<Rightarrow> (string list \<times> c_int) list \<Rightarrow> nat list \<Rightarrow> ('w cst, Reply list) prog" where
  "one_by_one H cmds = mapM_prog (\<lambda>t. RedisCommand H (fst (cmds ! t)) (snd (cmds ! t)))"

definition linear ::
  "'w hiredis \<Rightarrow> ('w \<Rightarrow> 'm) \<Rightarrow> ('m \<Rightarrow> string list \<Rightarrow> redisReply \<times> 'm) \<Rightarrow> string \<Rightarrow> (string list \<times> c_int) list \<Rightarrow>
   'w cst \<Rightarrow> nat list \<Rightarrow> 'w cst \<times> phase list \<Rightarrow> bool" where
  "linear H st srv bid cmds sc0 order = (\<lambda>(sc, ts).
     threads_inv bid (sc, ts) \<and> length ts = length cmds \<and> (\<forall>t < length ts. on_track bid (cmds ! t) (fst sc) (ts ! t)) \<and>
     distinct order \<and> set order = {t. t < length ts \<and> reply_known (ts ! t) \<noteq> None} \<and>
     (\<exists>replies sc1. one_by_one H cmds order sc0 = (Ret replies, sc1) \<and> serving H st srv bid {} sc1 \<and>
        st (world (fst sc1)) = st (world (fst sc)) \<and> map (\<lambda>t. reply_known (ts ! t)) order = map Some replies))"

lemma linear_snoc:
  assumes r: "one_by_one H cmds order sc0 = (Ret replies, sc1)" and S: "serving H st srv bid {} sc1"
    and m: "st (world (fst sc1)) = m" and e: "effect srv bid (fst (cmds ! t)) m = (rep, m')"
  shows "\<exists>sc2. one_by_one H cmds (order @ [t]) sc0 = (Ret (replies @ [rep]), sc2) \<and> serving H st srv bid {} sc2 \<and>
    st (world (fst sc2)) = m'"
proof -
  from serving_effect [OF S] e m obtain sc2 where x: "RedisCommand H (fst (cmds ! t)) (snd (cmds ! t)) sc1 = (Ret rep, sc2)"
    "serving H st srv bid {} sc2" "st (world (fst sc2)) = m'" by (metis fst_conv snd_conv)
  then show ?thesis using mapM_snoc [OF r [unfolded one_by_one_def], of t] by (auto simp: one_by_one_def)
qed

lemma linear_replies:
  assumes L: "linear H st srv bid cmds sc0 order (sc, ts)" and t: "t < length ts"
    and k: "counts srv bid (fst (cmds ! t)) (ts ! t) (st (world (fst sc))) ph m"
    and e: "e = (reply_known (ts ! t) = None \<and> reply_known ph \<noteq> None)"
  shows "\<exists>replies sc1. one_by_one H cmds (order @ (if e then [t] else [])) sc0 = (Ret replies, sc1) \<and>
    serving H st srv bid {} sc1 \<and> st (world (fst sc1)) = m \<and>
    map (\<lambda>u. reply_known (ts[t := ph] ! u)) (order @ (if e then [t] else [])) = map Some replies"
proof -
  from L obtain replies sc1 where o: "one_by_one H cmds order sc0 = (Ret replies, sc1)" "serving H st srv bid {} sc1"
    "st (world (fst sc1)) = st (world (fst sc))" "map (\<lambda>u. reply_known (ts ! u)) order = map Some replies"
    and s: "set order = {u. u < length ts \<and> reply_known (ts ! u) \<noteq> None}" by (auto simp: linear_def)
  have m: "map (\<lambda>u. reply_known (ts[t := ph] ! u)) order = map Some replies"
    unfolding o(4) [symmetric]
  proof (rule map_cong [OF refl])
    fix u assume "u \<in> set order"
    then show "reply_known (ts[t := ph] ! u) = reply_known (ts ! u)"
      using s t k by (cases "u = t") (simp_all add: counts_def)
  qed
  show ?thesis
  proof (cases e)
    case True
    with k e have "effect srv bid (fst (cmds ! t)) (st (world (fst sc))) = (the (reply_known ph), m)"
      by (simp add: counts_def)
    from linear_snoc [OF o(1-3) this] True e m t show ?thesis by fastforce
  next
    case False
    with k e have "m = st (world (fst sc))" by (auto simp: counts_def split: if_splits)
    with o m False show ?thesis by auto
  qed
qed

lemma linear_step:
  assumes R: "reliable H st srv" and L: "linear H st srv bid cmds sc0 (effects ls) (sc, ts)"
    and step: "thread_step H (sc, ts) (t, e) (sc', ts')"
  shows "linear H st srv bid cmds sc0 (effects (ls @ [(t, e)])) (sc', ts')"
proof -
  from step obtain ph where t: "t < length ts" "steps_left (ts ! t) \<noteq> 0" and ts': "ts' = ts[t := ph]"
    and ph: "cmd_step H (ts ! t) sc = (Ret ph, sc')" and e: "e = (reply_known (ts ! t) = None \<and> reply_known ph \<noteq> None)"
    by (cases rule: thread_step.cases) auto
  from L have I: "threads_inv bid (sc, ts)" and len: "length ts = length cmds"
    and on: "\<And>u. u < length ts \<Longrightarrow> on_track bid (cmds ! u) (fst sc) (ts ! u)"
    by (simp_all add: linear_def)
  obtain B n where v: "thread_inv bid B n (ts ! t) sc" "\<And>u. u < length ts \<Longrightarrow> u \<noteq> t \<Longrightarrow> set (held (ts ! u)) \<subseteq> B"
    using thread_view [OF I t(1)] by blast
  obtain command tt where c: "cmds ! t = (command, tt)" by fastforce
  from on_track_step [OF R, of bid B n "ts ! t" "fst sc" "snd sc" command tt] v(1) on [OF t(1)] t(2) ph c
  have o: "on_track bid (cmds ! t) (fst sc') ph" and k: "counts srv bid (fst (cmds ! t)) (ts ! t) (st (world (fst sc))) ph (st (world (fst sc')))"
    by auto
  have und: "undisturbed B (fst sc) (fst sc')"
    using cmd_step_inv [of bid B n "ts ! t" "fst sc" "snd sc" H ph "fst sc'" "snd sc'"] v(1) ph by simp
  have "\<forall>u < length ts'. on_track bid (cmds ! u) (fst sc') (ts' ! u)"
  proof (intro allI impI)
    fix u assume "u < length ts'"
    then show "on_track bid (cmds ! u) (fst sc') (ts' ! u)"
      using o on_track_undisturbed [OF on] und v(2) by (cases "u = t") (auto simp: ts' undisturbed_def subset_iff)
  qed
  moreover have "threads_inv bid (sc', ts')" by (rule thread_step_inv [OF step I])
  moreover have "distinct (effects (ls @ [(t, e)])) \<and> set (effects (ls @ [(t, e)])) = {t. t < length ts' \<and> reply_known (ts' ! t) \<noteq> None}"
    using L t k by (auto simp: linear_def e ts' counts_def nth_list_update split: if_splits)
  moreover have "\<exists>replies sc1. one_by_one H cmds (effects (ls @ [(t, e)])) sc0 = (Ret replies, sc1) \<and> serving H st srv bid {} sc1 \<and>
        st (world (fst sc1)) = st (world (fst sc')) \<and> map (\<lambda>t. reply_known (ts' ! t)) (effects (ls @ [(t, e)])) = map Some replies"
    unfolding ts' using linear_replies [OF L t(1) k e] by simp
  ultimately show ?thesis using len by (simp add: linear_def ts')
qed

lemma run_linear:
  assumes "threads_run H (sc, started cmds) ls cf" and S: "serving H st srv bid {} sc" and "rw_readers (snd sc) = 0"
  shows "linear H st srv bid cmds sc (effects ls) cf"
  using assms(1)
proof (rule run_invariant [where P = "\<lambda>ls. linear H st srv bid cmds sc (effects ls)"])
  have "reply_known (case x of (command, tt) \<Rightarrow> Called command tt) = None"
    "on_track bid x s (case x of (command, tt) \<Rightarrow> Called command tt)" for x and s :: "'a sys" by (cases x; simp)+
  then show "linear H st srv bid cmds sc (effects []) (sc, started cmds)"
    using started_inv [of bid sc] assms(2,3) by (auto simp: linear_def one_by_one_def ret_def serving_def)
next
  fix ls cf1 l cf2
  assume "linear H st srv bid cmds sc (effects ls) cf1" and "thread_step H cf1 l cf2"
  with S show "linear H st srv bid cmds sc (effects (ls @ [l])) cf2"
    using linear_step [of H st srv bid cmds sc ls] by (cases cf1; cases l; cases cf2) (simp add: serving_def)
qed

section \<open>Lemmas: when all threads have returned\<close>

lemma run_finished:
  assumes "serving H st srv bid {} sc" and "rw_readers (snd sc) = 0"
    and "threads_run H (sc, started cmds) ls (sc', ts)" and "list_all (\<lambda>ph. steps_left ph = 0) ts"
  obtains replies sc1 where "distinct (effects ls)" and "set (effects ls) = {..<length cmds}"
    and "one_by_one H cmds (effects ls) sc = (Ret replies, sc1)"
    and "map (\<lambda>t. returned (ts ! t)) (effects ls) = map Some replies" and "serving H st srv bid {} sc1"
    and "st (world (fst sc1)) = st (world (fst sc'))" and "serving H st srv bid {} sc'" and "rw_readers (snd sc') = 0"
proof -
  have L: "linear H st srv bid cmds sc (effects ls) (sc', ts)" by (rule run_linear [OF assms(3,1,2)])
  have fin: "returned (ts ! t) = reply_known (ts ! t) \<and> reply_known (ts ! t) \<noteq> None" if "t < length ts" for t
    using assms(4) that by (cases "ts ! t") (auto simp: list_all_length)
  have idle: "held ph = [] \<and> \<not> inside ph" if "ph \<in> set ts" for ph
    using assms(4) that by (cases ph) (auto simp: list_all_iff)
  have I: "serving H st srv bid {} sc'" "rw_readers (snd sc') = 0"
    using L assms(1) idle by (cases sc'; auto simp: linear_def threads_inv_def serving_def filter_empty_conv)+
  have e: "set (effects ls) = {..<length cmds}" using L fin by (auto simp: linear_def)
  have "map (\<lambda>t. returned (ts ! t)) (effects ls) = map (\<lambda>t. reply_known (ts ! t)) (effects ls)"
  proof (rule map_cong [OF refl])
    fix t assume "t \<in> set (effects ls)"
    then show "returned (ts ! t) = reply_known (ts ! t)" using fin [of t] e L by (auto simp only: linear_def)
  qed
  with L I e that show thesis unfolding linear_def by auto
qed

section \<open>Lemmas: threads go on\<close>

lemma threads_progress:
  assumes "serving H st srv bid {} sc" and "rw_readers (snd sc) = 0"
    and "threads_run H (sc, started cmds) ls (sc', ts)" and t: "t < length ts" and "steps_left (ts ! t) \<noteq> 0"
  shows "\<exists>e cf. thread_step H (sc', ts) (t, e) cf"
proof -
  have L: "linear H st srv bid cmds sc (effects ls) (sc', ts)" by (rule run_linear [OF assms(3,1,2)])
  then have I: "threads_inv bid (sc', ts)" and on: "on_track bid (cmds ! t) (fst sc') (ts ! t)" using t by (auto simp: linear_def)
  obtain B n where v: "thread_inv bid B n (ts ! t) sc'" and "\<And>u. u < length ts \<Longrightarrow> u \<noteq> t \<Longrightarrow> set (held (ts ! u)) \<subseteq> B"
    using thread_view [OF I t] by blast
  obtain command tt where c: "cmds ! t = (command, tt)" by fastforce
  have "reliable H st srv" using assms(1) by (simp add: serving_def)
  from on_track_step [OF this, of bid B n "ts ! t" "fst sc'" "snd sc'" command tt] v on c assms(5)
  have "\<exists>ph sc2. cmd_step H (ts ! t) sc' = (Ret ph, sc2)" by auto
  then show ?thesis using thread_step.intros [OF t assms(5) _ refl] by blast
qed

lemma run_can_finish:
  assumes S: "serving H st srv bid {} sc" "rw_readers (snd sc) = 0" and "threads_run H (sc, started cmds) ls (sc', ts)"
  shows "\<exists>ls' sc2 ts2. threads_run H (sc, started cmds) ls' (sc2, ts2) \<and> list_all (\<lambda>ph. steps_left ph = 0) ts2"
  using assms(3)
proof (induction "sum_list (map steps_left ts)" arbitrary: ls sc' ts rule: less_induct)
  case less
  show ?case
  proof (cases "list_all (\<lambda>ph. steps_left ph = 0) ts")
    case True
    with less.prems show ?thesis by blast
  next
    case False
    then obtain t where t: "t < length ts" "steps_left (ts ! t) \<noteq> 0" by (auto simp: list_all_length)
    with threads_progress [OF S less.prems] obtain e sc2 ts2 where s: "thread_step H (sc', ts) (t, e) (sc2, ts2)" by fastforce
    from run_length [OF run_step [OF run_start s]] have "sum_list (map steps_left ts2) < sum_list (map steps_left ts)" by simp
    from less.hyps [OF this run_step [OF less.prems s]] show ?thesis .
  qed
qed

end
