(* ===== verification/Redis_Commands.thy ===== *)
theory Redis_Commands
  imports Kv_Spec "HOL-Library.Char_ord" "HOL-Library.List_Lexorder" "HOL-Library.Product_Lexorder"
begin

unbundle bit_operations_syntax

text \<open>
  The documented behaviour of the redis commands that the client sends, for all its data types. The server is
  a parameter; what it does with one key is the relation \<open>served\<close> between a command, the value at the key, the
  reply and the value afterwards. It is a relation because redis promises no order for the members of a set or
  the fields of a hash, and chooses what \<open>SPOP\<close> takes. Expiry is immediate or never, scores are integers,
  and the texts of errors are not fixed.
\<close>

section \<open>Values\<close>

datatype rvalue =
    Str_val string
  | List_val "string list"
  | Set_val "string set"
  | Zset_val "(int \<times> string) list"
  | Hash_val "string \<rightharpoonup> string"

type_synonym db = "string \<rightharpoonup> rvalue"

text \<open>What \<open>TYPE\<close> says.\<close>

fun kind :: "rvalue option \<Rightarrow> string" where
  "kind None = ''none''"
| "kind (Some (Str_val s)) = ''string''"
| "kind (Some (List_val xs)) = ''list''"
| "kind (Some (Set_val S)) = ''set''"
| "kind (Some (Zset_val z)) = ''zset''"
| "kind (Some (Hash_val h)) = ''hash''"

text \<open>An absent key reads as an empty value of every type.\<close>

fun str_of :: "rvalue option \<Rightarrow> string option" where
  "str_of (Some (Str_val s)) = Some s"
| "str_of _ = None"

fun list_of :: "rvalue option \<Rightarrow> string list" where
  "list_of (Some (List_val xs)) = xs"
| "list_of _ = []"

fun set_of :: "rvalue option \<Rightarrow> string set" where
  "set_of (Some (Set_val S)) = S"
| "set_of _ = {}"

fun zset_of :: "rvalue option \<Rightarrow> (int \<times> string) list" where
  "zset_of (Some (Zset_val z)) = z"
| "zset_of _ = []"

fun hash_of :: "rvalue option \<Rightarrow> (string \<rightharpoonup> string)" where
  "hash_of (Some (Hash_val h)) = h"
| "hash_of _ = Map.empty"

definition fits :: "string \<Rightarrow> rvalue option \<Rightarrow> bool" where
  "fits n v \<longleftrightarrow> v = None \<or> kind v = n"

text \<open>A list, set or hash that gets empty is removed.\<close>

definition put_list :: "string list \<Rightarrow> rvalue option" where
  "put_list xs = (if xs = [] then None else Some (List_val xs))"

definition put_set :: "string set \<Rightarrow> rvalue option" where
  "put_set S = (if S = {} then None else Some (Set_val S))"

definition put_zset :: "(int \<times> string) list \<Rightarrow> rvalue option" where
  "put_zset z = (if z = [] then None else Some (Zset_val z))"

definition put_hash :: "(string \<rightharpoonup> string) \<Rightarrow> rvalue option" where
  "put_hash h = (if dom h = {} then None else Some (Hash_val h))"

section \<open>Operations on values\<close>

text \<open>A number that the server accepts as one: the shortest decimal notation of a 64-bit integer.\<close>

definition redis_int :: "string \<Rightarrow> int option" where
  "redis_int s = (let i = strtol10 s in if int_to_dec i = s then Some i else None)"

definition in_64 :: "int \<Rightarrow> bool" where
  "in_64 i \<longleftrightarrow> - (2 ^ 63) \<le> i \<and> i < 2 ^ 63"

definition number_in :: "string option \<Rightarrow> int option" where
  "number_in s = (case s of None \<Rightarrow> Some 0 | Some t \<Rightarrow> redis_int t)"

text \<open>Bit \<open>i\<close> of a string counts from the most significant bit of its first byte.\<close>

definition str_bit :: "string \<Rightarrow> nat \<Rightarrow> bool" where
  "str_bit s i \<longleftrightarrow> i div 8 < length s \<and> bit (of_char (s ! (i div 8)) :: nat) (7 - i mod 8)"

definition put_bit :: "string \<Rightarrow> nat \<Rightarrow> bool \<Rightarrow> string" where
  "put_bit s i b =
     (let t = s @ replicate (Suc (i div 8) - length s) (CHR 0x00);
          n = of_char (t ! (i div 8)) :: nat;
          j = 7 - i mod 8
      in t[i div 8 := char_of (if b then set_bit j n else unset_bit j n)])"

definition bits_set :: "string \<Rightarrow> nat" where
  "bits_set s = length (filter (str_bit s) [0..<8 * length s])"

text \<open>An index below zero counts from the end. A range holds both its ends.\<close>

definition from_end :: "nat \<Rightarrow> int \<Rightarrow> int" where
  "from_end n i = (if i < 0 then i + int n else i)"

definition slice :: "int \<Rightarrow> int \<Rightarrow> 'a list \<Rightarrow> 'a list" where
  "slice i j xs =
     (let s = nat (from_end (length xs) i); e = nat (from_end (length xs) j + 1)
      in take (e - s) (drop s xs))"

fun remove_n :: "nat \<Rightarrow> 'a \<Rightarrow> 'a list \<Rightarrow> 'a list" where
  "remove_n n x [] = []"
| "remove_n n x (y # ys) =
     (if x = y \<and> 0 < n then remove_n (n - 1) x ys else y # remove_n n x ys)"

text \<open>A count above zero removes from the head, below zero from the tail, and zero removes all.\<close>

definition list_remove :: "int \<Rightarrow> string \<Rightarrow> string list \<Rightarrow> string list" where
  "list_remove n x xs =
     (if 0 < n then remove_n (nat n) x xs
      else if n < 0 then rev (remove_n (nat (- n)) x (rev xs))
      else filter (\<lambda>y. y \<noteq> x) xs)"

text \<open>A sorted set is the list of its members by score, members of one score in the order of their bytes.\<close>

definition zdel :: "string \<Rightarrow> (int \<times> string) list \<Rightarrow> (int \<times> string) list" where
  "zdel x z = filter (\<lambda>p. snd p \<noteq> x) z"

definition zput :: "int \<Rightarrow> string \<Rightarrow> (int \<times> string) list \<Rightarrow> (int \<times> string) list" where
  "zput s x z = insort (s, x) (zdel x z)"

fun zfind :: "string \<Rightarrow> (int \<times> string) list \<Rightarrow> int option" where
  "zfind x [] = None"
| "zfind x ((s, y) # z) = (if x = y then Some s else zfind x z)"

fun zindex :: "string \<Rightarrow> (int \<times> string) list \<Rightarrow> nat option" where
  "zindex x [] = None"
| "zindex x ((s, y) # z) = (if x = y then Some 0 else map_option Suc (zindex x z))"

definition zwithin :: "int \<Rightarrow> int \<Rightarrow> (int \<times> string) list \<Rightarrow> (int \<times> string) list" where
  "zwithin lo hi z = filter (\<lambda>p. lo \<le> fst p \<and> fst p \<le> hi) z"

definition zlist :: "bool \<Rightarrow> (int \<times> string) list \<Rightarrow> string list" where
  "zlist withscores z = concat (map (\<lambda>(s, x). if withscores then [x, int_to_dec s] else [x]) z)"

section \<open>Commands\<close>

text \<open>The commands with one key, without it.\<close>

datatype string_cmd =
    EXISTS | TYPE_OF | EXPIRE c_int
  | SET string | SETNX string | SETEX c_int string | GET | GETSET string
  | SETBIT c_int bool | GETBIT c_int | BITCOUNT
  | INCR | DECR | INCRBY c_int | DECRBY c_int | APPEND string

datatype list_cmd =
    LPUSH "string list" | RPUSH "string list" | LLEN | LRANGE c_int c_int | LTRIM c_int c_int
  | LSET c_int string | LREM c_int string | LPOP | RPOP

datatype set_cmd =
    SADD "string list" | SREM string | SPOP | SRANDMEMBER | SCARD | SISMEMBER string | SMEMBERS

datatype zset_cmd =
    ZADD c_int string | ZREM string | ZINCRBY c_int string | ZRANK string | ZREVRANK string
  | ZRANGE c_int c_int bool | ZREVRANGE c_int c_int bool
  | ZRANGEBYSCORE int int bool | ZREVRANGEBYSCORE int int bool
  | ZCOUNT c_int c_int | ZCARD | ZSCORE string | ZREMRANGEBYRANK c_int c_int | ZREMRANGEBYSCORE c_int c_int

datatype hash_cmd =
    HSET string string | HGET string | HMGET "string list" | HMSET "(string \<times> string) list"
  | HINCRBY string c_int | HEXISTS string | HDEL string | HLEN | HKEYS | HVALS | HGETALL

datatype key_cmd =
    String_cmd string_cmd
  | List_cmd list_cmd
  | Set_cmd set_cmd
  | Zset_cmd zset_cmd
  | Hash_cmd hash_cmd

definition scores_arg :: "bool \<Rightarrow> string list" where
  "scores_arg withscores = (if withscores then [''withscores''] else [])"

text \<open>The command as it is sent, with the key.\<close>

fun wire_string :: "string_cmd \<Rightarrow> string \<Rightarrow> string list" where
  "wire_string EXISTS k = [''EXISTS'', k]"
| "wire_string TYPE_OF k = [''TYPE'', k]"
| "wire_string (EXPIRE n) k = [''EXPIRE'', k, int2string n]"
| "wire_string (SET x) k = [''SET'', k, x]"
| "wire_string (SETNX x) k = [''SETNX'', k, x]"
| "wire_string (SETEX n x) k = [''SETEX'', k, int2string n, x]"
| "wire_string GET k = [''GET'', k]"
| "wire_string (GETSET x) k = [''GETSET'', k, x]"
| "wire_string (SETBIT i b) k = [''SETBIT'', k, int2string i, int2string (bool_to_int b)]"
| "wire_string (GETBIT i) k = [''GETBIT'', k, int2string i]"
| "wire_string BITCOUNT k = [''BITCOUNT'', k]"
| "wire_string INCR k = [''INCR'', k]"
| "wire_string DECR k = [''DECR'', k]"
| "wire_string (INCRBY n) k = [''INCRBY'', k, int2string n]"
| "wire_string (DECRBY n) k = [''DECRBY'', k, int2string n]"
| "wire_string (APPEND x) k = [''APPEND'', k, x]"

fun wire_list :: "list_cmd \<Rightarrow> string \<Rightarrow> string list" where
  "wire_list (LPUSH xs) k = ''LPUSH'' # k # xs"
| "wire_list (RPUSH xs) k = ''RPUSH'' # k # xs"
| "wire_list LLEN k = [''LLEN'', k]"
| "wire_list (LRANGE i j) k = [''LRANGE'', k, int2string i, int2string j]"
| "wire_list (LTRIM i j) k = [''LTRIM'', k, int2string i, int2string j]"
| "wire_list (LSET i x) k = [''LSET'', k, int2string i, x]"
| "wire_list (LREM n x) k = [''LREM'', k, int2string n, x]"
| "wire_list LPOP k = [''LPOP'', k]"
| "wire_list RPOP k = [''RPOP'', k]"

fun wire_set :: "set_cmd \<Rightarrow> string \<Rightarrow> string list" where
  "wire_set (SADD xs) k = ''SADD'' # k # xs"
| "wire_set (SREM x) k = [''SREM'', k, x]"
| "wire_set SPOP k = [''SPOP'', k]"
| "wire_set SRANDMEMBER k = [''SRANDMEMBER'', k]"
| "wire_set SCARD k = [''SCARD'', k]"
| "wire_set (SISMEMBER x) k = [''SISMEMBER'', k, x]"
| "wire_set SMEMBERS k = [''SMEMBERS'', k]"

fun wire_zset :: "zset_cmd \<Rightarrow> string \<Rightarrow> string list" where
  "wire_zset (ZADD s x) k = [''ZADD'', k, int2string s, x]"
| "wire_zset (ZREM x) k = [''ZREM'', k, x]"
| "wire_zset (ZINCRBY n x) k = [''ZINCRBY'', k, int2string n, x]"
| "wire_zset (ZRANK x) k = [''ZRANK'', k, x]"
| "wire_zset (ZREVRANK x) k = [''ZREVRANK'', k, x]"
| "wire_zset (ZRANGE i j w) k = [''ZRANGE'', k, int2string i, int2string j] @ scores_arg w"
| "wire_zset (ZREVRANGE i j w) k = [''ZREVRANGE'', k, int2string i, int2string j] @ scores_arg w"
| "wire_zset (ZRANGEBYSCORE a b w) k = [''ZRANGEBYSCORE'', k, int_to_dec a, int_to_dec b] @ scores_arg w"
| "wire_zset (ZREVRANGEBYSCORE a b w) k = [''ZREVRANGEBYSCORE'', k, int_to_dec a, int_to_dec b] @ scores_arg w"
| "wire_zset (ZCOUNT a b) k = [''ZCOUNT'', k, int2string a, int2string b]"
| "wire_zset ZCARD k = [''ZCARD'', k]"
| "wire_zset (ZSCORE x) k = [''ZSCORE'', k, x]"
| "wire_zset (ZREMRANGEBYRANK i j) k = [''ZREMRANGEBYRANK'', k, int2string i, int2string j]"
| "wire_zset (ZREMRANGEBYSCORE a b) k = [''ZREMRANGEBYSCORE'', k, int2string a, int2string b]"

fun wire_hash :: "hash_cmd \<Rightarrow> string \<Rightarrow> string list" where
  "wire_hash (HSET f x) k = [''HSET'', k, f, x]"
| "wire_hash (HGET f) k = [''HGET'', k, f]"
| "wire_hash (HMGET fs) k = ''HMGET'' # k # fs"
| "wire_hash (HMSET kvs) k = ''HMSET'' # k # pair_args kvs"
| "wire_hash (HINCRBY f n) k = [''HINCRBY'', k, f, int2string n]"
| "wire_hash (HEXISTS f) k = [''HEXISTS'', k, f]"
| "wire_hash (HDEL f) k = [''HDEL'', k, f]"
| "wire_hash HLEN k = [''HLEN'', k]"
| "wire_hash HKEYS k = [''HKEYS'', k]"
| "wire_hash HVALS k = [''HVALS'', k]"
| "wire_hash HGETALL k = [''HGETALL'', k]"

fun wire :: "key_cmd \<Rightarrow> string \<Rightarrow> string list" where
  "wire (String_cmd c) k = wire_string c k"
| "wire (List_cmd c) k = wire_list c k"
| "wire (Set_cmd c) k = wire_set c k"
| "wire (Zset_cmd c) k = wire_zset c k"
| "wire (Hash_cmd c) k = wire_hash c k"

section \<open>Replies\<close>

definition num_reply :: "int \<Rightarrow> redisReply" where
  "num_reply i = RedisReply 3 (word_of_int i) [] []"

definition strs_reply :: "string list \<Rightarrow> redisReply" where
  "strs_reply xs = RedisReply 2 0 [] (map (bulk_reply \<circ> Some) xs)"

text \<open>A command is answered with a reply and leaves a value, or it is refused and changes nothing.\<close>

definition answered :: "redisReply \<Rightarrow> rvalue option \<Rightarrow> redisReply \<Rightarrow> rvalue option \<Rightarrow> bool" where
  "answered r0 v0 r v' \<longleftrightarrow> r = r0 \<and> v' = v0"

definition refusal :: "redisReply \<Rightarrow> bool" where
  "refusal r \<longleftrightarrow>
     (\<exists>msg. r = RedisReply 6 0 (''ERR '' @ msg) [] \<or> r = RedisReply 6 0 (''WRONGTYPE '' @ msg) [])"

definition refused :: "rvalue option \<Rightarrow> redisReply \<Rightarrow> rvalue option \<Rightarrow> bool" where
  "refused v r v' \<longleftrightarrow> v' = v \<and> refusal r"

text \<open>Adding to a number held as text.\<close>

definition count_on :: "int \<Rightarrow> string option \<Rightarrow> int option" where
  "count_on d s = (case number_in s of
     None \<Rightarrow> None | Some i \<Rightarrow> if in_64 (i + d) then Some (i + d) else None)"

definition counted :: "int \<Rightarrow> rvalue option \<Rightarrow> redisReply \<Rightarrow> rvalue option \<Rightarrow> bool" where
  "counted d v =
     (if fits ''string'' v then
        (case count_on d (str_of v) of
           None \<Rightarrow> refused v
         | Some i \<Rightarrow> answered (num_reply i) (Some (Str_val (int_to_dec i))))
      else refused v)"

text \<open>Scores are exact up to \<open>2 ^ 53\<close>; nothing is said of a sum beyond.\<close>

definition exact_score :: "int \<Rightarrow> bool" where
  "exact_score s \<longleftrightarrow> \<bar>s\<bar> \<le> 2 ^ 53"

definition zsum :: "c_int \<Rightarrow> string \<Rightarrow> (int \<times> string) list \<Rightarrow> int" where
  "zsum n x z = (case zfind x z of None \<Rightarrow> 0 | Some s \<Rightarrow> s) + sint n"

section \<open>What a command does\<close>

fun served_string :: "string_cmd \<Rightarrow> rvalue option \<Rightarrow> redisReply \<Rightarrow> rvalue option \<Rightarrow> bool" where
  "served_string EXISTS v = answered (num_reply (if v = None then 0 else 1)) v"
| "served_string TYPE_OF v = answered (RedisReply 5 0 (kind v) []) v"
| "served_string (EXPIRE n) v =
     (if v = None then answered (num_reply 0) None
      else answered (num_reply 1) (if sint n \<le> 0 then None else v))"
| "served_string (SET x) v = answered ok_reply (Some (Str_val x))"
| "served_string (SETNX x) v =
     (if v = None then answered (num_reply 1) (Some (Str_val x)) else answered (num_reply 0) v)"
| "served_string (SETEX n x) v = (if sint n \<le> 0 then refused v else answered ok_reply (Some (Str_val x)))"
| "served_string GET v = (if fits ''string'' v then answered (bulk_reply (str_of v)) v else refused v)"
| "served_string (GETSET x) v =
     (if fits ''string'' v then answered (bulk_reply (str_of v)) (Some (Str_val x)) else refused v)"
| "served_string (SETBIT i b) v =
     (if fits ''string'' v \<and> 0 \<le> sint i then
        (let s = or_empty (str_of v); j = nat (sint i)
         in answered (num_reply (of_bool (str_bit s j))) (Some (Str_val (put_bit s j b))))
      else refused v)"
| "served_string (GETBIT i) v =
     (if fits ''string'' v \<and> 0 \<le> sint i
      then answered (num_reply (of_bool (str_bit (or_empty (str_of v)) (nat (sint i))))) v else refused v)"
| "served_string BITCOUNT v =
     (if fits ''string'' v then answered (num_reply (int (bits_set (or_empty (str_of v))))) v else refused v)"
| "served_string INCR v = counted 1 v"
| "served_string DECR v = counted (- 1) v"
| "served_string (INCRBY n) v = counted (sint n) v"
| "served_string (DECRBY n) v = counted (- sint n) v"
| "served_string (APPEND x) v =
     (let s = or_empty (str_of v) @ x
      in if fits ''string'' v \<and> length s \<le> 536870912
         then answered (num_reply (int (length s))) (Some (Str_val s)) else refused v)"

fun served_list :: "list_cmd \<Rightarrow> rvalue option \<Rightarrow> redisReply \<Rightarrow> rvalue option \<Rightarrow> bool" where
  "served_list (LPUSH xs) v =
     (let ys = rev xs @ list_of v
      in if xs = [] then refused v else answered (num_reply (int (length ys))) (Some (List_val ys)))"
| "served_list (RPUSH xs) v =
     (let ys = list_of v @ xs
      in if xs = [] then refused v else answered (num_reply (int (length ys))) (Some (List_val ys)))"
| "served_list LLEN v = answered (num_reply (int (length (list_of v)))) v"
| "served_list (LRANGE i j) v = answered (strs_reply (slice (sint i) (sint j) (list_of v))) v"
| "served_list (LTRIM i j) v = answered ok_reply (put_list (slice (sint i) (sint j) (list_of v)))"
| "served_list (LSET i x) v =
     (let n = length (list_of v); j = from_end n (sint i)
      in if 0 \<le> j \<and> j < int n then answered ok_reply (Some (List_val ((list_of v)[nat j := x]))) else refused v)"
| "served_list (LREM n x) v =
     (let ys = list_remove (sint n) x (list_of v)
      in answered (num_reply (int (length (list_of v) - length ys))) (put_list ys))"
| "served_list LPOP v =
     (case list_of v of
        [] \<Rightarrow> answered (bulk_reply None) v
      | x # ys \<Rightarrow> answered (bulk_reply (Some x)) (put_list ys))"
| "served_list RPOP v =
     (if list_of v = [] then answered (bulk_reply None) v
      else answered (bulk_reply (Some (last (list_of v)))) (put_list (butlast (list_of v))))"

fun served_set :: "set_cmd \<Rightarrow> rvalue option \<Rightarrow> redisReply \<Rightarrow> rvalue option \<Rightarrow> bool" where
  "served_set (SADD xs) v =
     (if xs = [] then refused v
      else answered (num_reply (int (card (set xs - set_of v)))) (Some (Set_val (set_of v \<union> set xs))))"
| "served_set (SREM x) v =
     (if x \<in> set_of v then answered (num_reply 1) (put_set (set_of v - {x})) else answered (num_reply 0) v)"
| "served_set SPOP v =
     (if set_of v = {} then answered (bulk_reply None) v
      else (\<lambda>r v'. \<exists>x \<in> set_of v. answered (bulk_reply (Some x)) (put_set (set_of v - {x})) r v'))"
| "served_set SRANDMEMBER v =
     (if set_of v = {} then answered (bulk_reply None) v
      else (\<lambda>r v'. \<exists>x \<in> set_of v. answered (bulk_reply (Some x)) v r v'))"
| "served_set SCARD v = answered (num_reply (int (card (set_of v)))) v"
| "served_set (SISMEMBER x) v = answered (num_reply (of_bool (x \<in> set_of v))) v"
| "served_set SMEMBERS v =
     (\<lambda>r v'. \<exists>xs. distinct xs \<and> set xs = set_of v \<and> answered (strs_reply xs) v r v')"

text \<open>\<open>ZREVRANGEBYSCORE\<close> takes the upper bound first.\<close>

fun served_zset :: "zset_cmd \<Rightarrow> rvalue option \<Rightarrow> redisReply \<Rightarrow> rvalue option \<Rightarrow> bool" where
  "served_zset (ZADD s x) v =
     answered (num_reply (of_bool (zfind x (zset_of v) = None))) (Some (Zset_val (zput (sint s) x (zset_of v))))"
| "served_zset (ZREM x) v =
     (if zfind x (zset_of v) = None then answered (num_reply 0) v
      else answered (num_reply 1) (put_zset (zdel x (zset_of v))))"
| "served_zset (ZINCRBY n x) v =
     (let s = zsum n x (zset_of v)
      in if exact_score s
         then answered (bulk_reply (Some (int_to_dec s))) (Some (Zset_val (zput s x (zset_of v))))
         else (\<lambda>r v'. True))"
| "served_zset (ZRANK x) v =
     (case zindex x (zset_of v) of
        None \<Rightarrow> answered (bulk_reply None) v | Some i \<Rightarrow> answered (num_reply (int i)) v)"
| "served_zset (ZREVRANK x) v =
     (case zindex x (rev (zset_of v)) of
        None \<Rightarrow> answered (bulk_reply None) v | Some i \<Rightarrow> answered (num_reply (int i)) v)"
| "served_zset (ZRANGE i j w) v = answered (strs_reply (zlist w (slice (sint i) (sint j) (zset_of v)))) v"
| "served_zset (ZREVRANGE i j w) v = answered (strs_reply (zlist w (slice (sint i) (sint j) (rev (zset_of v))))) v"
| "served_zset (ZRANGEBYSCORE a b w) v = answered (strs_reply (zlist w (zwithin a b (zset_of v)))) v"
| "served_zset (ZREVRANGEBYSCORE a b w) v = answered (strs_reply (zlist w (zwithin b a (rev (zset_of v))))) v"
| "served_zset (ZCOUNT a b) v = answered (num_reply (int (length (zwithin (sint a) (sint b) (zset_of v))))) v"
| "served_zset ZCARD v = answered (num_reply (int (length (zset_of v)))) v"
| "served_zset (ZSCORE x) v = answered (bulk_reply (map_option int_to_dec (zfind x (zset_of v)))) v"
| "served_zset (ZREMRANGEBYRANK i j) v =
     (let z = slice (sint i) (sint j) (zset_of v)
      in answered (num_reply (int (length z))) (put_zset (filter (\<lambda>p. p \<notin> set z) (zset_of v))))"
| "served_zset (ZREMRANGEBYSCORE a b) v =
     (let z = zwithin (sint a) (sint b) (zset_of v)
      in answered (num_reply (int (length z))) (put_zset (filter (\<lambda>p. p \<notin> set z) (zset_of v))))"

fun served_hash :: "hash_cmd \<Rightarrow> rvalue option \<Rightarrow> redisReply \<Rightarrow> rvalue option \<Rightarrow> bool" where
  "served_hash (HSET f x) v =
     answered (num_reply (of_bool (hash_of v f = None))) (Some (Hash_val ((hash_of v)(f \<mapsto> x))))"
| "served_hash (HGET f) v = answered (bulk_reply (hash_of v f)) v"
| "served_hash (HMGET fs) v =
     (if fs = [] then refused v else answered (RedisReply 2 0 [] (map (bulk_reply \<circ> hash_of v) fs)) v)"
| "served_hash (HMSET kvs) v =
     (if kvs = [] then refused v else answered ok_reply (Some (Hash_val (hash_of v ++ map_of (rev kvs)))))"
| "served_hash (HINCRBY f n) v =
     (case count_on (sint n) (hash_of v f) of
        None \<Rightarrow> refused v
      | Some i \<Rightarrow> answered (num_reply i) (Some (Hash_val ((hash_of v)(f \<mapsto> int_to_dec i)))))"
| "served_hash (HEXISTS f) v = answered (num_reply (of_bool (hash_of v f \<noteq> None))) v"
| "served_hash (HDEL f) v =
     (if hash_of v f = None then answered (num_reply 0) v
      else answered (num_reply 1) (put_hash ((hash_of v)(f := None))))"
| "served_hash HLEN v = answered (num_reply (int (card (dom (hash_of v))))) v"
| "served_hash HKEYS v =
     (\<lambda>r v'. \<exists>fs. distinct fs \<and> set fs = dom (hash_of v) \<and> answered (strs_reply fs) v r v')"
| "served_hash HVALS v =
     (\<lambda>r v'. \<exists>fs. distinct fs \<and> set fs = dom (hash_of v) \<and>
        answered (strs_reply (map (the \<circ> hash_of v) fs)) v r v')"
| "served_hash HGETALL v =
     (\<lambda>r v'. \<exists>fs. distinct fs \<and> set fs = dom (hash_of v) \<and>
        answered (strs_reply (concat (map (\<lambda>f. [f, the (hash_of v f)]) fs))) v r v')"

text \<open>A command on a key of another type is refused; the commands on strings decide for themselves.\<close>

fun served :: "key_cmd \<Rightarrow> rvalue option \<Rightarrow> redisReply \<Rightarrow> rvalue option \<Rightarrow> bool" where
  "served (String_cmd c) v = served_string c v"
| "served (List_cmd c) v = (if fits ''list'' v then served_list c v else refused v)"
| "served (Set_cmd c) v = (if fits ''set'' v then served_set c v else refused v)"
| "served (Zset_cmd c) v = (if fits ''zset'' v then served_zset c v else refused v)"
| "served (Hash_cmd c) v = (if fits ''hash'' v then served_hash c v else refused v)"

section \<open>The server\<close>

text \<open>
  A server whose keys and values \<open>db\<close> reads off its state: the commands on one key, and the three on several.
  The case of a command's name does not matter.
\<close>

definition upper :: "char \<Rightarrow> char" where
  "upper c = (let n = of_char c :: nat in if 97 \<le> n \<and> n \<le> 122 then char_of (n - 32) else c)"

definition speaks_redis :: "('m \<Rightarrow> string list \<Rightarrow> redisReply \<times> 'm) \<Rightarrow> ('m \<Rightarrow> db) \<Rightarrow> bool" where
  "speaks_redis srv db \<longleftrightarrow>
     (\<forall>m cmd k. case srv m (wire cmd k) of (r, m') \<Rightarrow>
        \<exists>v'. served cmd (db m k) r v' \<and> db m' = (db m)(k := v')) \<and>
     (\<forall>m ks. ks \<noteq> [] \<longrightarrow> (case srv m (''DEL'' # ks) of (r, m') \<Rightarrow>
        r = num_reply (int (card (set ks \<inter> dom (db m)))) \<and> db m' = db m |` (- set ks))) \<and>
     (\<forall>m ks. ks \<noteq> [] \<longrightarrow> (case srv m (''MGET'' # ks) of (r, m') \<Rightarrow>
        r = RedisReply 2 0 [] (map (\<lambda>k. bulk_reply (str_of (db m k))) ks) \<and> db m' = db m)) \<and>
     (\<forall>m kvs. kvs \<noteq> [] \<longrightarrow> (case srv m (''MSET'' # pair_args kvs) of (r, m') \<Rightarrow>
        r = ok_reply \<and> db m' = db m ++ map_of (rev (map (\<lambda>(k, x). (k, Str_val x)) kvs)))) \<and>
     (\<forall>m c args. srv m (c # args) = srv m (map upper c # args))"

end
