(* ===== verification/Redis_Spec.thy ===== *)
theory Redis_Spec
  imports Redis_Commands Client_Api
begin

text \<open>
  What the client promises for all its data types: every synchronous call as an operation on the database of its
  business ID. The specification speaks of values and not of commands or replies. It shows what a caller can
  and cannot tell: reading a key of the wrong type is like reading an absent one, and most
  failures look like zero, false or the empty string.
\<close>

section \<open>Outcomes\<close>

definition gives :: "api_value \<Rightarrow> db \<Rightarrow> api_value outcome \<Rightarrow> db \<Rightarrow> bool" where
  "gives x n out m' \<longleftrightarrow> out = Ret x \<and> m' = n"

definition raises :: "db \<Rightarrow> api_value outcome \<Rightarrow> db \<Rightarrow> bool" where
  "raises m out m' \<longleftrightarrow> out = Abrupt myex \<and> m' = m"

section \<open>Keys and strings\<close>

fun key_spec :: "key_call \<Rightarrow> db \<Rightarrow> api_value outcome \<Rightarrow> db \<Rightarrow> bool" where
  "key_spec (call_exists k tt) m = gives (Bool_v (m k \<noteq> None)) m"
| "key_spec (call_del k tt) m = gives (Int_v (of_bool (m k \<noteq> None))) (m(k := None))"
| "key_spec (call_del_keys ks tt) m = gives (Int_v (of_nat (card (set ks \<inter> dom m)))) (m |` (- set ks))"
| "key_spec (call_type k tt) m = gives (Str_v (kind (m k))) m"
| "key_spec (call_expire k n tt) m =
     gives (Bool_v (m k \<noteq> None)) (if sint n \<le> 0 then m(k := None) else m)"

definition count_spec :: "int \<Rightarrow> string \<Rightarrow> db \<Rightarrow> api_value outcome \<Rightarrow> db \<Rightarrow> bool" where
  "count_spec d k m =
     (case (if fits ''string'' (m k) then count_on d (str_of (m k)) else None) of
        None \<Rightarrow> gives (Int_v 0) m
      | Some i \<Rightarrow> gives (Int_v (word_of_int i)) (m(k \<mapsto> Str_val (int_to_dec i))))"

text \<open>An index below zero is refused; \<open>mset\<close> of nothing fails; the asynchronous read is not specified here.\<close>

fun string_spec :: "string_call \<Rightarrow> db \<Rightarrow> api_value outcome \<Rightarrow> db \<Rightarrow> bool" where
  "string_spec (call_set k x tt) m =
     (if too_big x then raises m else gives (Bool_v True) (m(k \<mapsto> Str_val x)))"
| "string_spec (call_setnx k x tt) m =
     (if too_big x then raises m
      else gives (Bool_v (m k = None)) (if m k = None then m(k \<mapsto> Str_val x) else m))"
| "string_spec (call_setex k x n tt) m =
     (if too_big x then raises m
      else if sint n \<le> 0 then gives (Bool_v False) m
      else gives (Bool_v True) (m(k \<mapsto> Str_val x)))"
| "string_spec (call_get k tt) m = gives (Str_v (or_empty (str_of (m k)))) m"
| "string_spec (call_getset k x tt) m =
     (if too_big x then raises m
      else gives (Str_v (or_empty (str_of (m k)))) (if fits ''string'' (m k) then m(k \<mapsto> Str_val x) else m))"
| "string_spec (call_setbit k i b tt) m =
     (let s = or_empty (str_of (m k)); j = nat (sint i)
      in if fits ''string'' (m k) \<and> 0 \<le> sint i
         then gives (Int_v (of_bool (str_bit s j))) (m(k \<mapsto> Str_val (put_bit s j b)))
         else gives (Int_v 0) m)"
| "string_spec (call_getbit k i tt) m =
     gives (Int_v (of_bool (0 \<le> sint i \<and> str_bit (or_empty (str_of (m k))) (nat (sint i))))) m"
| "string_spec (call_bitcount k tt) m = gives (Int_v (of_nat (bits_set (or_empty (str_of (m k)))))) m"
| "string_spec (call_mget ks tt) m = gives (Strs_v (map (\<lambda>k. or_empty (str_of (m k))) ks)) m"
| "string_spec (call_mget2 ks callback) m = (\<lambda>out m'. False)"
| "string_spec (call_mset kvs tt) m =
     (if \<exists>(k, x) \<in> set kvs. too_big x then raises m
      else gives (Bool_v (kvs \<noteq> [])) (m ++ map_of (rev (map (\<lambda>(k, x). (k, Str_val x)) kvs))))"
| "string_spec (call_incr k tt) m = count_spec 1 k m"
| "string_spec (call_decr k tt) m = count_spec (- 1) k m"
| "string_spec (call_incrby k n tt) m = count_spec (sint n) k m"
| "string_spec (call_decrby k n tt) m = count_spec (- sint n) k m"
| "string_spec (call_append k x tt) m =
     (let s = or_empty (str_of (m k)) @ x
      in if too_big x then raises m
         else if fits ''string'' (m k) \<and> length s \<le> 536870912
         then gives (Long_v (of_nat (length s))) (m(k \<mapsto> Str_val s))
         else gives (Long_v 0) m)"

section \<open>Lists\<close>

definition push_spec :: "(string list \<Rightarrow> string list) \<Rightarrow> string list \<Rightarrow> string \<Rightarrow> db \<Rightarrow> api_value outcome \<Rightarrow> db \<Rightarrow> bool" where
  "push_spec f xs k m =
     (if list_ex too_big xs then raises m
      else if fits ''list'' (m k) \<and> xs \<noteq> []
      then gives (Int_v (of_nat (length (f (list_of (m k)))))) (m(k \<mapsto> List_val (f (list_of (m k)))))
      else gives (Int_v 0) m)"

fun list_spec :: "list_call \<Rightarrow> db \<Rightarrow> api_value outcome \<Rightarrow> db \<Rightarrow> bool" where
  "list_spec (call_lpush k x tt) m = push_spec ((#) x) [x] k m"
| "list_spec (call_rpush k x tt) m = push_spec (\<lambda>ys. ys @ [x]) [x] k m"
| "list_spec (call_lpush_values k xs tt) m = push_spec ((@) (rev xs)) xs k m"
| "list_spec (call_rpush_values k xs tt) m = push_spec (\<lambda>ys. ys @ xs) xs k m"
| "list_spec (call_llen k tt) m = gives (Int_v (of_nat (length (list_of (m k))))) m"
| "list_spec (call_lrange k i j tt) m = gives (Strs_v (slice (sint i) (sint j) (list_of (m k)))) m"
| "list_spec (call_ltrim k i j tt) m =
     (if fits ''list'' (m k)
      then gives (Bool_v True) (m(k := put_list (slice (sint i) (sint j) (list_of (m k)))))
      else gives (Bool_v False) m)"
| "list_spec (call_lset k i x tt) m =
     (let n = length (list_of (m k)); j = from_end n (sint i)
      in if too_big x then raises m
         else if 0 \<le> j \<and> j < int n
         then gives (Bool_v True) (m(k \<mapsto> List_val ((list_of (m k))[nat j := x])))
         else gives (Bool_v False) m)"
| "list_spec (call_lrem k n x tt) m =
     (let ys = list_remove (sint n) x (list_of (m k))
      in if fits ''list'' (m k)
         then gives (Bool_v ((of_nat (length (list_of (m k)) - length ys) :: c_llong) \<noteq> 0)) (m(k := put_list ys))
         else gives (Bool_v False) m)"
| "list_spec (call_lpop k tt) m =
     (case list_of (m k) of [] \<Rightarrow> gives (Str_v []) m | x # xs \<Rightarrow> gives (Str_v x) (m(k := put_list xs)))"
| "list_spec (call_rpop k tt) m =
     (if list_of (m k) = [] then gives (Str_v []) m
      else gives (Str_v (last (list_of (m k)))) (m(k := put_list (butlast (list_of (m k))))))"

section \<open>Sets\<close>

fun set_spec :: "set_call \<Rightarrow> db \<Rightarrow> api_value outcome \<Rightarrow> db \<Rightarrow> bool" where
  "set_spec (call_sadd k x tt) m =
     (if fits ''set'' (m k)
      then gives (Bool_v (x \<notin> set_of (m k))) (m(k \<mapsto> Set_val (insert x (set_of (m k)))))
      else gives (Bool_v False) m)"
| "set_spec (call_sadd_members k xs tt) m =
     (if fits ''set'' (m k) \<and> xs \<noteq> []
      then gives (Int_v (of_nat (card (set xs - set_of (m k))))) (m(k \<mapsto> Set_val (set_of (m k) \<union> set xs)))
      else gives (Int_v 0) m)"
| "set_spec (call_srem k x tt) m =
     (if x \<in> set_of (m k) then gives (Bool_v True) (m(k := put_set (set_of (m k) - {x})))
      else gives (Bool_v False) m)"
| "set_spec (call_spop k tt) m =
     (if set_of (m k) = {} then gives (Str_v []) m
      else (\<lambda>out m'. \<exists>x \<in> set_of (m k). gives (Str_v x) (m(k := put_set (set_of (m k) - {x}))) out m'))"
| "set_spec (call_srandmember k tt) m =
     (if set_of (m k) = {} then gives (Str_v []) m
      else (\<lambda>out m'. \<exists>x \<in> set_of (m k). gives (Str_v x) m out m'))"
| "set_spec (call_scard k tt) m = gives (Int_v (of_nat (card (set_of (m k))))) m"
| "set_spec (call_sismember k x tt) m = gives (Bool_v (x \<in> set_of (m k))) m"
| "set_spec (call_smembers k tt) m =
     (\<lambda>out m'. \<exists>xs. distinct xs \<and> set xs = set_of (m k) \<and> gives (Strs_v xs) m out m')"

section \<open>Sorted sets\<close>

text \<open>The name of the option, and what it is compared with.\<close>

definition with_scores :: "string \<Rightarrow> bool" where
  "with_scores w \<longleftrightarrow> w = ''True''"

text \<open>Taking members away, and how many they were.\<close>

definition zremove_spec :: "(int \<times> string) list \<Rightarrow> string \<Rightarrow> db \<Rightarrow> api_value outcome \<Rightarrow> db \<Rightarrow> bool" where
  "zremove_spec z k m =
     (if fits ''zset'' (m k)
      then gives (Int_v (of_nat (length z))) (m(k := put_zset (filter (\<lambda>p. p \<notin> set z) (zset_of (m k)))))
      else gives (Int_v 0) m)"

text \<open>
  The rank of an absent member is 0, the rank of the first. \<open>zrevrangebyscore\<close> hands its bounds to a command
  that takes the upper one first, so the lower one is \<open>hi\<close>.
\<close>

fun zset_spec :: "zset_call \<Rightarrow> db \<Rightarrow> api_value outcome \<Rightarrow> db \<Rightarrow> bool" where
  "zset_spec (call_zadd k s x tt) m =
     (if fits ''zset'' (m k)
      then gives (Bool_v (zfind x (zset_of (m k)) = None)) (m(k \<mapsto> Zset_val (zput (sint s) x (zset_of (m k)))))
      else gives (Bool_v False) m)"
| "zset_spec (call_zrem k x tt) m =
     (if zfind x (zset_of (m k)) = None then gives (Bool_v False) m
      else gives (Bool_v True) (m(k := put_zset (zdel x (zset_of (m k))))))"
| "zset_spec (call_zincrby k n x tt) m =
     (let s = zsum n x (zset_of (m k))
      in if \<not> fits ''zset'' (m k) then gives (Int_v 0) m
         else if exact_score s then gives (Int_v (word_of_int s)) (m(k \<mapsto> Zset_val (zput s x (zset_of (m k)))))
         else (\<lambda>out m'. \<exists>r v. out = Ret (Int_v r) \<and> m' = m(k := v)))"
| "zset_spec (call_zrank k x tt) m =
     gives (Int_v (case zindex x (zset_of (m k)) of None \<Rightarrow> 0 | Some i \<Rightarrow> of_nat i)) m"
| "zset_spec (call_zrevrank k x tt) m =
     gives (Int_v (case zindex x (rev (zset_of (m k))) of None \<Rightarrow> 0 | Some i \<Rightarrow> of_nat i)) m"
| "zset_spec (call_zrange k i j w tt) m =
     gives (Strs_v (zlist (with_scores w) (slice (sint i) (sint j) (zset_of (m k))))) m"
| "zset_spec (call_zrevrange k i j w tt) m =
     gives (Strs_v (zlist (with_scores w) (slice (sint i) (sint j) (rev (zset_of (m k)))))) m"
| "zset_spec (call_zrangebyscore k lo hi w tt) m =
     gives (Strs_v (zlist (with_scores w) (zwithin (the (redis_int lo)) (the (redis_int hi)) (zset_of (m k))))) m"
| "zset_spec (call_zrevrangebyscore k lo hi w tt) m =
     gives (Strs_v (zlist (with_scores w) (zwithin (the (redis_int hi)) (the (redis_int lo)) (rev (zset_of (m k)))))) m"
| "zset_spec (call_zcount k lo hi tt) m =
     gives (Int_v (of_nat (length (zwithin (sint lo) (sint hi) (zset_of (m k)))))) m"
| "zset_spec (call_zcard k tt) m = gives (Int_v (of_nat (length (zset_of (m k))))) m"
| "zset_spec (call_zscore k x tt) m =
     gives (Int_v (case zfind x (zset_of (m k)) of None \<Rightarrow> 0 | Some s \<Rightarrow> string2int (int_to_dec s))) m"
| "zset_spec (call_zremrangebyrank k i j tt) m = zremove_spec (slice (sint i) (sint j) (zset_of (m k))) k m"
| "zset_spec (call_zremrangebyscore k lo hi tt) m = zremove_spec (zwithin (sint lo) (sint hi) (zset_of (m k))) k m"

section \<open>Hashes\<close>

text \<open>\<open>hset\<close> says whether the field is new, \<open>hgetall\<close> adds to the vectors it is given.\<close>

fun hash_spec :: "hash_call \<Rightarrow> db \<Rightarrow> api_value outcome \<Rightarrow> db \<Rightarrow> bool" where
  "hash_spec (call_hset k f x tt) m =
     (if too_big x then raises m
      else if fits ''hash'' (m k)
      then gives (Bool_v (hash_of (m k) f = None)) (m(k \<mapsto> Hash_val ((hash_of (m k))(f \<mapsto> x))))
      else gives (Bool_v False) m)"
| "hash_spec (call_hget k f tt) m = gives (Str_v (or_empty (hash_of (m k) f))) m"
| "hash_spec (call_hmget k fs tt) m =
     gives (Strs_v (if fits ''hash'' (m k) then map (or_empty \<circ> hash_of (m k)) fs else [])) m"
| "hash_spec (call_hmset k fs xs tt) m =
     (if length fs \<noteq> length xs \<or> fs = [] then gives (Bool_v False) m
      else if list_ex too_big xs then raises m
      else if fits ''hash'' (m k)
      then gives (Bool_v True) (m(k \<mapsto> Hash_val (hash_of (m k) ++ map_of (rev (zip fs xs)))))
      else gives (Bool_v False) m)"
| "hash_spec (call_hincrby k f n tt) m =
     (case (if fits ''hash'' (m k) then count_on (sint n) (hash_of (m k) f) else None) of
        None \<Rightarrow> gives (Int_v 0) m
      | Some i \<Rightarrow> gives (Int_v (word_of_int i)) (m(k \<mapsto> Hash_val ((hash_of (m k))(f \<mapsto> int_to_dec i)))))"
| "hash_spec (call_hexists k f tt) m = gives (Bool_v (hash_of (m k) f \<noteq> None)) m"
| "hash_spec (call_hdel k f tt) m =
     (if hash_of (m k) f = None then gives (Bool_v False) m
      else gives (Bool_v True) (m(k := put_hash ((hash_of (m k))(f := None)))))"
| "hash_spec (call_hlen k tt) m = gives (Int_v (of_nat (card (dom (hash_of (m k)))))) m"
| "hash_spec (call_hkeys k tt) m =
     (\<lambda>out m'. \<exists>fs. distinct fs \<and> set fs = dom (hash_of (m k)) \<and> gives (Strs_v fs) m out m')"
| "hash_spec (call_hvals k tt) m =
     (\<lambda>out m'. \<exists>fs. distinct fs \<and> set fs = dom (hash_of (m k)) \<and>
        gives (Strs_v (map (the \<circ> hash_of (m k)) fs)) m out m')"
| "hash_spec (call_hgetall k fs xs tt) m =
     (if fits ''hash'' (m k)
      then (\<lambda>out m'. \<exists>gs. distinct gs \<and> set gs = dom (hash_of (m k)) \<and>
        gives (Pairs_v (True, fs @ gs, xs @ map (the \<circ> hash_of (m k)) gs)) m out m')
      else gives (Pairs_v (False, fs, xs)) m)"

section \<open>Commands given as words\<close>

text \<open>
  The words of a command with one key, its name in any case. What the command does is what the server documents;
  the caller gets the whole reply.
\<close>

definition reads_as :: "string list \<Rightarrow> key_cmd \<Rightarrow> string \<Rightarrow> bool" where
  "reads_as ws cmd k \<longleftrightarrow> (case ws of [] \<Rightarrow> False | c # args \<Rightarrow> map upper c # args = wire cmd k)"

definition words_spec :: "string list \<Rightarrow> db \<Rightarrow> Reply outcome \<Rightarrow> db \<Rightarrow> bool" where
  "words_spec ws m out m' \<longleftrightarrow>
     (\<exists>cmd k r v'. reads_as ws cmd k \<and> served cmd (m k) r v' \<and> out = Ret (Reply_of r) \<and> m' = m(k := v'))"

fun command_spec :: "command_call \<Rightarrow> db \<Rightarrow> api_value outcome \<Rightarrow> db \<Rightarrow> bool" where
  "command_spec (call_RedisCommand ws tt) m =
     (\<lambda>out m'. \<exists>rep. words_spec ws m (Ret rep) m' \<and> out = Ret (Reply_v rep))"
| "command_spec (call_RedisCommand_cmd c tt) m =
     (\<lambda>out m'. \<exists>rep. words_spec (cmd_args c) m (Ret rep) m' \<and> out = Ret (Reply_v rep))"
| "command_spec (call_RedisCommands cs) m =
     (\<lambda>out m'. \<exists>reps. in_turn (\<lambda>c. words_spec (cmd_args c)) cs m (Ret reps) m' \<and> out = Ret (Replies_v reps))"

definition readable :: "string list \<Rightarrow> bool" where
  "readable ws \<longleftrightarrow> (\<exists>cmd k. reads_as ws cmd k)"

section \<open>Calls\<close>

text \<open>
  Not specified: the asynchronous read, words that are no command with one key, and ranges whose bounds are not
  plain integers.
\<close>

fun specified :: "client_call \<Rightarrow> bool" where
  "specified (OnString (call_mget2 ks callback)) = False"
| "specified (OnZset (call_zrangebyscore k lo hi w tt)) = (redis_int lo \<noteq> None \<and> redis_int hi \<noteq> None)"
| "specified (OnZset (call_zrevrangebyscore k lo hi w tt)) = (redis_int lo \<noteq> None \<and> redis_int hi \<noteq> None)"
| "specified (OnCommand (call_RedisCommand ws tt)) = readable ws"
| "specified (OnCommand (call_RedisCommand_cmd c tt)) = readable (cmd_args c)"
| "specified (OnCommand (call_RedisCommands cs)) = list_all (\<lambda>c. readable (cmd_args c)) cs"
| "specified _ = True"

fun redis_spec :: "client_call \<Rightarrow> db \<Rightarrow> api_value outcome \<Rightarrow> db \<Rightarrow> bool" where
  "redis_spec (OnKey c) = key_spec c"
| "redis_spec (OnString c) = string_spec c"
| "redis_spec (OnList c) = list_spec c"
| "redis_spec (OnSet c) = set_spec c"
| "redis_spec (OnZset c) = zset_spec c"
| "redis_spec (OnHash c) = hash_spec c"
| "redis_spec (OnCommand c) = command_spec c"

end
