(* ===== verification/Redis_Refinement.thy ===== *)
theory Redis_Refinement
  imports Redis_Spec
begin

text \<open>
  Every specified call of the client implements its specification, over any server that speaks redis. One lemma
  carries a command to the database and back; each call is then the decoding of its reply.
\<close>

section \<open>The relation\<close>

text \<open>The client's database is the server's, seen through the namespace; \<open>rest\<close> is what else the server holds.\<close>

definition db_rel ::
  "'w hiredis \<Rightarrow> ('w \<Rightarrow> 'm) \<Rightarrow> ('m \<Rightarrow> string list \<Rightarrow> redisReply \<times> 'm) \<Rightarrow> ('m \<Rightarrow> db) \<Rightarrow>
   string \<Rightarrow> addr set \<Rightarrow> db \<Rightarrow> 'w cst \<Rightarrow> db \<Rightarrow> bool" where
  "db_rel H st srv db bid B rest sc m \<longleftrightarrow>
     serving H st srv bid B sc \<and>
     m = db (st (world (fst sc))) \<circ> ns_key bid \<and>
     db (st (world (fst sc))) |` (- range (ns_key bid)) = rest"

section \<open>Lemmas: commands with the prefix\<close>

lemma wire_shape:
  "\<exists>c r. wire cmd k = c # k # r \<and> c \<notin> {''MSET'', ''mset'', ''MGET'', ''mget'', ''DEL'', ''del''} \<and>
     (\<forall>k'. wire cmd k' = c # k' # r)"
proof (cases cmd)
  case (String_cmd c)
  then show ?thesis by (cases c) simp_all
next
  case (List_cmd c)
  then show ?thesis by (cases c) simp_all
next
  case (Set_cmd c)
  then show ?thesis by (cases c) simp_all
next
  case (Zset_cmd c)
  then show ?thesis by (cases c) simp_all
next
  case (Hash_cmd c)
  then show ?thesis by (cases c) simp_all
qed

lemma inner_wire: "inner_command bid (wire cmd k) = wire cmd (ns_key bid k)"
  using wire_shape [of cmd k] inner_single by metis

lemma wire_length: "2 \<le> length (wire cmd k)"
  using wire_shape [of cmd k] by auto

section \<open>Lemmas: one exchange\<close>

lemma db_rel_step:
  assumes "db_rel H st srv db bid B rest sc m" and "2 \<le> length command"
    and "srv (st (world (fst sc))) (inner_command bid command) = (r, n)"
    and "db n |` (- range (ns_key bid)) = db (st (world (fst sc))) |` (- range (ns_key bid))"
  shows "\<exists>sc'. bnd (RedisCommand H command tt) (\<lambda>rep. ret (f rep)) sc = (Ret (f (Reply_of r)), sc') \<and>
    db_rel H st srv db bid B rest sc' (db n \<circ> ns_key bid)"
proof -
  from assms(1) have "serving H st srv bid B sc" by (simp add: db_rel_def)
  from rc.decode [OF this assms(2), of tt f] obtain sc' where
    "bnd (RedisCommand H command tt) (\<lambda>rep. ret (f rep)) sc = (Ret (f (Reply_of r)), sc')"
    "serving H st srv bid B sc'" "st (world (fst sc')) = n"
    using assms(3) by (auto simp: case_prod_beta)
  then show ?thesis using assms(1,4) by (auto simp: db_rel_def)
qed

text \<open>The laws of the server.\<close>

lemma speaks_key:
  assumes "speaks_redis srv db" and "srv m (wire cmd k) = (r, m')"
  shows "\<exists>v'. served cmd (db m k) r v' \<and> db m' = (db m)(k := v')"
proof -
  have "\<forall>m cmd k. case srv m (wire cmd k) of (r, m') \<Rightarrow>
      \<exists>v'. served cmd (db m k) r v' \<and> db m' = (db m)(k := v')"
    using assms(1) [unfolded speaks_redis_def] by (rule conjunct1)
  then have "case srv m (wire cmd k) of (r, m') \<Rightarrow> \<exists>v'. served cmd (db m k) r v' \<and> db m' = (db m)(k := v')"
    by (elim allE)
  with assms(2) show ?thesis by simp
qed

lemma speaks_multi:
  assumes "speaks_redis srv db"
  shows "ks \<noteq> [] \<Longrightarrow> srv m (''DEL'' # ks) = (r, m') \<Longrightarrow>
      r = num_reply (int (card (set ks \<inter> dom (db m)))) \<and> db m' = db m |` (- set ks)"
    and "ks \<noteq> [] \<Longrightarrow> srv m (''MGET'' # ks) = (r, m') \<Longrightarrow>
      r = RedisReply 2 0 [] (map (\<lambda>k. bulk_reply (str_of (db m k))) ks) \<and> db m' = db m"
    and "kvs \<noteq> [] \<Longrightarrow> srv m (''MSET'' # pair_args kvs) = (r, m') \<Longrightarrow>
      r = ok_reply \<and> db m' = db m ++ map_of (rev (map (\<lambda>(k, x). (k, Str_val x)) kvs))"
    and "srv m (c # args) = srv m (map upper c # args)"
proof -
  note laws = assms [unfolded speaks_redis_def, THEN conjunct2]
  show "ks \<noteq> [] \<Longrightarrow> srv m (''DEL'' # ks) = (r, m') \<Longrightarrow>
      r = num_reply (int (card (set ks \<inter> dom (db m)))) \<and> db m' = db m |` (- set ks)"
    using laws [THEN conjunct1, rule_format, where ks = ks and m = m] by simp
  show "ks \<noteq> [] \<Longrightarrow> srv m (''MGET'' # ks) = (r, m') \<Longrightarrow>
      r = RedisReply 2 0 [] (map (\<lambda>k. bulk_reply (str_of (db m k))) ks) \<and> db m' = db m"
    using laws [THEN conjunct2, THEN conjunct1, rule_format, where ks = ks and m = m] by simp
  show "kvs \<noteq> [] \<Longrightarrow> srv m (''MSET'' # pair_args kvs) = (r, m') \<Longrightarrow>
      r = ok_reply \<and> db m' = db m ++ map_of (rev (map (\<lambda>(k, x). (k, Str_val x)) kvs))"
    using laws [THEN conjunct2, THEN conjunct2, THEN conjunct1, rule_format, where kvs = kvs and m = m] by simp
  show "srv m (c # args) = srv m (map upper c # args)"
    using laws [THEN conjunct2, THEN conjunct2, THEN conjunct2] by blast
qed

lemma implements_key_cmd:
  assumes S: "speaks_redis srv db"
    and P: "\<And>m r v'. served cmd (m k) r v' \<Longrightarrow> P m (Ret (f (Reply_of r))) (m(k := v'))"
  shows "implements (db_rel H st srv db bid B rest) (bnd (RedisCommand H (wire cmd k) tt) (\<lambda>rep. ret (f rep))) P"
proof (rule implementsI)
  fix sc m r sc'
  assume rel: "db_rel H st srv db bid B rest sc m"
    and run: "bnd (RedisCommand H (wire cmd k) tt) (\<lambda>rep. ret (f rep)) sc = (r, sc')"
  let ?n = "st (world (fst sc))"
  obtain reply n' where srv: "srv ?n (wire cmd (ns_key bid k)) = (reply, n')" by fastforce
  from speaks_key [OF S srv] rel obtain v' where
    v: "served cmd (m k) reply v'" and n: "db n' = (db ?n)(ns_key bid k := v')" by (auto simp: db_rel_def)
  have rest: "db n' |` (- range (ns_key bid)) = db ?n |` (- range (ns_key bid))"
    by (auto simp: n restrict_map_def)
  have m: "db n' \<circ> ns_key bid = m(k := v')" using rel by (auto simp: n db_rel_def ns_key_inj)
  from db_rel_step [OF rel wire_length _ rest, of cmd k reply tt f] srv run
  have "r = Ret (f (Reply_of reply))" "db_rel H st srv db bid B rest sc' (m(k := v'))"
    unfolding inner_wire m by auto
  with P [of m reply v', OF v] show "\<exists>t'. P m r t' \<and> db_rel H st srv db bid B rest sc' t'" by blast
qed

lemma implements_raise:
  "(\<And>m. P m (Abrupt e) m) \<Longrightarrow> implements R (abort e) P"
  unfolding implements_def by (auto simp: prog_simps)

lemma implements_value:
  "(\<And>m. P m (Ret x) m) \<Longrightarrow> implements R (ret x) P"
  unfolding implements_def by (auto simp: prog_simps)

section \<open>Lemmas: decoding replies\<close>

lemma num_sel [simp]:
  "rep_integer (Reply_of (num_reply i)) = word_of_int i" "rep_str (Reply_of (num_reply i)) = []"
  "rep_elements (Reply_of (num_reply i)) = []" "rr_type (num_reply i) = 3" "rep_error (Reply_of (num_reply i)) = False"
  by (simp_all add: num_reply_def)

lemma llong_to_int_word_of_int [simp]: "llong_to_int (word_of_int i) = word_of_int i"
  by (simp add: llong_to_int_signed signed_of_int) (rule bit_word_eqI, simp add: bit_simps)

lemma bulk_sel [simp]:
  "rep_integer (Reply_of (bulk_reply v)) = 0" "rep_error (Reply_of (bulk_reply v)) = False"
  "rep_elements (Reply_of (bulk_reply v)) = []"
  by (simp_all add: bulk_reply_def split: option.splits)

lemma strs_sel [simp]:
  "element_strs (Reply_of (strs_reply xs)) = xs" "rep_error (Reply_of (strs_reply xs)) = False"
  "rr_type (strs_reply xs) = 2"
  by (simp_all add: strs_reply_def element_strs_map comp_def or_empty_def)

lemma ok_more [simp]: "rep_integer (Reply_of ok_reply) = 0" "rep_error (Reply_of ok_reply) = False"
  by (simp_all add: ok_reply_def)

text \<open>A refusal reads as an error, no number, no elements, and a text that is no number and not \<open>OK\<close>.\<close>

lemma refusal_sel [simp]:
  assumes "refusal r"
  shows "rep_integer (Reply_of r) = 0" "rr_type r = 6" "rep_str (Reply_of r) \<noteq> ''OK''"
    "string2int (rep_str (Reply_of r)) = 0" "element_strs (Reply_of r) = []" "rep_elements (Reply_of r) = []"
  using assms
  by (auto simp: refusal_def element_strs_map string2int_def atoi_def c_str_def strtol10_def is_space_def
      is_digit_def Let_def dec_val_def clamp_long_def)

lemma implements_cmd:
  assumes "speaks_redis srv db" and "command = wire cmd k"
    and "\<And>m r v'. served cmd (m k) r v' \<Longrightarrow> P m (Ret (f (Reply_of r))) (m(k := v'))"
  shows "implements (db_rel H st srv db bid B rest) (bnd (RedisCommand H command tt) (\<lambda>rep. ret (f rep))) P"
  unfolding assms(2) using assms(1,3) by (rule implements_key_cmd)

lemmas served_simps = answered_def refused_def gives_def raises_def

lemma llong_to_int_0 [simp]: "llong_to_int 0 = 0"
  using llong_to_int_word_of_int [of 0] by simp

lemma llong_to_int_hom [simp]:
  "llong_to_int (a + b) = llong_to_int a + llong_to_int b" "llong_to_int 1 = 1"
proof -
  show "llong_to_int (a + b) = llong_to_int a + llong_to_int b"
    using llong_to_int_word_of_int [of "uint a + uint b"] llong_to_int_word_of_int [of "uint a"]
      llong_to_int_word_of_int [of "uint b"] by simp
  show "llong_to_int 1 = 1" using llong_to_int_word_of_int [of 1] by simp
qed

text \<open>A key of another type reads as an absent one.\<close>

lemma reads_empty [simp]:
  "\<not> fits ''string'' v \<Longrightarrow> str_of v = None" "\<not> fits ''list'' v \<Longrightarrow> list_of v = []"
  "\<not> fits ''set'' v \<Longrightarrow> set_of v = {}" "\<not> fits ''zset'' v \<Longrightarrow> zset_of v = []"
  "\<not> fits ''hash'' v \<Longrightarrow> hash_of v = Map.empty"
  by (cases v rule: kind.cases; simp add: fits_def)+

text \<open>How a call is proved: it sends a command, and the reply to that decodes to what the specification says.\<close>

lemmas call_simps = value_of_def command_simps RedisCommand_cmd_def bnd_assoc bnd_ret

section \<open>Lists\<close>

lemma checked_calls_result:
  "checked_calls comm xs = (if list_ex too_big xs then abort myex else ret (Command_calls comm xs))"
  by (induction comm xs rule: checked_calls.induct) (auto simp: Command_calls_def)

lemma implements_list_call:
  assumes "speaks_redis srv db"
  shows "implements (db_rel H st srv db bid B rest) (client_list_run H this c) (list_spec c)"
proof (cases c)
  case (call_llen k tt)
  show ?thesis unfolding call_llen
    by (simp add: CodisClient_llen_def call_simps, rule implements_cmd [OF assms, where cmd = "List_cmd LLEN" and k = k])
      (auto simp: served_simps split: if_splits)
next
  case (call_lrange k i j tt)
  show ?thesis unfolding call_lrange
    by (simp add: CodisClient_lrange_def call_simps, rule implements_cmd [OF assms, where cmd = "List_cmd (LRANGE i j)" and k = k])
      (auto simp: served_simps slice_def split: if_splits)
next
  case (call_ltrim k i j tt)
  show ?thesis unfolding call_ltrim
    by (simp add: CodisClient_ltrim_def call_simps, rule implements_cmd [OF assms, where cmd = "List_cmd (LTRIM i j)" and k = k])
      (auto simp: served_simps split: if_splits)
next
  case (call_lset k i x tt)
  show ?thesis unfolding call_lset
    by (cases "too_big x", simp add: CodisClient_lset_def prog_simps implements_raise raises_def value_of_def,
       simp add: CodisClient_lset_def call_simps, rule implements_cmd [OF assms, where cmd = "List_cmd (LSET i x)" and k = k])
      (auto simp: served_simps Let_def split: if_splits)
next
  case (call_lrem k n x tt)
  show ?thesis unfolding call_lrem
    by (simp add: CodisClient_lrem_def call_simps, rule implements_cmd [OF assms, where cmd = "List_cmd (LREM n x)" and k = k])
      (auto simp: served_simps Let_def split: if_splits)
next
  case (call_lpop k tt)
  show ?thesis unfolding call_lpop
    by (simp add: CodisClient_lpop_def call_simps, rule implements_cmd [OF assms, where cmd = "List_cmd LPOP" and k = k])
      (auto simp: served_simps or_empty_def split: if_splits list.splits)
next
  case (call_rpop k tt)
  show ?thesis unfolding call_rpop
    by (simp add: CodisClient_rpop_def call_simps, rule implements_cmd [OF assms, where cmd = "List_cmd RPOP" and k = k])
      (auto simp: served_simps or_empty_def split: if_splits)
next
  case (call_lpush k x tt)
  show ?thesis unfolding call_lpush
    by (cases "too_big x", simp add: CodisClient_lpush_def prog_simps implements_raise push_spec_def raises_def value_of_def,
       simp add: CodisClient_lpush_def call_simps, rule implements_cmd [OF assms, where cmd = "List_cmd (LPUSH [x])" and k = k])
      (auto simp: served_simps Let_def push_spec_def split: if_splits)
next
  case (call_rpush k x tt)
  show ?thesis unfolding call_rpush
    by (cases "too_big x", simp add: CodisClient_rpush_def prog_simps implements_raise push_spec_def raises_def value_of_def,
       simp add: CodisClient_rpush_def call_simps, rule implements_cmd [OF assms, where cmd = "List_cmd (RPUSH [x])" and k = k])
      (auto simp: served_simps Let_def push_spec_def split: if_splits)
next
  case (call_lpush_values k xs tt)
  show ?thesis unfolding call_lpush_values
    by (cases "list_ex too_big xs", simp add: CodisClient_lpush_values_def checked_calls_result prog_simps
          implements_raise push_spec_def raises_def value_of_def,
       simp add: CodisClient_lpush_values_def checked_calls_result call_simps,
       rule implements_cmd [OF assms, where cmd = "List_cmd (LPUSH xs)" and k = k])
      (auto simp: served_simps Let_def push_spec_def split: if_splits)
next
  case (call_rpush_values k xs tt)
  show ?thesis unfolding call_rpush_values
    by (cases "list_ex too_big xs", simp add: CodisClient_rpush_values_def checked_calls_result prog_simps
          implements_raise push_spec_def raises_def value_of_def,
       simp add: CodisClient_rpush_values_def checked_calls_result call_simps,
       rule implements_cmd [OF assms, where cmd = "List_cmd (RPUSH xs)" and k = k])
      (auto simp: served_simps Let_def push_spec_def split: if_splits)
qed

section \<open>Sets\<close>

lemma smembers_decoded:
  assumes "served (Set_cmd SMEMBERS) v r v'"
  shows "v' = v \<and> distinct (element_strs (Reply_of r)) \<and> set (element_strs (Reply_of r)) = set_of v"
proof (cases "fits ''set'' v")
  case True
  with assms show ?thesis by (clarsimp simp: answered_def)
next
  case False
  with assms show ?thesis by (simp add: refused_def)
qed

lemma implements_set_call:
  assumes "speaks_redis srv db"
  shows "implements (db_rel H st srv db bid B rest) (client_set_run H this c) (set_spec c)"
proof (cases c)
  case (call_sadd k x tt)
  show ?thesis unfolding call_sadd
    by (simp add: CodisClient_sadd_def call_simps, rule implements_cmd [OF assms, where cmd = "Set_cmd (SADD [x])" and k = k])
      (auto simp: served_simps insert_Diff_if split: if_splits)
next
  case (call_sadd_members k xs tt)
  show ?thesis unfolding call_sadd_members
    by (simp add: CodisClient_sadd_members_def call_simps, rule implements_cmd [OF assms, where cmd = "Set_cmd (SADD xs)" and k = k])
      (auto simp: served_simps  split: if_splits)
next
  case (call_srem k x tt)
  show ?thesis unfolding call_srem
    by (simp add: CodisClient_srem_def call_simps, rule implements_cmd [OF assms, where cmd = "Set_cmd (SREM x)" and k = k])
      (auto simp: served_simps  split: if_splits)
next
  case (call_spop k tt)
  show ?thesis unfolding call_spop
    by (simp add: CodisClient_spop_def call_simps, rule implements_cmd [OF assms, where cmd = "Set_cmd SPOP" and k = k])
      (auto simp: served_simps or_empty_def split: if_splits)
next
  case (call_srandmember k tt)
  show ?thesis unfolding call_srandmember
    by (simp add: CodisClient_srandmember_def call_simps, rule implements_cmd [OF assms, where cmd = "Set_cmd SRANDMEMBER" and k = k])
      (auto simp: served_simps or_empty_def split: if_splits)
next
  case (call_scard k tt)
  show ?thesis unfolding call_scard
    by (simp add: CodisClient_scard_def call_simps, rule implements_cmd [OF assms, where cmd = "Set_cmd SCARD" and k = k])
      (auto simp: served_simps  split: if_splits)
next
  case (call_sismember k x tt)
  show ?thesis unfolding call_sismember
    by (simp add: CodisClient_sismember_def call_simps, rule implements_cmd [OF assms, where cmd = "Set_cmd (SISMEMBER x)" and k = k])
      (auto simp: served_simps  split: if_splits)
next
  case (call_smembers k tt)
  show ?thesis unfolding call_smembers
    by (simp add: CodisClient_smembers_def call_simps, rule implements_cmd [OF assms, where cmd = "Set_cmd SMEMBERS" and k = k])
      (simp, drule smembers_decoded, simp add: gives_def)
qed

section \<open>Hashes\<close>

text \<open>The loop of \<open>hgetall\<close> takes fields and values apart again.\<close>

lemma hgetall_strs:
  "hgetall_loop (rep_elements (Reply_of (strs_reply (concat (map (\<lambda>f. [f, h f]) gs))))) fs xs = (fs @ gs, xs @ map h gs)"
  by (induction gs arbitrary: fs xs) (simp_all add: strs_reply_def bulk_reply_def)

lemma checked_pairs_run:
  "checked_pairs comm kvs =
     (if \<exists>(k, v) \<in> set kvs. too_big v then abort myex else ret (Command_calls comm (pair_args kvs)))"
  by (rule ext) (auto simp: checked_pairs_result prog_simps)

lemma zip_big:
  "length fs = length xs \<Longrightarrow> (\<exists>(k, v) \<in> set (zip fs xs). too_big v) \<longleftrightarrow> list_ex too_big xs"
  by (induction fs xs rule: list_induct2) auto

lemma implements_hmset:
  assumes "speaks_redis srv db"
  shows "implements (db_rel H st srv db bid B rest) (client_hash_run H this (call_hmset k fs xs tt)) (hash_spec (call_hmset k fs xs tt))"
proof -
  consider (none) "length fs \<noteq> length xs \<or> fs = []" | (big) "length fs = length xs" "fs \<noteq> []" "list_ex too_big xs"
    | (some) "length fs = length xs" "fs \<noteq> []" "\<not> list_ex too_big xs" by blast
  then show ?thesis
  proof cases
    case none
    then show ?thesis
      by (auto simp: CodisClient_hmset_def call_simps gives_def intro!: implements_value)
  next
    case big
    then show ?thesis
      by (simp add: CodisClient_hmset_def value_of_def checked_pairs_run zip_big prog_simps implements_raise raises_def)
  next
    case some
    then show ?thesis
      by (simp add: CodisClient_hmset_def call_simps checked_pairs_run zip_big,
          intro implements_cmd [OF assms, where cmd = "Hash_cmd (HMSET (zip fs xs))" and k = k])
        (auto simp: served_simps split: if_splits)
  qed
qed

lemma implements_hash_call:
  assumes "speaks_redis srv db"
  shows "implements (db_rel H st srv db bid B rest) (client_hash_run H this c) (hash_spec c)"
proof (cases c)
  case (call_hset k f x tt)
  show ?thesis unfolding call_hset
    by (cases "too_big x", simp add: CodisClient_hset_def prog_simps implements_raise raises_def value_of_def,
       simp add: CodisClient_hset_def call_simps, rule implements_cmd [OF assms, where cmd = "Hash_cmd (HSET f x)" and k = k])
      (auto simp: served_simps split: if_splits)
next
  case (call_hget k f tt)
  show ?thesis unfolding call_hget
    by (simp add: CodisClient_hget_def call_simps, rule implements_cmd [OF assms, where cmd = "Hash_cmd (HGET f)" and k = k])
      (auto simp: served_simps or_empty_def split: if_splits)
next
  case (call_hmget k fs tt)
  show ?thesis unfolding call_hmget
    by (simp add: CodisClient_hmget_def call_simps, rule implements_cmd [OF assms, where cmd = "Hash_cmd (HMGET fs)" and k = k])
      (auto simp: served_simps element_strs_map split: if_splits)
next
  case (call_hmset k fs xs tt)
  then show ?thesis using implements_hmset [OF assms] by simp
next
  case (call_hincrby k f n tt)
  show ?thesis unfolding call_hincrby
    by (simp add: CodisClient_hincrby_def call_simps, rule implements_cmd [OF assms, where cmd = "Hash_cmd (HINCRBY f n)" and k = k])
      (auto simp: served_simps  split: if_splits option.splits)
next
  case (call_hexists k f tt)
  show ?thesis unfolding call_hexists
    by (simp add: CodisClient_hexists_def call_simps, rule implements_cmd [OF assms, where cmd = "Hash_cmd (HEXISTS f)" and k = k])
      (auto simp: served_simps  split: if_splits)
next
  case (call_hdel k f tt)
  show ?thesis unfolding call_hdel
    by (simp add: CodisClient_hdel_def call_simps, rule implements_cmd [OF assms, where cmd = "Hash_cmd (HDEL f)" and k = k])
      (auto simp: served_simps  split: if_splits)
next
  case (call_hlen k tt)
  show ?thesis unfolding call_hlen
    by (simp add: CodisClient_hlen_def call_simps, rule implements_cmd [OF assms, where cmd = "Hash_cmd HLEN" and k = k])
      (auto simp: served_simps  split: if_splits)
next
  case (call_hkeys k tt)
  show ?thesis unfolding call_hkeys
    by (simp add: CodisClient_hkeys_def call_simps, rule implements_cmd [OF assms, where cmd = "Hash_cmd HKEYS" and k = k])
      (auto simp: served_simps  split: if_splits)
next
  case (call_hvals k tt)
  show ?thesis unfolding call_hvals
    by (simp add: CodisClient_hvals_def call_simps, rule implements_cmd [OF assms, where cmd = "Hash_cmd HVALS" and k = k])
      (auto simp: served_simps  split: if_splits)
next
  case (call_hgetall k fs xs tt)
  show ?thesis unfolding call_hgetall
    by (simp add: CodisClient_hgetall_def call_simps, rule implements_cmd [OF assms, where cmd = "Hash_cmd HGETALL" and k = k])
      (auto simp: served_simps hgetall_strs split: if_splits)
qed

section \<open>Sorted sets\<close>

lemma redis_int_Some: "redis_int s = Some i \<Longrightarrow> s = int_to_dec i"
  by (auto simp: redis_int_def Let_def split: if_splits)

lemma string2int_int_to_dec: "in_64 i \<Longrightarrow> string2int (int_to_dec i) = word_of_int i"
proof -
  assume i: "in_64 i"
  have "CHR 0x00 \<notin> set (int_to_dec i)"
    using nat_to_dec_digits [of "CHR 0x00"] by (auto simp: int_to_dec_def is_digit_def)
  then have "c_str (int_to_dec i) = int_to_dec i" by (simp add: c_str_def takeWhile_eq_all_conv) metis
  with i strtol10_int_to_dec [of "[]" i] show ?thesis by (simp add: string2int_def atoi_def in_64_def)
qed

lemma exact_score_string: "exact_score s \<Longrightarrow> string2int (int_to_dec s) = word_of_int s"
  by (rule string2int_int_to_dec) (auto simp: exact_score_def in_64_def)

lemma string2int_Nil [simp]: "string2int [] = 0"
  by (simp add: string2int_def atoi_def c_str_def strtol10_def is_space_def)

lemma zlist_empty [simp]: "zlist w [] = []" "slice i j [] = []" "zwithin a b [] = []"
  by (simp_all add: zlist_def slice_def zwithin_def)

lemma implements_zset_call:
  assumes "speaks_redis srv db" and "specified (OnZset c)"
  shows "implements (db_rel H st srv db bid B rest) (client_zset_run H this c) (zset_spec c)"
proof (cases c)
  case (call_zadd k s x tt)
  show ?thesis unfolding call_zadd
    by (simp add: CodisClient_zadd_def call_simps, rule implements_cmd [OF assms(1), where cmd = "Zset_cmd (ZADD s x)" and k = k])
      (auto simp: served_simps  split: if_splits)
next
  case (call_zrem k x tt)
  show ?thesis unfolding call_zrem
    by (simp add: CodisClient_zrem_def call_simps, rule implements_cmd [OF assms(1), where cmd = "Zset_cmd (ZREM x)" and k = k])
      (auto simp: served_simps  split: if_splits)
next
  case (call_zincrby k n x tt)
  show ?thesis unfolding call_zincrby
    by (simp add: CodisClient_zincrby_def call_simps, rule implements_cmd [OF assms(1), where cmd = "Zset_cmd (ZINCRBY n x)" and k = k])
      (auto simp: served_simps Let_def exact_score_string or_empty_def split: if_splits)
next
  case (call_zrank k x tt)
  show ?thesis unfolding call_zrank
    by (simp add: CodisClient_zrank_def call_simps, rule implements_cmd [OF assms(1), where cmd = "Zset_cmd (ZRANK x)" and k = k])
      (auto simp: served_simps  split: if_splits option.splits)
next
  case (call_zrevrank k x tt)
  show ?thesis unfolding call_zrevrank
    by (simp add: CodisClient_zrevrank_def call_simps, rule implements_cmd [OF assms(1), where cmd = "Zset_cmd (ZREVRANK x)" and k = k])
      (auto simp: served_simps  split: if_splits option.splits)
next
  case (call_zrange k i j w tt)
  show ?thesis unfolding call_zrange
    by (cases "w = ''True''"; simp add: CodisClient_zrange_def call_simps;
        rule implements_cmd [OF assms(1), where cmd = "Zset_cmd (ZRANGE i j (with_scores w))" and k = k])
      (auto simp: served_simps with_scores_def scores_arg_def zlist_empty split: if_splits)
next
  case (call_zrevrange k i j w tt)
  show ?thesis unfolding call_zrevrange
    by (cases "w = ''True''"; simp add: CodisClient_zrevrange_def call_simps;
        rule implements_cmd [OF assms(1), where cmd = "Zset_cmd (ZREVRANGE i j (with_scores w))" and k = k])
      (auto simp: served_simps with_scores_def scores_arg_def zlist_empty split: if_splits)
next
  case (call_zrangebyscore k lo hi w tt)
  with assms(2) obtain a b where "redis_int lo = Some a" "redis_int hi = Some b" by auto
  then have bounds: "redis_int lo = Some a" "redis_int hi = Some b" "lo = int_to_dec a" "hi = int_to_dec b"
    by (simp_all add: redis_int_Some)
  show ?thesis unfolding call_zrangebyscore
    by (cases "w = ''True''"; simp add: CodisClient_zrangebyscore_def call_simps;
        rule implements_cmd [OF assms(1), where cmd = "Zset_cmd (ZRANGEBYSCORE a b (with_scores w))" and k = k])
      (auto simp: served_simps with_scores_def scores_arg_def zlist_empty bounds(1,2) bounds(3,4) [symmetric] split: if_splits)
next
  case (call_zrevrangebyscore k lo hi w tt)
  with assms(2) obtain a b where "redis_int lo = Some a" "redis_int hi = Some b" by auto
  then have bounds: "redis_int lo = Some a" "redis_int hi = Some b" "lo = int_to_dec a" "hi = int_to_dec b"
    by (simp_all add: redis_int_Some)
  show ?thesis unfolding call_zrevrangebyscore
    by (cases "w = ''True''"; simp add: CodisClient_zrevrangebyscore_def call_simps;
        rule implements_cmd [OF assms(1), where cmd = "Zset_cmd (ZREVRANGEBYSCORE a b (with_scores w))" and k = k])
      (auto simp: served_simps with_scores_def scores_arg_def zlist_empty bounds(1,2) bounds(3,4) [symmetric] split: if_splits)
next
  case (call_zcount k a b tt)
  show ?thesis unfolding call_zcount
    by (simp add: CodisClient_zcount_def call_simps, rule implements_cmd [OF assms(1), where cmd = "Zset_cmd (ZCOUNT a b)" and k = k])
      (auto simp: served_simps zwithin_def split: if_splits)
next
  case (call_zcard k tt)
  show ?thesis unfolding call_zcard
    by (simp add: CodisClient_zcard_def call_simps, rule implements_cmd [OF assms(1), where cmd = "Zset_cmd ZCARD" and k = k])
      (auto simp: served_simps  split: if_splits)
next
  case (call_zscore k x tt)
  show ?thesis unfolding call_zscore
    by (simp add: CodisClient_zscore_def call_simps, rule implements_cmd [OF assms(1), where cmd = "Zset_cmd (ZSCORE x)" and k = k])
      (auto simp: served_simps or_empty_def split: if_splits option.splits)
next
  case (call_zremrangebyrank k i j tt)
  show ?thesis unfolding call_zremrangebyrank
    by (simp add: CodisClient_zremrangebyrank_def call_simps, rule implements_cmd [OF assms(1), where cmd = "Zset_cmd (ZREMRANGEBYRANK i j)" and k = k])
      (auto simp: served_simps Let_def zremove_spec_def split: if_splits)
next
  case (call_zremrangebyscore k a b tt)
  show ?thesis unfolding call_zremrangebyscore
    by (simp add: CodisClient_zremrangebyscore_def call_simps, rule implements_cmd [OF assms(1), where cmd = "Zset_cmd (ZREMRANGEBYSCORE a b)" and k = k])
      (auto simp: served_simps Let_def zremove_spec_def split: if_splits)
qed

section \<open>Keys\<close>

lemma implements_exchange:
  assumes "2 \<le> length command"
    and "\<And>n r n'. srv n (inner_command bid command) = (r, n') \<Longrightarrow>
      P (db n \<circ> ns_key bid) (Ret (f (Reply_of r))) (db n' \<circ> ns_key bid) \<and>
      db n' |` (- range (ns_key bid)) = db n |` (- range (ns_key bid))"
  shows "implements (db_rel H st srv db bid B rest) (bnd (RedisCommand H command tt) (\<lambda>rep. ret (f rep))) P"
proof (rule implementsI)
  fix sc m r sc'
  assume rel: "db_rel H st srv db bid B rest sc m"
    and run: "bnd (RedisCommand H command tt) (\<lambda>rep. ret (f rep)) sc = (r, sc')"
  let ?n = "st (world (fst sc))"
  obtain reply n' where srv: "srv ?n (inner_command bid command) = (reply, n')" by fastforce
  have m: "m = db ?n \<circ> ns_key bid" using rel by (simp add: db_rel_def)
  note step = assms(2) [OF srv]
  from db_rel_step [OF rel assms(1) srv step [THEN conjunct2], of tt f] run step
  show "\<exists>t'. P m r t' \<and> db_rel H st srv db bid B rest sc' t'" unfolding m by auto
qed

lemma card_present: "card ({k} \<inter> dom m) = of_bool (m k \<noteq> None)"
  by (cases "m k") (auto simp: Int_insert_left)

lemma implements_del:
  assumes S: "speaks_redis srv db" and "ks \<noteq> []"
    and P: "\<And>m. P m (Ret (f (Reply_of (num_reply (int (card (set ks \<inter> dom m))))))) (m |` (- set ks))"
  shows "implements (db_rel H st srv db bid B rest) (bnd (RedisCommand H (''DEL'' # ks) tt) (\<lambda>rep. ret (f rep))) P"
proof (rule implements_exchange)
  fix n r n'
  assume "srv n (inner_command bid (''DEL'' # ks)) = (r, n')"
  then have "srv n (''DEL'' # map (ns_key bid) ks) = (r, n')" by (simp add: inner_many)
  from speaks_multi(1) [OF S _ this] assms(2)
  have r: "r = num_reply (int (card (ns_key bid ` set ks \<inter> dom (db n))))" and
    n: "db n' = db n |` (- ns_key bid ` set ks)" by auto
  show "P (db n \<circ> ns_key bid) (Ret (f (Reply_of r))) (db n' \<circ> ns_key bid) \<and>
      db n' |` (- range (ns_key bid)) = db n |` (- range (ns_key bid))"
    using P [of "db n \<circ> ns_key bid"] by (simp add: r n ns_card ns_del ns_del_rest)
qed (use assms(2) in \<open>cases ks; simp\<close>)

lemma implements_key_call:
  assumes "speaks_redis srv db"
  shows "implements (db_rel H st srv db bid B rest) (client_key_run H this c) (key_spec c)"
proof (cases c)
  case (call_exists k tt)
  show ?thesis unfolding call_exists
    by (simp add: CodisClient_exists_def call_simps, rule implements_cmd [OF assms, where cmd = "String_cmd EXISTS" and k = k])
      (auto simp: served_simps  split: if_splits)
next
  case (call_del k tt)
  show ?thesis unfolding call_del
    by (simp add: CodisClient_del_def call_simps, rule implements_del [OF assms])
      (auto simp: gives_def restrict_map_def card_present)
next
  case (call_del_keys ks tt)
  show ?thesis
  proof (cases "ks = []")
    case True
    then show ?thesis unfolding call_del_keys
      by (auto simp: implements_def CodisClient_del_keys_def call_simps RedisCommand_short bnd_def gives_def prog_simps restrict_map_def)
  next
    case False
    then show ?thesis unfolding call_del_keys
      by (simp add: CodisClient_del_keys_def call_simps, intro implements_del [OF assms])
        (simp_all add: gives_def)
  qed
next
  case (call_type k tt)
  show ?thesis unfolding call_type
    by (simp add: CodisClient_type_def call_simps, rule implements_cmd [OF assms, where cmd = "String_cmd TYPE_OF" and k = k])
      (auto simp: served_simps  split: if_splits)
next
  case (call_expire k n tt)
  show ?thesis unfolding call_expire
    by (simp add: CodisClient_expire_def call_simps, rule implements_cmd [OF assms, where cmd = "String_cmd (EXPIRE n)" and k = k])
      (auto simp: served_simps  split: if_splits)
qed

section \<open>Strings\<close>

lemma implements_mget:
  assumes S: "speaks_redis srv db" and "ks \<noteq> []"
    and P: "\<And>m. P m (Ret (f (Reply_of (RedisReply 2 0 [] (map (\<lambda>k. bulk_reply (str_of (m k))) ks))))) m"
  shows "implements (db_rel H st srv db bid B rest) (bnd (RedisCommand H (''MGET'' # ks) tt) (\<lambda>rep. ret (f rep))) P"
proof (rule implements_exchange)
  fix n r n'
  assume "srv n (inner_command bid (''MGET'' # ks)) = (r, n')"
  then have "srv n (''MGET'' # map (ns_key bid) ks) = (r, n')" by (simp add: inner_many)
  from speaks_multi(2) [OF S _ this] assms(2)
  have r: "r = RedisReply 2 0 [] (map (\<lambda>k. bulk_reply (str_of (db n (ns_key bid k)))) ks)" and
    n: "db n' = db n" by (auto simp: comp_def)
  show "P (db n \<circ> ns_key bid) (Ret (f (Reply_of r))) (db n' \<circ> ns_key bid) \<and>
      db n' |` (- range (ns_key bid)) = db n |` (- range (ns_key bid))"
    using P [of "db n \<circ> ns_key bid"] by (simp add: r n comp_def)
qed (use assms(2) in \<open>cases ks; simp\<close>)

lemma implements_mset:
  assumes S: "speaks_redis srv db" and "kvs \<noteq> []"
    and P: "\<And>m. P m (Ret (f (Reply_of ok_reply))) (m ++ map_of (rev (map (\<lambda>(k, x). (k, Str_val x)) kvs)))"
  shows "implements (db_rel H st srv db bid B rest)
    (bnd (RedisCommand H (''MSET'' # pair_args kvs) tt) (\<lambda>rep. ret (f rep))) P"
proof (rule implements_exchange)
  fix n r n'
  let ?kvs = "map (\<lambda>(k, x). (k, Str_val x)) kvs"
  assume "srv n (inner_command bid (''MSET'' # pair_args kvs)) = (r, n')"
  then have "srv n (''MSET'' # pair_args (map (\<lambda>(k, v). (ns_key bid k, v)) kvs)) = (r, n')" by (simp add: inner_pairs)
  from speaks_multi(3) [OF S _ this] assms(2)
  have r: "r = ok_reply" and n: "db n' = db n ++ map_of (rev (map (\<lambda>(k, v). (ns_key bid k, v)) ?kvs))"
    by (auto simp: comp_def case_prod_unfold)
  show "P (db n \<circ> ns_key bid) (Ret (f (Reply_of r))) (db n' \<circ> ns_key bid) \<and>
      db n' |` (- range (ns_key bid)) = db n |` (- range (ns_key bid))"
    using P [of "db n \<circ> ns_key bid"] unfolding r n ns_mset ns_mset_rest by simp
qed (use assms(2) in \<open>cases kvs; auto simp: pair_args_def\<close>)

lemma implements_mset_call:
  fixes H :: "'w hiredis"
  assumes "speaks_redis srv db"
  shows "implements (db_rel H st srv db bid B rest) (client_string_run H this (call_mset kvs tt)) (string_spec (call_mset kvs tt))"
proof -
  consider (big) "\<exists>(k, v) \<in> set kvs. too_big v" | (none) "kvs = []"
    | (some) "\<not> (\<exists>(k, v) \<in> set kvs. too_big v)" "kvs \<noteq> []" by blast
  then show ?thesis
  proof cases
    case big
    then show ?thesis
      by (simp add: CodisClient_mset_def value_of_def checked_pairs_run prog_simps implements_raise raises_def)
  next
    case none
    then show ?thesis
      by (auto simp: implements_def CodisClient_mset_def call_simps RedisCommand_short bnd_def gives_def prog_simps)
  next
    case some
    then have "checked_pairs (Command_new ''MSET'') kvs = (ret (Command_calls (Command_new ''MSET'') (pair_args kvs)) :: ('w cst, Command) prog)"
      by (simp only: checked_pairs_run if_False)
    with some show ?thesis
      by (simp add: CodisClient_mset_def call_simps, intro implements_mset [OF assms]) (auto simp: gives_def)
  qed
qed

lemma implements_string_call:
  assumes "speaks_redis srv db" and "specified (OnString c)"
  shows "implements (db_rel H st srv db bid B rest) (client_string_run H this c) (string_spec c)"
proof (cases c)
  case (call_set k x tt)
  show ?thesis unfolding call_set
    by (cases "too_big x", simp add: CodisClient_set_def prog_simps implements_raise raises_def value_of_def Let_def,
       simp add: CodisClient_set_def call_simps, rule implements_cmd [OF assms(1), where cmd = "String_cmd (SET x)" and k = k])
      (auto simp: served_simps  split: if_splits)
next
  case (call_setnx k x tt)
  show ?thesis unfolding call_setnx
    by (cases "too_big x", simp add: CodisClient_setnx_def prog_simps implements_raise raises_def value_of_def Let_def,
       simp add: CodisClient_setnx_def call_simps, rule implements_cmd [OF assms(1), where cmd = "String_cmd (SETNX x)" and k = k])
      (auto simp: served_simps  split: if_splits)
next
  case (call_setex k x n tt)
  show ?thesis unfolding call_setex
    by (cases "too_big x", simp add: CodisClient_setex_def prog_simps implements_raise raises_def value_of_def Let_def,
       simp add: CodisClient_setex_def call_simps, rule implements_cmd [OF assms(1), where cmd = "String_cmd (SETEX n x)" and k = k])
      (auto simp: served_simps  split: if_splits)
next
  case (call_get k tt)
  show ?thesis unfolding call_get
    by (simp add: CodisClient_get_def call_simps, rule implements_cmd [OF assms(1), where cmd = "String_cmd GET" and k = k])
      (auto simp: served_simps or_empty_def split: if_splits)
next
  case (call_getset k x tt)
  show ?thesis unfolding call_getset
    by (cases "too_big x", simp add: CodisClient_getset_def prog_simps implements_raise raises_def value_of_def Let_def,
       simp add: CodisClient_getset_def call_simps, rule implements_cmd [OF assms(1), where cmd = "String_cmd (GETSET x)" and k = k])
      (auto simp: served_simps or_empty_def split: if_splits)
next
  case (call_setbit k i b tt)
  show ?thesis unfolding call_setbit
    by (simp add: CodisClient_setbit_def call_simps, rule implements_cmd [OF assms(1), where cmd = "String_cmd (SETBIT i b)" and k = k])
      (auto simp: served_simps Let_def split: if_splits)
next
  case (call_getbit k i tt)
  show ?thesis unfolding call_getbit
    by (simp add: CodisClient_getbit_def call_simps, rule implements_cmd [OF assms(1), where cmd = "String_cmd (GETBIT i)" and k = k])
      (auto simp: served_simps Let_def or_empty_def str_bit_def split: if_splits)
next
  case (call_bitcount k tt)
  show ?thesis unfolding call_bitcount
    by (simp add: CodisClient_bitcount_def call_simps, rule implements_cmd [OF assms(1), where cmd = "String_cmd BITCOUNT" and k = k])
      (auto simp: served_simps or_empty_def bits_set_def split: if_splits)
next
  case (call_mget ks tt)
  show ?thesis
  proof (cases "ks = []")
    case True
    then show ?thesis unfolding call_mget
      by (auto simp: implements_def CodisClient_mget_def call_simps RedisCommand_short bnd_def gives_def prog_simps)
  next
    case False
    then show ?thesis unfolding call_mget
      by (simp add: CodisClient_mget_def call_simps, intro implements_mget [OF assms(1)])
        (simp_all add: gives_def element_strs_map comp_def)
  qed
next
  case (call_mget2 ks callback)
  with assms(2) show ?thesis by simp
next
  case (call_mset kvs tt)
  then show ?thesis using implements_mset_call [OF assms(1)] by simp
next
  case (call_incr k tt)
  show ?thesis unfolding call_incr
    by (simp add: CodisClient_incr_def call_simps, rule implements_cmd [OF assms(1), where cmd = "String_cmd INCR" and k = k])
      (auto simp: served_simps counted_def count_spec_def split: if_splits option.splits)
next
  case (call_decr k tt)
  show ?thesis unfolding call_decr
    by (simp add: CodisClient_decr_def call_simps, rule implements_cmd [OF assms(1), where cmd = "String_cmd DECR" and k = k])
      (auto simp: served_simps counted_def count_spec_def split: if_splits option.splits)
next
  case (call_incrby k n tt)
  show ?thesis unfolding call_incrby
    by (simp add: CodisClient_incrby_def call_simps, rule implements_cmd [OF assms(1), where cmd = "String_cmd (INCRBY n)" and k = k])
      (auto simp: served_simps counted_def count_spec_def split: if_splits option.splits)
next
  case (call_decrby k n tt)
  show ?thesis unfolding call_decrby
    by (simp add: CodisClient_decrby_def call_simps, rule implements_cmd [OF assms(1), where cmd = "String_cmd (DECRBY n)" and k = k])
      (auto simp: served_simps counted_def count_spec_def split: if_splits option.splits)
next
  case (call_append k x tt)
  show ?thesis unfolding call_append
    by (cases "too_big x", simp add: CodisClient_append_def prog_simps implements_raise raises_def value_of_def Let_def,
       simp add: CodisClient_append_def call_simps, rule implements_cmd [OF assms(1), where cmd = "String_cmd (APPEND x)" and k = k])
      (auto simp: served_simps Let_def split: if_splits)
qed

section \<open>Commands given as words\<close>

lemma upper_names:
  "map upper ''mset'' = ''MSET''" "map upper ''mget'' = ''MGET''" "map upper ''del'' = ''DEL''"
  "map upper ''MSET'' = ''MSET''" "map upper ''MGET'' = ''MGET''" "map upper ''DEL'' = ''DEL''"
  by code_simp+

lemma upper_special:
  "map upper c \<notin> {''MSET'', ''MGET'', ''DEL''} \<Longrightarrow> c \<notin> {''MSET'', ''mset'', ''MGET'', ''mget'', ''DEL'', ''del''}"
  by (intro notI, elim insertE emptyE) (simp_all only: upper_names insert_iff simp_thms)

lemma serve_words:
  assumes "speaks_redis srv db" and "reads_as ws cmd k" and "srv n (inner_command bid ws) = (r, n')"
  shows "\<exists>v'. served cmd (db n (ns_key bid k)) r v' \<and> db n' = (db n)(ns_key bid k := v')" and "2 \<le> length ws"
proof -
  obtain c args where ws: "ws = c # args" and w: "map upper c # args = wire cmd k"
    using assms(2) by (auto simp: reads_as_def split: list.splits)
  obtain c' rest where w': "wire cmd k = c' # k # rest"
    "c' \<notin> {''MSET'', ''mset'', ''MGET'', ''mget'', ''DEL'', ''del''}" "\<forall>k'. wire cmd k' = c' # k' # rest"
    using wire_shape [of cmd k] by auto
  from w w' have c: "map upper c = c'" "args = k # rest" by simp_all
  with w'(2) have "c \<notin> {''MSET'', ''mset'', ''MGET'', ''mget'', ''DEL'', ''del''}"
    by (intro upper_special) auto
  from inner_single [OF this] have "inner_command bid ws = c # ns_key bid k # rest" by (simp only: ws c(2))
  then have "srv n (wire cmd (ns_key bid k)) = (r, n')"
    using assms(3) speaks_multi(4) [OF assms(1), of n c "ns_key bid k # rest"] w'(3) c(1) by simp
  from speaks_key [OF assms(1) this]
  show "\<exists>v'. served cmd (db n (ns_key bid k)) r v' \<and> db n' = (db n)(ns_key bid k := v')" .
  show "2 \<le> length ws" by (simp add: ws c(2))
qed

lemma implements_words:
  assumes "speaks_redis srv db" and "readable ws"
    and P: "\<And>m rep m'. words_spec ws m (Ret rep) m' \<Longrightarrow> P m (Ret (f rep)) m'"
  shows "implements (db_rel H st srv db bid B rest) (bnd (RedisCommand H ws tt) (\<lambda>rep. ret (f rep))) P"
proof -
  from assms(2) obtain cmd k where ws: "reads_as ws cmd k" by (auto simp: readable_def)
  show ?thesis
  proof (rule implements_exchange)
    fix n r n'
    assume srv: "srv n (inner_command bid ws) = (r, n')"
    from serve_words [OF assms(1) ws this] obtain v' where
      v: "served cmd (db n (ns_key bid k)) r v'" and n': "db n' = (db n)(ns_key bid k := v')" by blast
    have m: "db n' \<circ> ns_key bid = (db n \<circ> ns_key bid)(k := v')" by (auto simp: n' ns_key_inj)
    have "words_spec ws (db n \<circ> ns_key bid) (Ret (Reply_of r)) (db n' \<circ> ns_key bid)"
      unfolding words_spec_def m using ws v by auto
    from P [OF this] show "P (db n \<circ> ns_key bid) (Ret (f (Reply_of r))) (db n' \<circ> ns_key bid) \<and>
        db n' |` (- range (ns_key bid)) = db n |` (- range (ns_key bid))"
      by (auto simp: n' restrict_map_def)
  qed (use serve_words(2) [OF assms(1) ws] in \<open>metis prod.collapse\<close>)
qed

text \<open>Putting a wrapper around the value of a program.\<close>

lemma implements_value_of:
  assumes "implements R m P" and "\<And>t x t'. P t (Ret x) t' \<Longrightarrow> Q t (Ret (f x)) t'"
    and "\<And>t e t'. P t (Abrupt e) t' \<Longrightarrow> Q t (Abrupt e) t'"
  shows "implements R (value_of f m) Q"
proof (rule implementsI)
  fix s t r s'
  assume R: "R s t" and run: "value_of f m s = (r, s')"
  obtain o1 s1 where m: "m s = (o1, s1)" by fastforce
  from implementsD [OF assms(1) R m] obtain t' where "P t o1 t'" "R s1 t'" by blast
  moreover have "r = (case o1 of Ret x \<Rightarrow> Ret (f x) | Abrupt e \<Rightarrow> Abrupt e)" "s' = s1"
    using run m by (auto simp: value_of_def bnd_def prog_simps split: outcome.splits)
  ultimately show "\<exists>t'. Q t r t' \<and> R s' t'" using assms(2,3)
    by (cases o1) (auto intro!: exI [of _ t'])
qed

lemma bnd_ret_right: "bnd m ret = m"
  by (rule ext) (simp add: bnd_def ret_def split: prod.splits outcome.splits)

lemma in_turn_words: "\<not> in_turn (\<lambda>c. words_spec (cmd_args c)) cs m (Abrupt e) m'"
  by (induction cs arbitrary: m) (auto simp: words_spec_def)

lemma implements_command_call:
  assumes "speaks_redis srv db" and "specified (OnCommand c)"
  shows "implements (db_rel H st srv db bid B rest) (client_command_run H this c) (command_spec c)"
proof (cases c)
  case (call_RedisCommand ws tt)
  with assms show ?thesis
    by (simp add: value_of_def, intro implements_words) simp_all
next
  case (call_RedisCommand_cmd comm tt)
  with assms show ?thesis
    by (simp add: value_of_def RedisCommand_cmd_def, intro implements_words) simp_all
next
  case (call_RedisCommands cs)
  have one: "implements (db_rel H st srv db bid B rest) (RedisCommand_cmd H comm 0) (words_spec (cmd_args comm))"
    if "comm \<in> set cs" for comm
  proof -
    have "implements (db_rel H st srv db bid B rest) (bnd (RedisCommand H (cmd_args comm) 0) (\<lambda>rep. ret rep)) (words_spec (cmd_args comm))"
      using assms that by (intro implements_words) (auto simp: call_RedisCommands list_all_iff)
    then show ?thesis by (simp add: RedisCommand_cmd_def bnd_ret_right)
  qed
  have "implements (db_rel H st srv db bid B rest) (RedisCommands H cs) (in_turn (\<lambda>c. words_spec (cmd_args c)) cs)"
    unfolding RedisCommands_def by (rule implements_mapM) (rule one)
  then show ?thesis unfolding call_RedisCommands client_command_run.simps
    by (rule implements_value_of) (auto simp: in_turn_words)
qed

section \<open>All calls\<close>

lemma implements_client_call:
  assumes "speaks_redis srv db" and "specified c"
  shows "implements (db_rel H st srv db bid B rest) (client_run H this c) (redis_spec c)"
  using assms
  by (cases c) (simp_all add: implements_key_call implements_string_call implements_list_call implements_set_call
      implements_zset_call implements_hash_call implements_command_call)

section \<open>The interface: a service that stands for a database\<close>

text \<open>
  \<open>stands k s m\<close>: in state \<open>s\<close> the service stands for the database \<open>m\<close> and is good for \<open>k\<close> more calls. The promise is
  about one call; users make many.
\<close>

locale redis_service =
  fixes run :: "client_call \<Rightarrow> ('s, api_value) prog"
    and stands :: "nat \<Rightarrow> 's \<Rightarrow> db \<Rightarrow> bool"
  assumes call_law: "stands (Suc k) s m \<Longrightarrow> specified c \<Longrightarrow> run c s = (r, s') \<Longrightarrow>
      \<exists>m'. redis_spec c m r m' \<and> stands k s' m'"
    and fewer: "stands (Suc k) s m \<Longrightarrow> stands k s m"
begin

lemma calls:
  assumes "list_all specified cs" and "stands (length cs + k) s m" and "mapM_prog run cs s = (r, s')"
  shows "\<exists>m'. in_turn redis_spec cs m r m' \<and> stands k s' m'"
  by (rule implements_turns [where R = stands, OF fewer _ assms(2,3)])
     (use assms(1) in \<open>auto simp: list_all_iff intro: call_law\<close>)

end

text \<open>A client is one, for any number of calls.\<close>

interpretation client: redis_service "client_run H this"
    "\<lambda>k sc m. speaks_redis srv db \<and> db_rel H st srv db bid B rest sc m"
  for H :: "'w hiredis" and this :: addr and st :: "'w \<Rightarrow> 'm" and srv and db and bid and B and rest
proof
  fix k c r and sc sc' :: "'w cst" and m
  assume "speaks_redis srv db \<and> db_rel H st srv db bid B rest sc m" and c: "specified c"
    and run: "client_run H this c sc = (r, sc')"
  then have s: "speaks_redis srv db" "db_rel H st srv db bid B rest sc m" by simp_all
  from implementsD [OF implements_client_call [OF s(1) c], OF s(2) run] s(1)
  show "\<exists>m'. redis_spec c m r m' \<and> speaks_redis srv db \<and> db_rel H st srv db bid B rest sc' m'" by blast
qed

end
