(* ===== verification/Redis_Server.thy ===== *)
theory Redis_Server
  imports Redis_Refinement Example_Server
begin

text \<open>
  A small redis server for all data types, on which the witnesses run: it satisfies \<open>speaks_redis\<close>. Where redis
  promises no order it goes by the order of the strings, and \<open>SPOP\<close> takes the least member. Its state may hold any
  value; sets and hashes that are not finite count as absent.
\<close>

section \<open>Serving one key\<close>

definition tidy :: "rvalue option \<Rightarrow> rvalue option" where
  "tidy v = (case v of
     Some (Set_val S) \<Rightarrow> if finite S then v else None
   | Some (Hash_val h) \<Rightarrow> if finite (dom h) then v else None
   | _ \<Rightarrow> v)"

definition refuse :: "rvalue option \<Rightarrow> redisReply \<times> rvalue option" where
  "refuse v = (RedisReply 6 0 ''ERR not possible'' [], v)"

definition count_key :: "int \<Rightarrow> rvalue option \<Rightarrow> redisReply \<times> rvalue option" where
  "count_key d v =
     (if fits ''string'' v then
        (case count_on d (str_of v) of
           None \<Rightarrow> refuse v
         | Some i \<Rightarrow> (num_reply i, Some (Str_val (int_to_dec i))))
      else refuse v)"

fun serve_string :: "string_cmd \<Rightarrow> rvalue option \<Rightarrow> redisReply \<times> rvalue option" where
  "serve_string EXISTS v = (num_reply (if v = None then 0 else 1), v)"
| "serve_string TYPE_OF v = (RedisReply 5 0 (kind v) [], v)"
| "serve_string (EXPIRE n) v =
     (if v = None then (num_reply 0, None)
      else (num_reply 1, if sint n \<le> 0 then None else v))"
| "serve_string (SET x) v = (ok_reply, Some (Str_val x))"
| "serve_string (SETNX x) v =
     (if v = None then (num_reply 1, Some (Str_val x)) else (num_reply 0, v))"
| "serve_string (SETEX n x) v = (if sint n \<le> 0 then refuse v else (ok_reply, Some (Str_val x)))"
| "serve_string GET v = (if fits ''string'' v then (bulk_reply (str_of v), v) else refuse v)"
| "serve_string (GETSET x) v =
     (if fits ''string'' v then (bulk_reply (str_of v), Some (Str_val x)) else refuse v)"
| "serve_string (SETBIT i b) v =
     (if fits ''string'' v \<and> 0 \<le> sint i then
        (let s = or_empty (str_of v); j = nat (sint i)
         in (num_reply (of_bool (str_bit s j)), Some (Str_val (put_bit s j b))))
      else refuse v)"
| "serve_string (GETBIT i) v =
     (if fits ''string'' v \<and> 0 \<le> sint i
      then (num_reply (of_bool (str_bit (or_empty (str_of v)) (nat (sint i)))), v) else refuse v)"
| "serve_string BITCOUNT v =
     (if fits ''string'' v then (num_reply (int (bits_set (or_empty (str_of v)))), v) else refuse v)"
| "serve_string INCR v = count_key 1 v"
| "serve_string DECR v = count_key (- 1) v"
| "serve_string (INCRBY n) v = count_key (sint n) v"
| "serve_string (DECRBY n) v = count_key (- sint n) v"
| "serve_string (APPEND x) v =
     (let s = or_empty (str_of v) @ x
      in if fits ''string'' v \<and> length s \<le> 536870912
         then (num_reply (int (length s)), Some (Str_val s)) else refuse v)"

fun serve_list :: "list_cmd \<Rightarrow> rvalue option \<Rightarrow> redisReply \<times> rvalue option" where
  "serve_list (LPUSH xs) v =
     (let ys = rev xs @ list_of v
      in if xs = [] then refuse v else (num_reply (int (length ys)), Some (List_val ys)))"
| "serve_list (RPUSH xs) v =
     (let ys = list_of v @ xs
      in if xs = [] then refuse v else (num_reply (int (length ys)), Some (List_val ys)))"
| "serve_list LLEN v = (num_reply (int (length (list_of v))), v)"
| "serve_list (LRANGE i j) v = (strs_reply (slice (sint i) (sint j) (list_of v)), v)"
| "serve_list (LTRIM i j) v = (ok_reply, put_list (slice (sint i) (sint j) (list_of v)))"
| "serve_list (LSET i x) v =
     (let n = length (list_of v); j = from_end n (sint i)
      in if 0 \<le> j \<and> j < int n then (ok_reply, Some (List_val ((list_of v)[nat j := x]))) else refuse v)"
| "serve_list (LREM n x) v =
     (let ys = list_remove (sint n) x (list_of v)
      in (num_reply (int (length (list_of v) - length ys)), put_list ys))"
| "serve_list LPOP v =
     (case list_of v of
        [] \<Rightarrow> (bulk_reply None, v)
      | x # ys \<Rightarrow> (bulk_reply (Some x), put_list ys))"
| "serve_list RPOP v =
     (if list_of v = [] then (bulk_reply None, v)
      else (bulk_reply (Some (last (list_of v))), put_list (butlast (list_of v))))"

fun serve_set :: "set_cmd \<Rightarrow> rvalue option \<Rightarrow> redisReply \<times> rvalue option" where
  "serve_set (SADD xs) v =
     (if xs = [] then refuse v
      else (num_reply (int (card (set xs - set_of v))), Some (Set_val (set_of v \<union> set xs))))"
| "serve_set (SREM x) v =
     (if x \<in> set_of v then (num_reply 1, put_set (set_of v - {x})) else (num_reply 0, v))"
| "serve_set SPOP v =
     (if set_of v = {} then (bulk_reply None, v)
      else (bulk_reply (Some (Min (set_of v))), put_set (set_of v - {Min (set_of v)})))"
| "serve_set SRANDMEMBER v =
     (if set_of v = {} then (bulk_reply None, v)
      else (bulk_reply (Some (Min (set_of v))), v))"
| "serve_set SCARD v = (num_reply (int (card (set_of v))), v)"
| "serve_set (SISMEMBER x) v = (num_reply (of_bool (x \<in> set_of v)), v)"
| "serve_set SMEMBERS v =
     (strs_reply (sorted_list_of_set (set_of v)), v)"

fun serve_zset :: "zset_cmd \<Rightarrow> rvalue option \<Rightarrow> redisReply \<times> rvalue option" where
  "serve_zset (ZADD s x) v =
     (num_reply (of_bool (zfind x (zset_of v) = None)), Some (Zset_val (zput (sint s) x (zset_of v))))"
| "serve_zset (ZREM x) v =
     (if zfind x (zset_of v) = None then (num_reply 0, v)
      else (num_reply 1, put_zset (zdel x (zset_of v))))"
| "serve_zset (ZINCRBY n x) v =
     (let s = zsum n x (zset_of v)
      in if exact_score s
         then (bulk_reply (Some (int_to_dec s)), Some (Zset_val (zput s x (zset_of v))))
         else refuse v)"
| "serve_zset (ZRANK x) v =
     (case zindex x (zset_of v) of
        None \<Rightarrow> (bulk_reply None, v) | Some i \<Rightarrow> (num_reply (int i), v))"
| "serve_zset (ZREVRANK x) v =
     (case zindex x (rev (zset_of v)) of
        None \<Rightarrow> (bulk_reply None, v) | Some i \<Rightarrow> (num_reply (int i), v))"
| "serve_zset (ZRANGE i j w) v = (strs_reply (zlist w (slice (sint i) (sint j) (zset_of v))), v)"
| "serve_zset (ZREVRANGE i j w) v = (strs_reply (zlist w (slice (sint i) (sint j) (rev (zset_of v)))), v)"
| "serve_zset (ZRANGEBYSCORE a b w) v = (strs_reply (zlist w (zwithin a b (zset_of v))), v)"
| "serve_zset (ZREVRANGEBYSCORE a b w) v = (strs_reply (zlist w (zwithin b a (rev (zset_of v)))), v)"
| "serve_zset (ZCOUNT a b) v = (num_reply (int (length (zwithin (sint a) (sint b) (zset_of v)))), v)"
| "serve_zset ZCARD v = (num_reply (int (length (zset_of v))), v)"
| "serve_zset (ZSCORE x) v = (bulk_reply (map_option int_to_dec (zfind x (zset_of v))), v)"
| "serve_zset (ZREMRANGEBYRANK i j) v =
     (let z = slice (sint i) (sint j) (zset_of v)
      in (num_reply (int (length z)), put_zset (filter (\<lambda>p. p \<notin> set z) (zset_of v))))"
| "serve_zset (ZREMRANGEBYSCORE a b) v =
     (let z = zwithin (sint a) (sint b) (zset_of v)
      in (num_reply (int (length z)), put_zset (filter (\<lambda>p. p \<notin> set z) (zset_of v))))"

fun serve_hash :: "hash_cmd \<Rightarrow> rvalue option \<Rightarrow> redisReply \<times> rvalue option" where
  "serve_hash (HSET f x) v =
     (num_reply (of_bool (hash_of v f = None)), Some (Hash_val ((hash_of v)(f \<mapsto> x))))"
| "serve_hash (HGET f) v = (bulk_reply (hash_of v f), v)"
| "serve_hash (HMGET fs) v =
     (if fs = [] then refuse v else (RedisReply 2 0 [] (map (bulk_reply \<circ> hash_of v) fs), v))"
| "serve_hash (HMSET kvs) v =
     (if kvs = [] then refuse v else (ok_reply, Some (Hash_val (hash_of v ++ map_of (rev kvs)))))"
| "serve_hash (HINCRBY f n) v =
     (case count_on (sint n) (hash_of v f) of
        None \<Rightarrow> refuse v
      | Some i \<Rightarrow> (num_reply i, Some (Hash_val ((hash_of v)(f \<mapsto> int_to_dec i)))))"
| "serve_hash (HEXISTS f) v = (num_reply (of_bool (hash_of v f \<noteq> None)), v)"
| "serve_hash (HDEL f) v =
     (if hash_of v f = None then (num_reply 0, v)
      else (num_reply 1, put_hash ((hash_of v)(f := None))))"
| "serve_hash HLEN v = (num_reply (int (card (dom (hash_of v)))), v)"
| "serve_hash HKEYS v =
     (strs_reply (sorted_list_of_set (dom (hash_of v))), v)"
| "serve_hash HVALS v =
     (strs_reply (map (the \<circ> hash_of v) (sorted_list_of_set (dom (hash_of v)))), v)"
| "serve_hash HGETALL v =
     (strs_reply (concat (map (\<lambda>f. [f, the (hash_of v f)]) (sorted_list_of_set (dom (hash_of v))))), v)"

fun serve :: "key_cmd \<Rightarrow> rvalue option \<Rightarrow> redisReply \<times> rvalue option" where
  "serve (String_cmd c) v = serve_string c v"
| "serve (List_cmd c) v = (if fits ''list'' v then serve_list c v else refuse v)"
| "serve (Set_cmd c) v = (if fits ''set'' v then serve_set c v else refuse v)"
| "serve (Zset_cmd c) v = (if fits ''zset'' v then serve_zset c v else refuse v)"
| "serve (Hash_cmd c) v = (if fits ''hash'' v then serve_hash c v else refuse v)"

section \<open>Reading a command\<close>

definition dec_int :: "string \<Rightarrow> int" where
  "dec_int s = (if take 1 s = ''-'' then - int (dec_val (tl s)) else int (dec_val s))"

definition parse_string :: "string \<Rightarrow> string list \<Rightarrow> key_cmd option" where
  "parse_string c args = map_of
    [(''EXISTS'', String_cmd EXISTS),
     (''TYPE'', String_cmd TYPE_OF),
     (''EXPIRE'', String_cmd (EXPIRE (string2int (args ! 0)))),
     (''SET'', String_cmd (SET (args ! 0))),
     (''SETNX'', String_cmd (SETNX (args ! 0))),
     (''SETEX'', String_cmd (SETEX (string2int (args ! 0)) (args ! 1))),
     (''GET'', String_cmd GET),
     (''GETSET'', String_cmd (GETSET (args ! 0))),
     (''SETBIT'', String_cmd (SETBIT (string2int (args ! 0)) (string2int (args ! 1) \<noteq> 0))),
     (''GETBIT'', String_cmd (GETBIT (string2int (args ! 0)))),
     (''BITCOUNT'', String_cmd BITCOUNT),
     (''INCR'', String_cmd INCR),
     (''DECR'', String_cmd DECR),
     (''INCRBY'', String_cmd (INCRBY (string2int (args ! 0)))),
     (''DECRBY'', String_cmd (DECRBY (string2int (args ! 0)))),
     (''APPEND'', String_cmd (APPEND (args ! 0)))] c"

definition parse_list :: "string \<Rightarrow> string list \<Rightarrow> key_cmd option" where
  "parse_list c args = map_of
    [(''LPUSH'', List_cmd (LPUSH args)),
     (''RPUSH'', List_cmd (RPUSH args)),
     (''LLEN'', List_cmd LLEN),
     (''LRANGE'', List_cmd (LRANGE (string2int (args ! 0)) (string2int (args ! 1)))),
     (''LTRIM'', List_cmd (LTRIM (string2int (args ! 0)) (string2int (args ! 1)))),
     (''LSET'', List_cmd (LSET (string2int (args ! 0)) (args ! 1))),
     (''LREM'', List_cmd (LREM (string2int (args ! 0)) (args ! 1))),
     (''LPOP'', List_cmd LPOP),
     (''RPOP'', List_cmd RPOP)] c"

definition parse_set :: "string \<Rightarrow> string list \<Rightarrow> key_cmd option" where
  "parse_set c args = map_of
    [(''SADD'', Set_cmd (SADD args)),
     (''SREM'', Set_cmd (SREM (args ! 0))),
     (''SPOP'', Set_cmd SPOP),
     (''SRANDMEMBER'', Set_cmd SRANDMEMBER),
     (''SCARD'', Set_cmd SCARD),
     (''SISMEMBER'', Set_cmd (SISMEMBER (args ! 0))),
     (''SMEMBERS'', Set_cmd SMEMBERS)] c"

definition parse_zset :: "string \<Rightarrow> string list \<Rightarrow> key_cmd option" where
  "parse_zset c args = map_of
    [(''ZADD'', Zset_cmd (ZADD (string2int (args ! 0)) (args ! 1))),
     (''ZREM'', Zset_cmd (ZREM (args ! 0))),
     (''ZINCRBY'', Zset_cmd (ZINCRBY (string2int (args ! 0)) (args ! 1))),
     (''ZRANK'', Zset_cmd (ZRANK (args ! 0))),
     (''ZREVRANK'', Zset_cmd (ZREVRANK (args ! 0))),
     (''ZRANGE'', Zset_cmd (ZRANGE (string2int (args ! 0)) (string2int (args ! 1)) (length args = 3))),
     (''ZREVRANGE'', Zset_cmd (ZREVRANGE (string2int (args ! 0)) (string2int (args ! 1)) (length args = 3))),
     (''ZRANGEBYSCORE'', Zset_cmd (ZRANGEBYSCORE (dec_int (args ! 0)) (dec_int (args ! 1)) (length args = 3))),
     (''ZREVRANGEBYSCORE'', Zset_cmd (ZREVRANGEBYSCORE (dec_int (args ! 0)) (dec_int (args ! 1)) (length args = 3))),
     (''ZCOUNT'', Zset_cmd (ZCOUNT (string2int (args ! 0)) (string2int (args ! 1)))),
     (''ZCARD'', Zset_cmd ZCARD),
     (''ZSCORE'', Zset_cmd (ZSCORE (args ! 0))),
     (''ZREMRANGEBYRANK'', Zset_cmd (ZREMRANGEBYRANK (string2int (args ! 0)) (string2int (args ! 1)))),
     (''ZREMRANGEBYSCORE'', Zset_cmd (ZREMRANGEBYSCORE (string2int (args ! 0)) (string2int (args ! 1))))] c"

definition parse_hash :: "string \<Rightarrow> string list \<Rightarrow> key_cmd option" where
  "parse_hash c args = map_of
    [(''HSET'', Hash_cmd (HSET (args ! 0) (args ! 1))),
     (''HGET'', Hash_cmd (HGET (args ! 0))),
     (''HMGET'', Hash_cmd (HMGET args)),
     (''HMSET'', Hash_cmd (HMSET (arg_pairs args))),
     (''HINCRBY'', Hash_cmd (HINCRBY (args ! 0) (string2int (args ! 1)))),
     (''HEXISTS'', Hash_cmd (HEXISTS (args ! 0))),
     (''HDEL'', Hash_cmd (HDEL (args ! 0))),
     (''HLEN'', Hash_cmd HLEN),
     (''HKEYS'', Hash_cmd HKEYS),
     (''HVALS'', Hash_cmd HVALS),
     (''HGETALL'', Hash_cmd HGETALL)] c"

fun first_of :: "'a option list \<Rightarrow> 'a option" where
  "first_of [] = None"
| "first_of (None # xs) = first_of xs"
| "first_of (Some x # xs) = Some x"

definition parse :: "string \<Rightarrow> string list \<Rightarrow> key_cmd option" where
  "parse c args = first_of [parse_string c args, parse_list c args, parse_set c args, parse_zset c args, parse_hash c args]"

section \<open>The server\<close>

definition unknown :: redisReply where
  "unknown = RedisReply 6 0 ''ERR unknown command'' []"

fun redis_server :: "db \<Rightarrow> string list \<Rightarrow> redisReply \<times> db" where
  "redis_server m [] = (unknown, m)"
| "redis_server m (c # args) =
     (let c = map upper c
      in if args = [] then (unknown, m)
         else if c = ''DEL'' then (num_reply (int (card (set args \<inter> dom (tidy \<circ> m)))), m |` (- set args))
         else if c = ''MGET'' then (RedisReply 2 0 [] (map (\<lambda>k. bulk_reply (str_of (tidy (m k)))) args), m)
         else if c = ''MSET'' then (ok_reply, m ++ map_of (rev (map (\<lambda>(k, x). (k, Str_val x)) (arg_pairs args))))
         else (case parse c (tl args) of
                 None \<Rightarrow> (unknown, m)
               | Some cmd \<Rightarrow>
                   (case serve cmd (tidy (m (hd args))) of (r, v') \<Rightarrow> (r, m(hd args := v')))))"

section \<open>Lemmas: it speaks redis\<close>

lemma dec_int_int_to_dec [simp]: "dec_int (int_to_dec i) = i"
proof (cases "i < 0")
  case True
  then show ?thesis by (simp add: dec_int_def int_to_dec_def dec_val_nat_to_dec)
next
  case False
  obtain c s where "nat_to_dec (nat i) = c # s" "is_digit c" by (rule nat_to_dec_Cons)
  with digit_not_special [of c] have "take 1 (nat_to_dec (nat i)) \<noteq> ''-''" by auto
  with False show ?thesis by (simp add: dec_int_def int_to_dec_def dec_val_nat_to_dec)
qed

lemma string2int_int2string [simp]: "string2int (int2string i) = i"
  using string2int_int2string_append [of "[]"] by simp

lemma bool_to_int_nonzero [simp]: "bool_to_int b \<noteq> 0 \<longleftrightarrow> b"
  by (simp add: bool_to_int_def)

lemmas parse_defs = parse_def parse_string_def parse_list_def parse_set_def parse_zset_def parse_hash_def scores_arg_def

lemma parse_wire: "\<exists>c args. wire cmd k = c # k # args \<and> map upper c = c \<and> parse c args = Some cmd \<and> c \<notin> {''DEL'', ''MGET'', ''MSET''}"
proof (cases cmd)
  case (String_cmd c)
  then show ?thesis by (cases c) (simp_all add: parse_defs upper_def)
next
  case (List_cmd c)
  then show ?thesis by (cases c) (simp_all add: parse_defs upper_def)
next
  case (Set_cmd c)
  then show ?thesis by (cases c) (simp_all add: parse_defs upper_def)
next
  case (Zset_cmd c)
  then show ?thesis by (cases c) (simp_all add: parse_defs upper_def)
next
  case (Hash_cmd c)
  then show ?thesis by (cases c) (simp_all add: parse_defs upper_def)
qed

lemma tidy_tidy [simp]: "tidy (tidy v) = tidy v"
  by (simp add: tidy_def split: option.splits rvalue.splits)

lemma tidy_finite:
  assumes "tidy v = v"
  shows "finite (set_of v)" "finite (dom (hash_of v))"
  using assms by (cases v rule: kind.cases; simp add: tidy_def split: if_splits)+

lemma tidy_values [simp]:
  "tidy None = None" "tidy (Some (Str_val s)) = Some (Str_val s)" "tidy (Some (List_val xs)) = Some (List_val xs)"
  "tidy (Some (Zset_val z)) = Some (Zset_val z)" "tidy (put_list xs) = put_list xs" "tidy (put_zset z) = put_zset z"
  "finite S \<Longrightarrow> tidy (Some (Set_val S)) = Some (Set_val S)" "finite S \<Longrightarrow> tidy (put_set S) = put_set S"
  "finite (dom h) \<Longrightarrow> tidy (Some (Hash_val h)) = Some (Hash_val h)"
  "finite (dom h) \<Longrightarrow> tidy (put_hash h) = put_hash h"
  by (simp_all add: tidy_def put_list_def put_zset_def put_set_def put_hash_def)

lemma ex_sorted: "finite S \<Longrightarrow> P (sorted_list_of_set S) \<Longrightarrow> \<exists>xs. distinct xs \<and> set xs = S \<and> P xs"
  by (rule exI [of _ "sorted_list_of_set S"]) simp

lemma ex_least: "finite S \<Longrightarrow> S \<noteq> {} \<Longrightarrow> P (Min S) \<Longrightarrow> \<exists>x \<in> S. P x"
  by (rule bexI [of _ "Min S"]) simp_all

lemma refusal_refuse [simp]: "refusal (RedisReply 6 0 ''ERR not possible'' [])"
  by (simp add: refusal_def)

lemma refuse_refused:
  "refuse v = (r, v') \<Longrightarrow> refused v r v'"
  by (auto simp: refuse_def refused_def refusal_def)

lemmas serve_simps = refuse_def refused_def answered_def Let_def

lemma serve_string_served:
  "serve_string c v = (r, v') \<Longrightarrow> tidy v = v \<Longrightarrow> served_string c v r v' \<and> tidy v' = v'"
  by (cases c) (auto simp: serve_simps count_key_def counted_def split: if_splits option.splits)

lemma serve_list_served:
  "serve_list c v = (r, v') \<Longrightarrow> tidy v = v \<Longrightarrow> served_list c v r v' \<and> tidy v' = v'"
  by (cases c) (auto simp: serve_simps split: if_splits list.splits)

lemma serve_set_served:
  "serve_set c v = (r, v') \<Longrightarrow> tidy v = v \<Longrightarrow> served_set c v r v' \<and> tidy v' = v'"
  using tidy_finite(1) [of v] by (cases c) (auto simp: serve_simps split: if_splits intro!: ex_sorted ex_least)

lemma serve_zset_served:
  "serve_zset c v = (r, v') \<Longrightarrow> tidy v = v \<Longrightarrow> served_zset c v r v' \<and> tidy v' = v'"
  by (cases c) (auto simp: serve_simps split: if_splits option.splits)

lemma serve_hash_served:
  "serve_hash c v = (r, v') \<Longrightarrow> tidy v = v \<Longrightarrow> served_hash c v r v' \<and> tidy v' = v'"
  using tidy_finite(2) [of v] by (cases c) (auto simp: serve_simps split: if_splits option.splits
      simp: finite_dom_map_of dom_map_add intro!: ex_sorted)

lemma serve_served:
  assumes "serve cmd v = (r, v')" and "tidy v = v"
  shows "served cmd v r v' \<and> tidy v' = v'"
  using assms
  by (cases cmd) (auto simp: serve_string_served serve_list_served serve_set_served serve_zset_served serve_hash_served
      refuse_def refused_def split: if_splits)

lemma redis_server_speaks: "speaks_redis redis_server (\<lambda>m k. tidy (m k))"
proof -
  have key: "case redis_server m (wire cmd k) of (r, m') \<Rightarrow>
      \<exists>v'. served cmd (tidy (m k)) r v' \<and> (\<lambda>k. tidy (m' k)) = (\<lambda>k. tidy (m k))(k := v')" for m cmd k
  proof -
    obtain c args where w: "wire cmd k = c # k # args" "map upper c = c" "parse c args = Some cmd"
      "c \<notin> {''DEL'', ''MGET'', ''MSET''}" using parse_wire by blast
    obtain r v' where s: "serve cmd (tidy (m k)) = (r, v')" by fastforce
    from serve_served [OF s] show ?thesis using w s by (auto simp: Let_def fun_eq_iff)
  qed
  have idem: "upper (upper c) = upper c" for c
  proof -
    have "(n - 32) mod 256 = n - 32" if "n \<le> 122" for n :: nat using that by simp
    then show ?thesis by (auto simp: upper_def Let_def)
  qed
  show ?thesis
    unfolding speaks_redis_def
  proof (intro conjI allI impI)
    fix m ks assume "ks \<noteq> ([] :: string list)"
    then show "case redis_server m (''DEL'' # ks) of (r, m') \<Rightarrow>
        r = num_reply (int (card (set ks \<inter> dom (\<lambda>k. tidy (m k))))) \<and> (\<lambda>k. tidy (m' k)) = (\<lambda>k. tidy (m k)) |` (- set ks)"
      by (simp add: upper_def Let_def comp_def) (auto simp: restrict_map_def)
  next
    fix m ks assume "ks \<noteq> ([] :: string list)"
    then show "case redis_server m (''MGET'' # ks) of (r, m') \<Rightarrow>
        r = RedisReply 2 0 [] (map (\<lambda>k. bulk_reply (str_of (tidy (m k)))) ks) \<and> (\<lambda>k. tidy (m' k)) = (\<lambda>k. tidy (m k))"
      by (simp add: upper_def Let_def)
  next
    fix m kvs assume "kvs \<noteq> ([] :: (string \<times> string) list)"
    then have "pair_args kvs \<noteq> []" by (cases kvs) (auto simp: pair_args_def)
    then show "case redis_server m (''MSET'' # pair_args kvs) of (r, m') \<Rightarrow> r = ok_reply \<and>
        (\<lambda>k. tidy (m' k)) = (\<lambda>k. tidy (m k)) ++ map_of (rev (map (\<lambda>(k, x). (k, Str_val x)) kvs))"
      by (simp add: upper_def Let_def fun_eq_iff map_add_def split: option.splits) (auto dest!: map_of_SomeD)
  next
    fix m c args
    show "redis_server m (c # args) = redis_server m (map upper c # args)" by (simp add: comp_def idem)
  qed (rule key)
qed

section \<open>A library that reaches it\<close>

definition redis_lib :: "db hiredis" where
  "redis_lib = \<lparr>
     hr_connect = (\<lambda>ip prt w. (Some good_context, w)),
     hr_set_timeout = (\<lambda>c tv w. (c, w)),
     hr_command = (\<lambda>c argv w. case redis_server w argv of (r, w') \<Rightarrow> (Some r, c, w')),
     hr_free = (\<lambda>c w. w),
     hr_aconnect = (\<lambda>ip prt w. (Some good_actx, w)),
     hr_acommand = (\<lambda>c argv rq w. (0, c, w)),
     hr_adisconnect = (\<lambda>c w. (True, w))\<rparr>"

lemma redis_lib_reliable: "reliable redis_lib (\<lambda>w. w) redis_server"
  by (auto simp: reliable_def redis_lib_def good_context_def REDIS_OK_def split: prod.splits)

text \<open>The client in front of an empty server.\<close>

lemma new_client_db_rel:
  "db_rel redis_lib (\<lambda>w. w) redis_server (\<lambda>m k. tidy (m k)) bid {} (\<lambda>_. None)
     (empty_sys (\<lambda>_. None), new_client bid) (\<lambda>_. None)"
  by (auto simp: db_rel_def serving_def redis_lib_reliable new_client_inv restrict_map_def)
     (auto simp: empty_sys_def)

end
