(* ===== verification/Round_Robin.thy ===== *)
theory Round_Robin
  imports Codis_Client
begin

text \<open>
  The pool of proxies (\<open>cpp/include/RoundRobinCodisPool.h\<close>, \<open>cpp/src/RoundRobinCodisPool.cpp\<close>): it asks
  ZooKeeper which proxies are online, keeps one \<open>CodisClient\<close> for each, hands them out in turn, and
  rebuilds the list when ZooKeeper reports a change. The ZooKeeper library, the JSON library, the
  event-loop allocation and \<open>pthread_create\<close> are parameters (the record \<open>zk_env\<close>).
\<close>

section \<open>The surroundings\<close>

text \<open>
  The numeric codes of states and events are constants of the library. \<open>zk_get\<close> is a read of a node:
  status and data as they are at that moment. \<open>mem_garbage n\<close> is what a fresh allocation of \<open>n\<close> bytes
  holds. \<open>js_isMember\<close> ends abruptly where the library asserts that the value is an object.
\<close>

record ('w, 'j) zk_env =
  zk_init :: "string \<Rightarrow> 'w \<Rightarrow> ptr \<times> 'w"
  zk_state :: "ptr \<Rightarrow> 'w \<Rightarrow> c_int \<times> 'w"
  zk_close :: "ptr \<Rightarrow> 'w \<Rightarrow> 'w"
  zk_children :: "ptr \<Rightarrow> string \<Rightarrow> 'w \<Rightarrow> (c_int \<times> string list) \<times> 'w"
  zk_get :: "ptr \<Rightarrow> string \<Rightarrow> 'w \<Rightarrow> (c_int \<times> string) \<times> 'w"
  zk_error :: "c_int \<Rightarrow> string"
  zoo_connected :: c_int
  zoo_connecting :: c_int
  zoo_expired :: c_int
  zev_session :: c_int
  zev_changed :: c_int
  zev_deleted :: c_int
  zev_child :: c_int
  zev_created :: c_int
  js_parse :: "string \<Rightarrow> 'j option"
  js_isMember :: "'j \<Rightarrow> string \<Rightarrow> bool outcome"
  js_get :: "'j \<Rightarrow> string \<Rightarrow> 'j"
  js_isString :: "'j \<Rightarrow> bool"
  js_asString :: "'j \<Rightarrow> string"
  js_styled :: "'j \<Rightarrow> string"
  mem_garbage :: "nat \<Rightarrow> 'w \<Rightarrow> string"
  os_loop :: "'w \<Rightarrow> ptr \<times> 'w"
  os_thread :: "'w \<Rightarrow> c_int \<times> 'w"
  os_word :: "'w \<Rightarrow> c_size"

text \<open>\<open>ZOK\<close> of \<open>zookeeper.h\<close>.\<close>

definition ZOK :: c_int where "ZOK = 0"

section \<open>State\<close>

record RoundRobinCodisPool =
  m_Proxys :: "addr list"
  proxyIndex :: c_int
  m_ProxyInfos :: "(string \<times> c_int) list"
  m_Zh :: ptr
  m_ZookeeperAddr :: string
  m_ProxyPath :: string
  m_BusinessID :: string
  m_Mutex :: bool

text \<open>The process, the \<open>CodisClient\<close> objects on the heap, and the pool.\<close>

record 'w rr_state =
  rr_sys :: "'w sys"
  rr_clients :: "addr \<rightharpoonup> CodisClient"
  rr_pool :: RoundRobinCodisPool

definition rsys :: "('w sys, 'a) prog \<Rightarrow> ('w rr_state, 'a) prog" where
  "rsys = lift_prog rr_sys (\<lambda>t s. s\<lparr>rr_sys := t\<rparr>)"

definition rworld :: "('w \<Rightarrow> 'a \<times> 'w) \<Rightarrow> ('w rr_state, 'a) prog" where
  "rworld f = rsys (\<lambda>s. case f (world s) of (x, w) \<Rightarrow> (Ret x, s\<lparr>world := w\<rparr>))"

definition getrr :: "(RoundRobinCodisPool \<Rightarrow> 'a) \<Rightarrow> ('w rr_state, 'a) prog" where
  "getrr f = getst (\<lambda>s. f (rr_pool s))"

definition updrr :: "(RoundRobinCodisPool \<Rightarrow> RoundRobinCodisPool) \<Rightarrow> ('w rr_state, unit) prog" where
  "updrr f = updst (\<lambda>s. s\<lparr>rr_pool := f (rr_pool s)\<rparr>)"

definition lock_rr :: "('w rr_state, 'a) prog \<Rightarrow> ('w rr_state, 'a) prog" where
  "lock_rr = ScopedLock (\<lambda>s. m_Mutex (rr_pool s)) (\<lambda>b s. s\<lparr>rr_pool := (rr_pool s)\<lparr>m_Mutex := b\<rparr>\<rparr>)"

text \<open>A call on the client object at an address.\<close>

definition onclient :: "addr \<Rightarrow> ('w cst, 'a) prog \<Rightarrow> ('w rr_state, 'a) prog" where
  "onclient a m s =
     (case rr_clients s a of
        None \<Rightarrow> (Abrupt (Undef UseAfterFree), s)
      | Some c \<Rightarrow>
          (case m (rr_sys s, c) of
             (r, (t, c')) \<Rightarrow> (r, s\<lparr>rr_sys := t, rr_clients := (rr_clients s)(a \<mapsto> c')\<rparr>)))"

section \<open>Handing out proxies\<close>

text \<open>
  \<open>++proxyIndex % m_Proxys.size()\<close>: the incremented \<open>int\<close> is converted to \<open>size_t\<close> for the remainder,
  and the remainder back to \<open>int\<close>.
\<close>

definition GetProxy :: "('w rr_state, addr) prog" where
  "GetProxy =
     lock_rr
       (bnd (getrr proxyIndex) (\<lambda>i.
        if i = 0x7FFFFFFF then abort (Undef SignedOverflow)
        else
          andthen (updrr (\<lambda>p. p\<lparr>proxyIndex := i + 1\<rparr>))
          (bnd (getrr m_Proxys) (\<lambda>ps.
           let n = of_nat (length ps) :: c_size in
           if n = 0 then abort (Undef DivByZero)
           else
             let idx = ucast ((scast (i + 1) :: c_size) mod n) :: c_int;
                 k = unat (scast idx :: c_size)
             in if k < length ps then ret (ps ! k) else abort (Undef OutOfBounds)))))"

section \<open>Reading ZooKeeper\<close>

text \<open>
  The node is read twice: once for the length of its data, once into a buffer of one byte more. The
  library does not terminate what it writes, so the string that is built runs on to the first NUL of
  the buffer, or past its end.
\<close>

definition ZkGet :: "('w, 'j) zk_env \<Rightarrow> ptr \<Rightarrow> string \<Rightarrow> ('w rr_state, string) prog" where
  "ZkGet Z zh path =
     bnd (rworld (zk_get Z zh (c_str path))) (\<lambda>(rc, d).
     if rc \<noteq> ZOK then
       andthen (rsys (LOG ERROR (''getting zk node stats failed:'' @ zk_error Z rc))) (ret [])
     else
       let buf_len = length d + 1 in
       bnd (getst (\<lambda>s. mem_garbage Z buf_len (world (rr_sys s)))) (\<lambda>raw.
       bnd (rworld (zk_get Z zh (c_str path))) (\<lambda>(rc, d).
       if rc \<noteq> ZOK then
         andthen (rsys (LOG ERROR (''getting zk node stats failed:'' @ zk_error Z rc))) (ret [])
       else
         let got = take buf_len d; buffer = got @ drop (length got) raw in
         if CHR 0x00 \<in> set buffer then ret (c_str buffer) else abort (Undef OutOfBounds))))"

text \<open>
  One child of the proxy directory. A stream object printed as such shows its own address, \<open>sp\<close>.
  \<open>&&\<close> does not look at its right side when the left side is false.
\<close>

definition js_and :: "bool outcome \<Rightarrow> bool \<Rightarrow> ('s, bool) prog" where
  "js_and m b s = (case m of Ret x \<Rightarrow> (Ret (x \<and> b), s) | Abrupt e \<Rightarrow> (Abrupt e, s))"

definition proxy_info ::
  "('w, 'j) zk_env \<Rightarrow> addr \<Rightarrow> ptr \<Rightarrow> string \<Rightarrow> string \<Rightarrow> ('w rr_state, (string \<times> c_int) list) prog" where
  "proxy_info Z sp zh proxyPath name =
     bnd (ZkGet Z zh (proxyPath @ ''/'' @ name)) (\<lambda>node_data.
     case js_parse Z (c_str node_data) of
       None \<Rightarrow>
         andthen (rsys (LOG ERROR (''data format json is faild [path: '' @ ptr_to_str (Some sp) @
                   ''][data:'' @ node_data @ '']'' @ [CHR 0x0A])))
                 (ret [])
     | Some state \<Rightarrow>
         bnd (js_and (js_isMember Z state ''state'')
                (js_isString Z (js_get Z state ''state'') \<and>
                 js_asString Z (js_get Z state ''state'') = ''online'')) (\<lambda>online.
         if online then
           bnd (js_and (js_isMember Z state ''addr'') (js_isString Z (js_get Z state ''addr''))) (\<lambda>has.
           if has then
             (let proxyinfo = split_str (js_asString Z (js_get Z state ''addr'')) CHR '':'' in
              if length proxyinfo > 1
              then ret [(proxyinfo ! 0, atoi (c_str (proxyinfo ! 1)))]
              else ret [])
           else ret [])
         else
           andthen (rsys (LOG ERROR (''get proxy state faild [path: '' @ ptr_to_str (Some sp) @
                     ''][data:'' @ js_styled Z state @ '']'' @ [CHR 0x0A])))
                   (ret [])))"

definition GetProxyInfos ::
  "('w, 'j) zk_env \<Rightarrow> addr \<Rightarrow> ptr \<Rightarrow> string \<Rightarrow> ('w rr_state, (string \<times> c_int) list) prog" where
  "GetProxyInfos Z sp zh proxyPath =
     bnd (rworld (zk_children Z zh (c_str proxyPath))) (\<lambda>(rc0, names).
     if rc0 \<noteq> ZOK then
       andthen (rsys (LOG ERROR (''get children from %s faild!!!'' @ [CHR 0x0A] @ '' proxypath='' @ proxyPath)))
               (abort (Exit 1))
     else bnd (mapM_prog (\<lambda>name. proxy_info Z sp zh proxyPath name) names) (\<lambda>xs. ret (concat xs)))"

section \<open>Building and replacing the clients\<close>

definition new_proxy :: "('w, 'j) zk_env \<Rightarrow> string \<times> c_int \<Rightarrow> ('w rr_state, addr) prog" where
  "new_proxy Z info =
     bnd (rworld (os_loop Z)) (\<lambda>loop.
     bnd (rworld (os_thread Z)) (\<lambda>rc.
     bnd (getst (\<lambda>s. os_word Z (world (rr_sys s)))) (\<lambda>garbage.
     bnd (getrr m_BusinessID) (\<lambda>bid.
     bnd (rsys (CodisClient_new garbage loop rc (fst info) (snd info) bid)) (\<lambda>c s.
       let a = next_addr (rr_sys s) in
       (Ret a, s\<lparr>rr_sys := (rr_sys s)\<lparr>next_addr := Suc a\<rparr>,
                 rr_clients := (rr_clients s)(a \<mapsto> c)\<rparr>))))))"

definition delete_proxy :: "'w hiredis \<Rightarrow> addr \<Rightarrow> ('w rr_state, unit) prog" where
  "delete_proxy H a =
     andthen (onclient a (CodisClient_delete H))
             (updst (\<lambda>s. s\<lparr>rr_clients := (rr_clients s)(a := None)\<rparr>))"

text \<open>The lists are swapped under the lock; the old clients are deleted after it is released.\<close>

definition InitProxyConns ::
  "'w hiredis \<Rightarrow> ('w, 'j) zk_env \<Rightarrow> (string \<times> c_int) list \<Rightarrow> ('w rr_state, unit) prog" where
  "InitProxyConns H Z proxyInfos =
     bnd (mapM_prog (new_proxy Z) proxyInfos) (\<lambda>proxys.
     bnd (lock_rr
            (bnd (getrr m_Proxys) (\<lambda>old.
             andthen (updrr (\<lambda>p. p\<lparr>m_Proxys := proxys\<rparr>))
            (andthen (updrr (\<lambda>p. p\<lparr>m_ProxyInfos := proxyInfos\<rparr>))
                     (ret old))))) (\<lambda>old.
     andthen (mapM_prog (delete_proxy H) old) (ret ())))"

definition Init :: "'w hiredis \<Rightarrow> ('w, 'j) zk_env \<Rightarrow> addr \<Rightarrow> string \<Rightarrow> ('w rr_state, unit) prog" where
  "Init H Z sp proxyPath =
     bnd (getrr m_Zh) (\<lambda>zh.
     bnd (GetProxyInfos Z sp zh proxyPath) (\<lambda>proxyInfos.
     if proxyInfos = [] then
       andthen (rsys (LOG ERROR ''no proxy can be used!'')) (abort (Exit 1))
     else InitProxyConns H Z proxyInfos))"

section \<open>The connection to ZooKeeper\<close>

text \<open>
  The polling loop, with the number of rounds left; the state is read once more when none is left.
  Connecting in that last round does not help: a count of 10000 exits.
\<close>

fun zk_wait :: "('w, 'j) zk_env \<Rightarrow> ptr \<Rightarrow> nat \<Rightarrow> ('w rr_state, nat) prog" where
  "zk_wait Z zh 0 = bnd (rworld (zk_state Z zh)) (\<lambda>st. ret 0)"
| "zk_wait Z zh (Suc left) =
     bnd (rworld (zk_state Z zh)) (\<lambda>st.
       if st \<noteq> zoo_connected Z then zk_wait Z zh left else ret (Suc left))"

definition zk_connect :: "'w hiredis \<Rightarrow> ('w, 'j) zk_env \<Rightarrow> addr \<Rightarrow> ('w rr_state, unit) prog" where
  "zk_connect H Z sp =
     bnd (getrr (\<lambda>p. (m_ZookeeperAddr p, m_ProxyPath p))) (\<lambda>(zaddr, path).
     bnd (rworld (zk_init Z (c_str zaddr))) (\<lambda>zh.
     andthen (updrr (\<lambda>p. p\<lparr>m_Zh := zh\<rparr>))
     (bnd (zk_wait Z zh 10000) (\<lambda>left.
      if left = 0 then
        andthen (rsys (LOG ERROR (''connect zookeeper error! zookeeperAddr='' @ zaddr)))
                (abort (Exit 1))
      else Init H Z sp path))))"

definition RoundRobinCodisPool_new ::
  "'w hiredis \<Rightarrow> ('w, 'j) zk_env \<Rightarrow> addr \<Rightarrow> string \<Rightarrow> string \<Rightarrow> string \<Rightarrow> ('w rr_state, unit) prog" where
  "RoundRobinCodisPool_new H Z sp zookeeperAddr proxyPath businessID =
     andthen (updrr (\<lambda>_. \<lparr>m_Proxys = [], proxyIndex = - 1, m_ProxyInfos = [], m_Zh = None,
                m_ZookeeperAddr = zookeeperAddr, m_ProxyPath = proxyPath,
                m_BusinessID = businessID, m_Mutex = False\<rparr>))
             (zk_connect H Z sp)"

definition RoundRobinCodisPool_delete :: "'w hiredis \<Rightarrow> ('w rr_state, unit) prog" where
  "RoundRobinCodisPool_delete H =
     lock_rr (bnd (getrr m_Proxys) (\<lambda>ps. andthen (mapM_prog (delete_proxy H) ps) (ret ())))"

text \<open>The watcher, called by the library with the type of event and the state of the session.\<close>

definition zk_reconnect :: "'w hiredis \<Rightarrow> ('w, 'j) zk_env \<Rightarrow> addr \<Rightarrow> ('w rr_state, unit) prog" where
  "zk_reconnect H Z sp =
     bnd (getrr m_Zh) (\<lambda>zh.
     andthen (rworld (\<lambda>w. ((), zk_close Z zh w)))
             (zk_connect H Z sp))"

definition proxy_watcher ::
  "'w hiredis \<Rightarrow> ('w, 'j) zk_env \<Rightarrow> addr \<Rightarrow> c_int \<Rightarrow> c_int \<Rightarrow> ('w rr_state, unit) prog" where
  "proxy_watcher H Z sp type state =
     andthen (rsys (LOG INFO (''zkevent type='' @ int2string type @ ''stats='' @ int2string state)))
     (if type = zev_session Z \<and> state = zoo_connecting Z then zk_reconnect H Z sp
      else if type = zev_session Z \<and> state = zoo_expired Z then zk_reconnect H Z sp
      else if type = zev_session Z \<and> state = zoo_connected Z then ret ()
      else if state = zoo_connected Z \<and> type = zev_changed Z then ret ()
      else if state = zoo_connected Z \<and> type = zev_deleted Z then ret ()
      else if state = zoo_connected Z \<and> type = zev_child Z then
        bnd (getrr m_ProxyPath) (Init H Z sp)
      else if state = zoo_connected Z \<and> type = zev_created Z then ret ()
      else rsys (LOG ERROR ''zookeeper connection state changed but not implemented''))"

section \<open>Lemmas: running the operations\<close>

named_theorems rr_simps

lemma rsys_apply [rr_simps]: "rsys m s = (case m (rr_sys s) of (r, t) \<Rightarrow> (r, s\<lparr>rr_sys := t\<rparr>))"
  by (simp add: rsys_def lift_prog_def)

lemma rworld_apply [rr_simps]:
  "rworld f s = (case f (world (rr_sys s)) of
     (x, w) \<Rightarrow> (Ret x, s\<lparr>rr_sys := (rr_sys s)\<lparr>world := w\<rparr>\<rparr>))"
  by (simp add: rworld_def rr_simps split: prod.splits)

lemma getrr_apply [rr_simps]: "getrr f s = (Ret (f (rr_pool s)), s)"
  by (simp add: getrr_def getst_def)

lemma bnd_getrr [rr_simps]: "bnd (getrr g) f s = f (g (rr_pool s)) s"
  by (simp add: bnd_def rr_simps)

lemma updrr_apply [rr_simps]: "updrr f s = (Ret (), s\<lparr>rr_pool := f (rr_pool s)\<rparr>)"
  by (simp add: updrr_def updst_def)

lemma bnd_updrr [rr_simps]: "bnd (updrr g) f s = f () (s\<lparr>rr_pool := g (rr_pool s)\<rparr>)"
  by (simp add: bnd_def rr_simps)

lemma lock_rr_apply [rr_simps]:
  "lock_rr m s =
     (if m_Mutex (rr_pool s) then (Abrupt Deadlock, s)
      else (case m (s\<lparr>rr_pool := (rr_pool s)\<lparr>m_Mutex := True\<rparr>\<rparr>) of
              (r, t) \<Rightarrow> (r, t\<lparr>rr_pool := (rr_pool t)\<lparr>m_Mutex := False\<rparr>\<rparr>)))"
  by (simp add: lock_rr_def ScopedLock_def)

section \<open>The interface: a source of proxies\<close>

text \<open>
  \<open>ok k s\<close>: the source is in order and good for \<open>k\<close> more calls. The client of the interface gets the
  entries of the list in turn.
\<close>

locale proxy_source =
  fixes get :: "('s, addr) prog"
    and ok :: "nat \<Rightarrow> 's \<Rightarrow> bool"
    and pxs :: "'s \<Rightarrow> addr list"
    and pos :: "'s \<Rightarrow> nat"
  assumes get_law: "ok (Suc k) s \<Longrightarrow>
      \<exists>s'. get s = (Ret (pxs s ! (pos s mod length (pxs s))), s') \<and> ok k s' \<and> pxs s' = pxs s \<and>
           pos s' = Suc (pos s)"
    and some_proxy: "ok k s \<Longrightarrow> pxs s \<noteq> []"
begin

lemma calls:
  "ok (length us) s \<Longrightarrow>
     \<exists>s'. mapM_prog (\<lambda>_. get) us s =
            (Ret (map (\<lambda>j. pxs s ! ((pos s + j) mod length (pxs s))) [0..<length us]), s') \<and>
          ok 0 s' \<and> pxs s' = pxs s \<and> pos s' = pos s + length us"
proof (induction us arbitrary: s)
  case Nil
  then show ?case by (simp add: prog_simps)
next
  case (Cons u us)
  then have "ok (Suc (length us)) s" by simp
  from get_law [OF this] obtain s1 where
    g: "get s = (Ret (pxs s ! (pos s mod length (pxs s))), s1)" and "ok (length us) s1"
    and p: "pxs s1 = pxs s" "pos s1 = Suc (pos s)" by auto
  from Cons.IH [OF this(2)] obtain s2 where
    m: "mapM_prog (\<lambda>_. get) us s1 =
      (Ret (map (\<lambda>j. pxs s ! ((Suc (pos s) + j) mod length (pxs s))) [0..<length us]), s2)"
    and "ok 0 s2" "pxs s2 = pxs s" "pos s2 = pos s + Suc (length us)"
    by (auto simp: p)
  moreover have "[0..<length (u # us)] = 0 # map Suc [0..<length us]"
    by (simp add: map_Suc_upt upt_conv_Cons del: upt_Suc)
  ultimately show ?case by (simp add: bnd_def prog_simps g m comp_def del: upt_Suc)
qed

text \<open>As many calls as there are proxies give each of them once, in the order of the list.\<close>

lemma turn:
  assumes "ok (length (pxs s)) s" and "length us = length (pxs s)"
  shows "\<exists>s'. mapM_prog (\<lambda>_. get) us s = (Ret (rotate (pos s) (pxs s)), s') \<and> ok 0 s'"
proof -
  have "map (\<lambda>j. pxs s ! ((pos s + j) mod length (pxs s))) [0..<length us] = rotate (pos s) (pxs s)"
    using assms(2) by (intro nth_equalityI) (simp_all add: nth_rotate)
  with calls [of us s] assms show ?thesis by auto
qed

end

section \<open>The pool provides it\<close>

definition rr_ok :: "'w rr_state \<Rightarrow> bool" where
  "rr_ok s \<longleftrightarrow>
     \<not> m_Mutex (rr_pool s) \<and> m_Proxys (rr_pool s) \<noteq> [] \<and> length (m_Proxys (rr_pool s)) < 2 ^ 31 \<and>
     distinct (m_Proxys (rr_pool s)) \<and> set (m_Proxys (rr_pool s)) \<subseteq> dom (rr_clients s) \<and>
     dom (rr_clients s) \<subseteq> {..<next_addr (rr_sys s)} \<and> - 1 \<le> sint (proxyIndex (rr_pool s))"

definition rr_good :: "nat \<Rightarrow> 'w rr_state \<Rightarrow> bool" where
  "rr_good k s \<longleftrightarrow> rr_ok s \<and> sint (proxyIndex (rr_pool s)) + int k < 2 ^ 31"

definition rr_pos :: "'w rr_state \<Rightarrow> nat" where
  "rr_pos s = nat (sint (proxyIndex (rr_pool s)) + 1)"

lemma GetProxy_step:
  assumes "rr_good (Suc k) s"
  defines "p \<equiv> rr_pool s"
  defines "a \<equiv> m_Proxys p ! (rr_pos s mod length (m_Proxys p))"
  shows "GetProxy s = (Ret a, s\<lparr>rr_pool := p\<lparr>proxyIndex := proxyIndex p + 1\<rparr>\<rparr>)"
    and "sint (proxyIndex p + 1) = sint (proxyIndex p) + 1" and "a \<in> set (m_Proxys p)"
proof -
  let ?n = "length (m_Proxys p)" and ?i = "proxyIndex p"
  have m: "\<not> m_Mutex p" and n: "0 < ?n" "?n < 2 ^ 31" and i: "- 1 \<le> sint ?i" "sint ?i + 1 < 2 ^ 31"
    using assms(1) by (auto simp: rr_good_def rr_ok_def p_def)
  have ne: "?i \<noteq> 0x7FFFFFFF"
  proof
    assume "?i = 0x7FFFFFFF"
    with i(2) show False by simp
  qed
  then show s: "sint (?i + 1) = sint ?i + 1" by (rule sint_succ)
  have "0 \<le> sint (?i + 1)" using s i(1) by simp
  from mod_index [OF this n] have k: "unat (scast (ucast ((scast (?i + 1) :: c_size) mod of_nat ?n) :: c_int) :: c_size)
      = rr_pos s mod ?n" by (simp add: s [unfolded p_def] rr_pos_def p_def)
  have "unat (of_nat ?n :: c_size) = ?n" using n(2) by (simp add: unsigned_of_nat take_bit_nat_eq_self)
  with n(1) have nz: "(of_nat ?n :: c_size) \<noteq> 0" by (metis unsigned_0 less_irrefl)
  have lt: "rr_pos s mod ?n < ?n" using n by simp
  then show "a \<in> set (m_Proxys p)" by (simp add: a_def)
  show "GetProxy s = (Ret a, s\<lparr>rr_pool := p\<lparr>proxyIndex := ?i + 1\<rparr>\<rparr>)"
    using m ne nz lt unfolding a_def p_def [symmetric]
    by (simp add: GetProxy_def rr_simps prog_simps Let_def k p_def [symmetric])
qed

interpretation rr: proxy_source "GetProxy :: ('w rr_state, addr) prog" rr_good "m_Proxys \<circ> rr_pool" rr_pos
proof
  fix k and s :: "'w rr_state"
  assume g: "rr_good (Suc k) s"
  show "\<exists>s'. GetProxy s = (Ret ((m_Proxys \<circ> rr_pool) s ! (rr_pos s mod length ((m_Proxys \<circ> rr_pool) s))), s') \<and>
             rr_good k s' \<and> (m_Proxys \<circ> rr_pool) s' = (m_Proxys \<circ> rr_pool) s \<and> rr_pos s' = Suc (rr_pos s)"
    using GetProxy_step [OF g] g by (auto simp: rr_good_def rr_ok_def rr_pos_def)
next
  fix k and s :: "'w rr_state"
  assume "rr_good k s"
  then show "(m_Proxys \<circ> rr_pool) s \<noteq> []" by (simp add: rr_good_def rr_ok_def)
qed

section \<open>Lemmas: deleting clients\<close>

text \<open>A client nobody is using, with the idle contexts \<open>as\<close> in its pool.\<close>

definition idle_client :: "CodisClient \<Rightarrow> addr list \<Rightarrow> bool" where
  "idle_client c as \<longleftrightarrow> rw_readers c = 0 \<and> \<not> rw_writer c \<and>
     (\<exists>p. m_ConnPool c = Some p \<and> \<not> unUsedMutex p \<and> unUsed p = map Some as)"

lemma mapM_Destroy:
  "distinct as \<Longrightarrow> set as \<subseteq> dom (ctxs s) \<Longrightarrow>
     \<exists>us s'. mapM_prog (\<lambda>it. andthen (LOG INFO (f it)) (Destroy H it)) (map Some as) s = (Ret us, s') \<and>
          ctxs s' = ctxs s |` (- set as) \<and> next_addr s' = next_addr s"
proof (induction as arbitrary: s)
  case Nil
  have "ctxs s |` UNIV = ctxs s" by (rule ext) simp
  then show ?case by (simp add: prog_simps)
next
  case (Cons a as)
  then obtain x where x: "ctxs s a = Some x" by auto
  let ?s = "s\<lparr>world := hr_free H x (world s), ctxs := (ctxs s)(a := None),
              logs := (logs s @ [(INFO, f (Some a))]) @ [(INFO, ''free redis context'')]\<rparr>"
  have one: "andthen (LOG INFO (f (Some a))) (Destroy H (Some a)) s = (Ret (), ?s)"
    using x by (simp add: run_simps bnd_def Destroy_def)
  have "distinct as" and "set as \<subseteq> dom (ctxs ?s)" using Cons.prems by auto
  from Cons.IH [OF this] obtain us s' where
    m: "mapM_prog (\<lambda>it. andthen (LOG INFO (f it)) (Destroy H it)) (map Some as) ?s = (Ret us, s')"
    and c: "ctxs s' = ctxs ?s |` (- set as)" and n: "next_addr s' = next_addr ?s" by blast
  have "ctxs s' = ctxs s |` (- set (a # as))" unfolding c by (rule ext) (auto simp: restrict_map_def)
  with mapM_Cons_Ret [where f = "\<lambda>it. andthen (LOG INFO (f it)) (Destroy H it)", OF one m] n
  show ?case by (simp only: list.map simp_thms) simp
qed

lemma CodisClient_delete_idle:
  assumes "idle_client c as" and "distinct as" and "set as \<subseteq> dom (ctxs s)"
  shows "\<exists>s' c'. CodisClient_delete H (s, c) = (Ret (), (s', c')) \<and>
           ctxs s' = ctxs s |` (- set as) \<and> next_addr s' = next_addr s"
proof -
  from assms(1) obtain p where l: "rw_readers c = 0" "\<not> rw_writer c" and p: "m_ConnPool c = Some p"
    and m: "\<not> unUsedMutex p" and q: "unUsed p = map Some as" by (auto simp: idle_client_def)
  from mapM_Destroy [OF assms(2,3), of "\<lambda>it. ''begin closing ~~~ mapping; redisContext* = '' @ ptr_to_str it" H]
  obtain us s' where
    d: "mapM_prog (\<lambda>it. andthen (LOG INFO (''begin closing ~~~ mapping; redisContext* = '' @ ptr_to_str it))
          (Destroy H it)) (map Some as) s = (Ret us, s')"
    and e: "ctxs s' = ctxs s |` (- set as)" "next_addr s' = next_addr s" by blast
  have "RedisClientPool_delete H (s, p) = (Ret (), (s', p))"
    using m q d by (simp add: RedisClientPool_delete_def pool_simps prog_simps bnd_def)
  then show ?thesis
    using l p e by (simp add: CodisClient_delete_def wrlock_def rwunlock_def client_simps prog_simps bnd_def)
qed

lemma delete_proxy_idle:
  assumes "rr_clients s a = Some c" and "idle_client c as" and "distinct as"
    and "set as \<subseteq> dom (ctxs (rr_sys s))"
  shows "\<exists>t. delete_proxy H a s = (Ret (), s\<lparr>rr_sys := t, rr_clients := (rr_clients s)(a := None)\<rparr>) \<and>
           ctxs t = ctxs (rr_sys s) |` (- set as) \<and> next_addr t = next_addr (rr_sys s)"
proof -
  from CodisClient_delete_idle [OF assms(2-4), of H] obtain t c' where
    "CodisClient_delete H (rr_sys s, c) = (Ret (), (t, c'))"
    "ctxs t = ctxs (rr_sys s) |` (- set as)" "next_addr t = next_addr (rr_sys s)" by auto
  with assms(1) show ?thesis by (auto simp: delete_proxy_def onclient_def prog_simps bnd_def)
qed

text \<open>All clients of a list idle, their contexts live and in one pool each.\<close>

definition deletable :: "'w rr_state \<Rightarrow> addr list \<Rightarrow> addr list list \<Rightarrow> bool" where
  "deletable s ps ass \<longleftrightarrow>
     list_all2 (\<lambda>a as. \<exists>c. rr_clients s a = Some c \<and> idle_client c as) ps ass \<and>
     distinct ps \<and> distinct (concat ass) \<and> set (concat ass) \<subseteq> dom (ctxs (rr_sys s))"

lemma deletable_Cons:
  fixes s :: "'w rr_state"
  assumes "deletable s (a # ps) ass"
  obtains c as ass' where "ass = as # ass'" and "rr_clients s a = Some c" and "idle_client c as"
    and "distinct as" and "set as \<subseteq> dom (ctxs (rr_sys s))"
    and "\<And>s' :: 'w rr_state. ctxs (rr_sys s') = ctxs (rr_sys s) |` (- set as) \<Longrightarrow>
          rr_clients s' = (rr_clients s)(a := None) \<Longrightarrow> deletable s' ps ass'"
proof -
  from assms obtain as ass' c where ass: "ass = as # ass'" and "rr_clients s a = Some c"
    and "idle_client c as" and r: "list_all2 (\<lambda>a as. \<exists>c. rr_clients s a = Some c \<and> idle_client c as) ps ass'"
    by (auto simp: deletable_def list_all2_Cons1)
  moreover have "distinct as" and "set as \<subseteq> dom (ctxs (rr_sys s))"
    using assms by (auto simp: deletable_def ass)
  moreover have "deletable s' ps ass'" if "ctxs (rr_sys s') = ctxs (rr_sys s) |` (- set as)"
    and "rr_clients s' = (rr_clients s)(a := None)" for s' :: "'w rr_state"
  proof -
    have a: "a \<notin> set ps" using assms by (simp add: deletable_def)
    have "list_all2 (\<lambda>b as. \<exists>c. rr_clients s' b = Some c \<and> idle_client c as) ps ass'"
      using r a by (auto simp: list_all2_conv_all_nth that(2))
    moreover have "set (concat ass') \<subseteq> dom (ctxs (rr_sys s'))"
      using assms by (auto simp: deletable_def ass that(1))
    ultimately show ?thesis using assms by (auto simp: deletable_def ass)
  qed
  ultimately show thesis using that by blast
qed

lemma mapM_delete:
  fixes s :: "'w rr_state"
  shows "deletable s ps ass \<Longrightarrow>
     \<exists>us t. mapM_prog (delete_proxy H) ps s =
       (Ret us, s\<lparr>rr_sys := t, rr_clients := rr_clients s |` (- set ps)\<rparr>) \<and>
       next_addr t = next_addr (rr_sys s)"
proof (induction ps arbitrary: s ass)
  case Nil
  have "rr_clients s |` UNIV = rr_clients s" by (rule ext) simp
  then show ?case by (auto simp add: prog_simps intro!: exI [of _ "rr_sys s"])
next
  case (Cons a ps)
  from Cons.prems show ?case
  proof (rule deletable_Cons)
    fix c as ass'
    assume a: "rr_clients s a = Some c" "idle_client c as" "distinct as" "set as \<subseteq> dom (ctxs (rr_sys s))"
      and nxt: "\<And>s' :: 'w rr_state. ctxs (rr_sys s') = ctxs (rr_sys s) |` (- set as) \<Longrightarrow>
          rr_clients s' = (rr_clients s)(a := None) \<Longrightarrow> deletable s' ps ass'"
    from delete_proxy_idle [OF a, of H] obtain t where
      one: "delete_proxy H a s = (Ret (), s\<lparr>rr_sys := t, rr_clients := (rr_clients s)(a := None)\<rparr>)"
      and t: "ctxs t = ctxs (rr_sys s) |` (- set as)" "next_addr t = next_addr (rr_sys s)" by auto
    let ?s = "s\<lparr>rr_sys := t, rr_clients := (rr_clients s)(a := None)\<rparr>"
    have "deletable ?s ps ass'" by (rule nxt) (use t(1) in simp_all)
    from Cons.IH [OF this] obtain us t' where
      m: "mapM_prog (delete_proxy H) ps ?s =
        (Ret us, ?s\<lparr>rr_sys := t', rr_clients := rr_clients ?s |` (- set ps)\<rparr>)"
      and t': "next_addr t' = next_addr (rr_sys ?s)" by blast
    have "(rr_clients s)(a := None) |` (- set ps) = rr_clients s |` (- set (a # ps))"
      by (rule ext) (auto simp: restrict_map_def)
    with mapM_Cons_Ret [of "delete_proxy H", OF one m] t(2) t' show ?thesis by auto
  qed
qed

section \<open>Lemmas: creating clients\<close>

text \<open>Creating a thread always works.\<close>

definition threads_ok :: "('w, 'j) zk_env \<Rightarrow> bool" where
  "threads_ok Z \<longleftrightarrow> (\<forall>w. fst (os_thread Z w) = 0)"

definition fresh_client :: "string \<Rightarrow> string \<times> c_int \<Rightarrow> CodisClient \<Rightarrow> bool" where
  "fresh_client bid info c \<longleftrightarrow> proxy_IP c = fst info \<and> m_BID c = bid \<and> rw_readers c = 0 \<and> \<not> rw_writer c \<and>
     (\<exists>g. m_ConnPool c = Some (RedisClientPool_default g (fst info) (snd info)))"

lemma new_proxy_ok:
  assumes "threads_ok Z"
  shows "\<exists>c w. new_proxy Z info s = (Ret (next_addr (rr_sys s)),
       s\<lparr>rr_sys := (rr_sys s)\<lparr>world := w, next_addr := Suc (next_addr (rr_sys s))\<rparr>,
         rr_clients := (rr_clients s)(next_addr (rr_sys s) \<mapsto> c)\<rparr>) \<and>
       fresh_client (m_BusinessID (rr_pool s)) info c"
proof -
  obtain l w1 where 1: "os_loop Z (world (rr_sys s)) = (l, w1)" by fastforce
  obtain rc w2 where 2: "os_thread Z w1 = (rc, w2)" by fastforce
  with assms have "rc = 0" by (metis threads_ok_def fst_conv)
  let ?c = "\<lparr>m_Loop = l, m_ConnPool = Some (RedisClientPool_default (os_word Z w2) (fst info) (snd info)),
      m_BID = m_BusinessID (rr_pool s), rw_readers = 0, rw_writer = False, proxy_IP = fst info,
      proxy_Port = [char_of (unat (snd info) mod 256)]\<rparr>"
  have "fresh_client (m_BusinessID (rr_pool s)) info ?c" by (auto simp: fresh_client_def)
  moreover have "new_proxy Z info s = (Ret (next_addr (rr_sys s)),
       s\<lparr>rr_sys := (rr_sys s)\<lparr>world := w2, next_addr := Suc (next_addr (rr_sys s))\<rparr>,
         rr_clients := (rr_clients s)(next_addr (rr_sys s) \<mapsto> ?c)\<rparr>)"
    using 1 2 \<open>rc = 0\<close>
    by (simp add: new_proxy_def rr_simps bnd_def prog_simps CodisClient_new_def Let_def)
  ultimately show ?thesis by blast
qed

text \<open>The new clients take consecutive fresh addresses and leave the rest of the process as it is.\<close>

lemma mapM_new_proxy:
  assumes Z: "threads_ok Z"
  shows "dom (rr_clients s) \<subseteq> {..<next_addr (rr_sys s)} \<Longrightarrow>
     \<exists>s'. mapM_prog (new_proxy Z) infos s =
            (Ret [next_addr (rr_sys s) ..< next_addr (rr_sys s) + length infos], s') \<and>
       rr_pool s' = rr_pool s \<and> ctxs (rr_sys s') = ctxs (rr_sys s) \<and>
       next_addr (rr_sys s') = next_addr (rr_sys s) + length infos \<and>
       dom (rr_clients s') \<subseteq> {..<next_addr (rr_sys s')} \<and>
       (\<forall>a < next_addr (rr_sys s). rr_clients s' a = rr_clients s a) \<and>
       (\<forall>i < length infos. \<exists>c. rr_clients s' (next_addr (rr_sys s) + i) = Some c \<and>
          fresh_client (m_BusinessID (rr_pool s)) (infos ! i) c)"
proof (induction infos arbitrary: s)
  case Nil
  then show ?case by (simp add: prog_simps)
next
  case (Cons info infos)
  let ?n = "next_addr (rr_sys s)"
  from new_proxy_ok [OF Z, of info s] obtain c s1 where
    one: "new_proxy Z info s = (Ret ?n, s1)" and c: "fresh_client (m_BusinessID (rr_pool s)) info c"
    and s1: "rr_pool s1 = rr_pool s" "ctxs (rr_sys s1) = ctxs (rr_sys s)"
      "next_addr (rr_sys s1) = Suc ?n" "rr_clients s1 = (rr_clients s)(?n \<mapsto> c)" by auto
  have "dom (rr_clients s1) \<subseteq> {..<next_addr (rr_sys s1)}" using Cons.prems unfolding s1 by auto
  from Cons.IH [OF this, unfolded s1(1-3)] obtain s' where
    m: "mapM_prog (new_proxy Z) infos s1 = (Ret [Suc ?n ..< Suc ?n + length infos], s')"
    and e: "rr_pool s' = rr_pool s" "ctxs (rr_sys s') = ctxs (rr_sys s)"
      "next_addr (rr_sys s') = Suc ?n + length infos" "dom (rr_clients s') \<subseteq> {..<next_addr (rr_sys s')}"
    and old: "\<forall>a < Suc ?n. rr_clients s' a = rr_clients s1 a"
    and new: "\<forall>i < length infos. \<exists>c. rr_clients s' (Suc ?n + i) = Some c \<and>
          fresh_client (m_BusinessID (rr_pool s)) (infos ! i) c" by blast
  have "\<exists>c'. rr_clients s' (?n + i) = Some c' \<and> fresh_client (m_BusinessID (rr_pool s)) ((info # infos) ! i) c'"
    if "i < length (info # infos)" for i
    using that old new c s1(4) by (cases i) auto
  moreover have "[?n ..< ?n + length (info # infos)] = ?n # [Suc ?n ..< Suc ?n + length infos]"
    by (simp add: upt_conv_Cons del: upt_Suc)
  moreover have "\<forall>a < ?n. rr_clients s' a = rr_clients s a" using old s1(4) by simp
  ultimately show ?case
    using mapM_Cons_Ret [of "new_proxy Z", OF one m] e
    by (intro exI [of _ s'] conjI) (simp_all del: upt_Suc mapM_prog.simps)
qed

section \<open>Replacing the list\<close>

text \<open>
  A refresh over a list of idle clients: the new list holds one new client per proxy reported, in
  order; the index goes on; the old clients are gone.
\<close>

lemma InitProxyConns_replaces:
  assumes ok: "dom (rr_clients s) \<subseteq> {..<next_addr (rr_sys s)}" "\<not> m_Mutex (rr_pool s)"
      "- 1 \<le> sint (proxyIndex (rr_pool s))"
    and old: "deletable s (m_Proxys (rr_pool s)) ass"
    and Z: "threads_ok Z" and infos: "infos \<noteq> []" "length infos < 2 ^ 31"
  shows "\<exists>s'. InitProxyConns H Z infos s = (Ret (), s') \<and> rr_ok s' \<and>
       m_ProxyInfos (rr_pool s') = infos \<and> proxyIndex (rr_pool s') = proxyIndex (rr_pool s) \<and>
       list_all2 (\<lambda>a info. \<exists>c. rr_clients s' a = Some c \<and> fresh_client (m_BusinessID (rr_pool s)) info c)
         (m_Proxys (rr_pool s')) infos \<and>
       (\<forall>a \<in> set (m_Proxys (rr_pool s)). rr_clients s' a = None)"
proof -
  let ?n = "next_addr (rr_sys s)" and ?old = "m_Proxys (rr_pool s)"
  let ?new = "[?n ..< ?n + length infos]"
  from mapM_new_proxy [OF Z ok(1), of infos] obtain s1 where
    m1: "mapM_prog (new_proxy Z) infos s = (Ret ?new, s1)"
    and p1: "rr_pool s1 = rr_pool s" and c1: "ctxs (rr_sys s1) = ctxs (rr_sys s)"
    and n1: "next_addr (rr_sys s1) = ?n + length infos"
    and d1: "dom (rr_clients s1) \<subseteq> {..<?n + length infos}"
    and o1: "\<forall>a < ?n. rr_clients s1 a = rr_clients s a"
    and f1: "\<forall>i < length infos. \<exists>c. rr_clients s1 (?n + i) = Some c \<and>
          fresh_client (m_BusinessID (rr_pool s)) (infos ! i) c" by auto
  let ?s2 = "s1\<lparr>rr_pool := (rr_pool s)\<lparr>m_Proxys := ?new, m_ProxyInfos := infos, m_Mutex := False\<rparr>\<rparr>"
  have lt: "\<forall>a \<in> set ?old. a < ?n"
    using old ok(1) by (fastforce simp: deletable_def list_all2_conv_all_nth in_set_conv_nth)
  then have "list_all2 (\<lambda>a as. \<exists>c. rr_clients ?s2 a = Some c \<and> idle_client c as) ?old ass"
    using old o1 by (auto simp: deletable_def list_all2_conv_all_nth)
  then have "deletable ?s2 ?old ass" using old c1 by (simp add: deletable_def)
  from mapM_delete [OF this, of H] obtain us t where
    m2: "mapM_prog (delete_proxy H) ?old ?s2 =
       (Ret us, ?s2\<lparr>rr_sys := t, rr_clients := rr_clients s1 |` (- set ?old)\<rparr>)"
    and t: "next_addr t = ?n + length infos" using n1 by auto
  let ?s3 = "?s2\<lparr>rr_sys := t, rr_clients := rr_clients s1 |` (- set ?old)\<rparr>"
  have dis: "a \<notin> set ?old" if "a \<in> set ?new" for a using that lt by fastforce
  have live: "\<exists>c. rr_clients ?s3 (?n + i) = Some c \<and> fresh_client (m_BusinessID (rr_pool s)) (infos ! i) c"
    if "i < length infos" for i
    using that f1 dis by (auto simp: restrict_map_def)
  have "InitProxyConns H Z infos s = (Ret (), ?s3)"
    using m1 m2 ok(2) p1 by (simp add: InitProxyConns_def rr_simps prog_simps bnd_def)
  moreover have "rr_ok ?s3"
  proof -
    have "set ?new \<subseteq> dom (rr_clients ?s3)"
    proof
      fix a assume "a \<in> set ?new"
      then obtain i where "a = ?n + i" "i < length infos" by (auto simp: le_iff_add)
      with live [of i] show "a \<in> dom (rr_clients ?s3)" by (metis domI)
    qed
    moreover have "dom (rr_clients ?s3) \<subseteq> {..<next_addr (rr_sys ?s3)}" using d1 t by auto
    ultimately show ?thesis using infos ok(3) by (simp add: rr_ok_def)
  qed
  moreover have "list_all2 (\<lambda>a info. \<exists>c. rr_clients ?s3 a = Some c \<and>
      fresh_client (m_BusinessID (rr_pool s)) info c) (m_Proxys (rr_pool ?s3)) infos"
    using live by (simp add: list_all2_conv_all_nth)
  moreover have "\<forall>a \<in> set ?old. rr_clients ?s3 a = None" by (simp add: restrict_map_def)
  ultimately show ?thesis by (intro exI [of _ ?s3]) simp
qed

end
