(* ===== verification/Concurrent_Properties.thy ===== *)
theory Concurrent_Properties
  imports Linearizability Redis_Server Round_Robin
begin

text \<open>
  What holds when many threads call one client at the same time: the commands are linearizable and the methods atomic,
  every thread can go on, connections are owned, nothing fails that would not fail alone, and what deleting the client
  does to the threads.
\<close>

section \<open>Lemmas: methods that send one command\<close>

text \<open>A method that settles by itself what it returns, or sends one command and decodes its reply.\<close>

definition sends_one :: "'w hiredis \<Rightarrow> ('w cst, 'a) prog \<Rightarrow> bool" where
  "sends_one H m \<longleftrightarrow> (\<exists>out. \<forall>s. m s = (out, s)) \<or>
     (\<exists>command tt d. m = bnd (RedisCommand H command tt) (\<lambda>rep. ret (d rep)))"

named_theorems sends_intros

lemma sends_simple [sends_intros]:
  "sends_one H (ret x)" "sends_one H (abort e)"
  "sends_one H (bnd (RedisCommand_cmd H c tt) (\<lambda>rep. ret (d rep)))"
  "sends_one H m \<Longrightarrow> sends_one H n \<Longrightarrow> sends_one H (if b then m else n)"
  "sends_one H (bnd m f) \<Longrightarrow> sends_one H (bnd n f) \<Longrightarrow> sends_one H (bnd (if b then m else n) f)"
  by (auto simp: sends_one_def RedisCommand_cmd_def ret_def abort_def)

lemma sends_command [sends_intros]: "sends_one H (RedisCommand H command tt)" "sends_one H (RedisCommand_cmd H c tt)"
proof -
  have "\<exists>d. RedisCommand H command tt = bnd (RedisCommand H command tt) (\<lambda>rep. ret (d rep))" for command
    by (rule exI [of _ id]) (simp add: bnd_ret_right)
  then show "sends_one H (RedisCommand H command tt)" "sends_one H (RedisCommand_cmd H c tt)"
    unfolding sends_one_def RedisCommand_cmd_def by blast+
qed

lemma sends_value_of [sends_intros]:
  assumes "sends_one H m"
  shows "sends_one H (value_of f m)"
  using assms unfolding sends_one_def
proof (elim disjE exE)
  fix out assume "\<forall>s. m s = (out, s)"
  then show "(\<exists>out. \<forall>s. value_of f m s = (out, s)) \<or>
     (\<exists>command tt d. value_of f m = bnd (RedisCommand H command tt) (\<lambda>rep. ret (d rep)))"
    by (cases out) (auto simp: value_of_def bnd_def ret_def)
next
  fix command tt d assume "m = bnd (RedisCommand H command tt) (\<lambda>rep. ret (d rep))"
  then have "value_of f m = bnd (RedisCommand H command tt) (\<lambda>rep. ret (f (d rep)))" by (simp add: value_of_def bnd_assoc bnd_ret)
  then show "(\<exists>out. \<forall>s. value_of f m s = (out, s)) \<or>
     (\<exists>command tt d. value_of f m = bnd (RedisCommand H command tt) (\<lambda>rep. ret (d rep)))" by (intro disjI2 exI)
qed

lemma sends_checked [sends_intros]:
  assumes "\<And>c. sends_one H (k c)"
  shows "sends_one H (bnd (checked_calls c vs) k)" "sends_one H (bnd (checked_pairs c kvs) k)"
proof -
  show "sends_one H (bnd (checked_calls c vs) k)"
    using assms by (induction c vs rule: checked_calls.induct) (simp_all add: bnd_ret bnd_abort bnd_if sends_intros)
  show "sends_one H (bnd (checked_pairs c kvs) k)"
    using assms by (induction c kvs rule: checked_pairs.induct) (simp_all add: bnd_ret bnd_abort bnd_if sends_intros)
qed

lemma method_sends_one:
  assumes "synchronous call" and "\<And>cs. call \<noteq> OnCommand (call_RedisCommands cs)"
  shows "sends_one H (client_run H this call)"
proof (cases call)
  case (OnKey c)
  then show ?thesis by (cases c) (auto simp: client_op_defs intro!: sends_intros)
next
  case (OnString c)
  then show ?thesis using assms(1) by (cases c) (auto simp: client_op_defs synchronous_def intro!: sends_intros)
next
  case (OnList c)
  then show ?thesis by (cases c) (auto simp: client_op_defs intro!: sends_intros)
next
  case (OnSet c)
  then show ?thesis by (cases c) (auto simp: client_op_defs intro!: sends_intros)
next
  case (OnZset c)
  then show ?thesis by (cases c) (auto simp: client_op_defs intro!: sends_intros)
next
  case (OnHash c)
  then show ?thesis by (cases c) (auto simp: client_op_defs intro!: sends_intros)
next
  case (OnCommand c)
  then show ?thesis using assms(2) by (cases c) (auto intro!: sends_intros)
qed

text \<open>A call that sends the command \<open>cmd\<close> and decodes the reply with \<open>d\<close>.\<close>

definition decodes :: "'w hiredis \<Rightarrow> addr \<Rightarrow> client_call \<Rightarrow> string list \<times> c_int \<Rightarrow> (Reply \<Rightarrow> api_value) \<Rightarrow> bool" where
  "decodes H this call cmd d \<longleftrightarrow> client_run H this call = bnd (RedisCommand H (fst cmd) (snd cmd)) (\<lambda>rep. ret (d rep))"

lemma one_by_one_calls:
  assumes "\<And>t. t \<in> set order \<Longrightarrow> decodes H this (calls ! t) (cmds ! t) (ds ! t)"
    and "one_by_one H cmds order sc = (Ret replies, sc1)"
  shows "mapM_prog (client_run H this) (map ((!) calls) order) sc = (Ret (map2 (\<lambda>t rep. (ds ! t) rep) order replies), sc1)"
  using assms
proof (induction order arbitrary: sc replies)
  case Nil
  then show ?case by (simp add: one_by_one_def ret_def)
next
  case (Cons t order)
  from Cons.prems(2) obtain rep sc2 reps where "RedisCommand H (fst (cmds ! t)) (snd (cmds ! t)) sc = (Ret rep, sc2)"
    "one_by_one H cmds order sc2 = (Ret reps, sc1)" "replies = rep # reps"
    by (auto simp: one_by_one_def bnd_eq_Ret ret_def)
  with Cons.IH [of sc2 reps] Cons.prems(1) show ?case
    by (auto simp: decodes_def bnd_def ret_def)
qed

section \<open>A server to try them on\<close>

text \<open>A server that counts the commands it gets, and two threads that send it one each; the second is answered first.\<close>

definition counting :: "nat \<Rightarrow> string list \<Rightarrow> redisReply \<times> nat" where
  "counting n argv = (RedisReply 3 (of_nat (Suc n)) [] [], Suc n)"

definition counting_lib :: "nat hiredis" where
  "counting_lib = \<lparr>
     hr_connect = (\<lambda>ip prt w. (Some good_context, w)),
     hr_set_timeout = (\<lambda>c tv w. (c, w)),
     hr_command = (\<lambda>c argv w. case counting w argv of (r, w') \<Rightarrow> (Some r, c, w')),
     hr_free = (\<lambda>c w. w),
     hr_aconnect = (\<lambda>ip prt w. (Some good_actx, w)),
     hr_acommand = (\<lambda>c argv rq w. (0, c, w)),
     hr_adisconnect = (\<lambda>c w. (True, w))\<rparr>"

lemma counting_reliable: "reliable counting_lib (\<lambda>w. w) counting"
  by (auto simp: reliable_def counting_lib_def good_context_def REDIS_OK_def split: prod.splits)

definition two_incr :: "(string list \<times> c_int) list" where
  "two_incr = [([''INCR'', ''k''], 0), ([''INCR'', ''k''], 0)]"

definition counting_client :: "nat cst" where
  "counting_client = (empty_sys 0, new_client ''shop'')"

lemma counting_serving:
  "serving counting_lib (\<lambda>w. w) counting ''shop'' {} counting_client" "rw_readers (snd counting_client) = 0"
  "client_inv ''shop'' {} counting_client"
  by (simp_all add: serving_def counting_reliable counting_client_def new_client_inv) (simp add: new_client_def)

lemma two_incr_run:
  "case play counting_lib [0, 1, 0, 1, 0, 1, 0, 1, 1, 0, 0, 0, 1, 1] (counting_client, started two_incr) of
     None \<Rightarrow> False
   | Some (ls, sc, ts) \<Rightarrow> effects ls = [1, 0] \<and> length ls = 14 \<and> list_all (\<lambda>ph. steps_left ph = 0) ts"
  by code_simp

lemma two_incr_halfway:
  "case play counting_lib [0, 1, 0, 1, 0, 1, 0] (counting_client, started two_incr) of
     None \<Rightarrow> False
   | Some (ls, sc, ts) \<Rightarrow> ts = [Sending 1 [''INCR'', ''shop_k''] 0, Borrowed 2 [''INCR'', ''shop_k''] 0] \<and> length ls = 7"
  by code_simp

section \<open>Properties: one step after the other\<close>


text \<open>C4: Commands of many threads on one client are linearizable: over connections that work, when all threads have
  returned, whatever the order of their steps was, the replies and the state of the server are those of running the
  commands one by one in the order in which they took effect; each takes effect once, in a step of its own thread, so a
  command that had returned before another one started comes before it; and the client is idle again.\<close>

theorem commands_linearizable:
  assumes "serving H st srv bid {} sc" and "rw_readers (snd sc) = 0"
    and "threads_run H (sc, started cmds) (ls @ ls') (sc', ts)" and "list_all (\<lambda>ph. steps_left ph = 0) ts"
  shows "\<exists>replies sc1. distinct (effects (ls @ ls')) \<and> set (effects (ls @ ls')) = {..<length cmds} \<and>
    one_by_one H cmds (effects (ls @ ls')) sc = (Ret replies, sc1) \<and>
    map (\<lambda>t. returned (ts ! t)) (effects (ls @ ls')) = map Some replies \<and>
    st (world (fst sc')) = st (world (fst sc1)) \<and> serving H st srv bid {} sc' \<and> rw_readers (snd sc') = 0 \<and>
    {..<length cmds} - fst ` set ls' \<subseteq> set (effects ls) \<and> {..<length cmds} - fst ` set ls \<subseteq> set (effects ls')"
proof (rule run_finished [OF assms])
  fix replies sc1
  assume e: "set (effects (ls @ ls')) = {..<length cmds}" and "distinct (effects (ls @ ls'))"
    and "one_by_one H cmds (effects (ls @ ls')) sc = (Ret replies, sc1)"
    and "map (\<lambda>t. returned (ts ! t)) (effects (ls @ ls')) = map Some replies"
    and "st (world (fst sc1)) = st (world (fst sc'))" and "serving H st srv bid {} sc'" and "rw_readers (snd sc') = 0"
  moreover have "{..<length cmds} - fst ` set ls' \<subseteq> set (effects ls) \<and> {..<length cmds} - fst ` set ls \<subseteq> set (effects ls')"
    unfolding e [symmetric] using effects_threads [of ls] effects_threads [of ls'] by auto
  ultimately show ?thesis by (metis (no_types))
qed

theorem commands_linearizable_witness:
  "\<exists>ls sc ts replies sc1. threads_run counting_lib (counting_client, started two_incr) ls (sc, ts) \<and> effects ls = [1, 0] \<and>
     one_by_one counting_lib two_incr [1, 0] counting_client = (Ret replies, sc1) \<and>
     map (\<lambda>t. returned (ts ! t)) [1, 0] = map Some replies \<and> world (fst sc) = world (fst sc1)"
proof -
  from two_incr_run obtain ls sc ts where e: "effects ls = [1, 0]" and fin: "list_all (\<lambda>ph. steps_left ph = 0) ts"
    and p: "play counting_lib [0, 1, 0, 1, 0, 1, 0, 1, 1, 0, 0, 0, 1, 1] (counting_client, started two_incr) = Some (ls, sc, ts)"
    by (auto simp del: play.simps split: option.splits)
  have run: "threads_run counting_lib (counting_client, started two_incr) (ls @ []) (sc, ts)" using play_run [OF p] by simp
  from commands_linearizable [OF counting_serving(1,2) run fin] obtain replies sc1 where
    "one_by_one counting_lib two_incr [1, 0] counting_client = (Ret replies, sc1)"
    "map (\<lambda>t. returned (ts ! t)) [1, 0] = map Some replies" "world (fst sc) = world (fst sc1)" by (auto simp: e)
  with run e show ?thesis by (metis append_Nil2)
qed

text \<open>C10: Threads on one client never block each other (a critical section of the pool is one step) and do not run on for
  ever: over connections that work every thread that has not returned can take a step, in every configuration that can
  be reached, and ten steps for each thread are the most that there are.\<close>

theorem commands_finish:
  assumes "serving H st srv bid {} sc" and "rw_readers (snd sc) = 0"
    and "threads_run H (sc, started cmds) ls (sc', ts)"
  shows "length ls \<le> 10 * length cmds \<and>
    (\<forall>t < length ts. steps_left (ts ! t) = 0 \<or> (\<exists>e cf. thread_step H (sc', ts) (t, e) cf))"
proof (intro conjI allI impI)
  have "sum_list (map steps_left (started cmds)) = 10 * length cmds" by (induction cmds) auto
  then show "length ls \<le> 10 * length cmds" using run_length [OF assms(3)] by simp
next
  fix t assume "t < length ts"
  then show "steps_left (ts ! t) = 0 \<or> (\<exists>e cf. thread_step H (sc', ts) (t, e) cf)"
    using threads_progress [OF assms] by blast
qed

theorem commands_finish_witness:
  "\<exists>ls sc ts. threads_run counting_lib (counting_client, started two_incr) ls (sc, ts) \<and> length ls = 7 \<and>
     (\<exists>e cf. thread_step counting_lib (sc, ts) (0, e) cf)"
proof -
  from two_incr_halfway obtain ls sc ts where ts: "ts = [Sending 1 [''INCR'', ''shop_k''] 0, Borrowed 2 [''INCR'', ''shop_k''] 0]"
    "length ls = 7" and p: "play counting_lib [0, 1, 0, 1, 0, 1, 0] (counting_client, started two_incr) = Some (ls, sc, ts)"
    by (auto simp del: play.simps split: option.splits)
  from commands_finish [OF counting_serving(1,2) play_run [OF p]] have "\<exists>e cf. thread_step counting_lib (sc, ts) (0, e) cf"
    by (auto simp: ts)
  with play_run [OF p] ts(2) show ?thesis by blast
qed

text \<open>C11: Whatever the library does, and however the steps of the threads interleave, a connection that a thread is using
  is live, is in no other thread's hands and is not in the idle queue; and the read lock is held once for each
  thread that is between taking and releasing it.\<close>

theorem threads_own_connections:
  assumes "client_inv bid {} sc" and "rw_readers (snd sc) = 0"
    and "threads_run H (sc, started cmds) ls ((s, c), ts)"
  shows "\<exists>p. m_ConnPool c = Some p \<and> distinct (concat (map held ts)) \<and> rw_readers c = length (filter inside ts) \<and>
    (\<forall>a \<in> set (concat (map held ts)). a \<in> dom (ctxs s) \<and> Some a \<notin> set (unUsed p))"
proof -
  have I: "threads_inv bid ((s, c), ts)" by (rule run_threads_inv [OF assms(3,1,2)])
  then obtain p where p: "m_ConnPool c = Some p" "queue_ok (ctxs s) (unUsed p) (set (concat (map held ts)))"
    by (auto simp: threads_inv_def client_inv_def sync_inv_def)
  then have "\<forall>a \<in> set (concat (map held ts)). a \<in> dom (ctxs s) \<and> Some a \<notin> set (unUsed p)"
    unfolding queue_ok_def by auto
  with p(1) I show ?thesis by (simp add: threads_inv_def)
qed

theorem threads_own_connections_witness:
  "\<exists>ls s c ts p. threads_run counting_lib (counting_client, started two_incr) ls ((s, c), ts) \<and> map held ts = [[1], [2]] \<and>
     m_ConnPool c = Some p \<and> rw_readers c = 2 \<and> ctxs s 1 \<noteq> None \<and> Some 1 \<notin> set (unUsed p)"
proof -
  from two_incr_halfway obtain ls s c ts where ts: "ts = [Sending 1 [''INCR'', ''shop_k''] 0, Borrowed 2 [''INCR'', ''shop_k''] 0]"
    and p: "play counting_lib [0, 1, 0, 1, 0, 1, 0] (counting_client, started two_incr) = Some (ls, (s, c), ts)"
    by (auto simp del: play.simps split: option.splits)
  from threads_own_connections [OF counting_serving(3,2) play_run [OF p]] obtain q where "m_ConnPool c = Some q"
    "rw_readers c = 2" "ctxs s 1 \<noteq> None" "Some 1 \<notin> set (unUsed q)" by (auto simp: ts)
  moreover have "map held ts = [[1], [2]]" by (simp add: ts)
  ultimately show ?thesis using play_run [OF p]
    by (intro exI [of _ ls] exI [of _ s] exI [of _ c] exI [of _ ts] exI [of _ q] conjI)
qed

lemma cmd_step_abrupt:
  assumes i: "thread_inv bid B n ph (s, c)" and r: "cmd_step H ph (s, c) = (Abrupt e, sc')"
  shows "(\<exists>a argv tt. ph = Unanswered a argv tt \<and> e = Undef NullDeref) \<or>
    (\<exists>a. dangling ph = [a] \<and> ctxs s a = None \<and> e = Undef UseAfterFree)"
proof -
  from i obtain p where c: "m_ConnPool c = Some p" "\<not> rw_writer c" and p: "sync_inv (set (held ph) \<union> B) (s, p)"
    by (auto simp: thread_inv_def client_inv_def)
  from p have m: "\<not> unUsedMutex p" and h: "heap_ok s" and live: "\<And>a. a \<in> set (held ph) \<Longrightarrow> \<exists>x. ctxs s a = Some x"
    using queue_ok_live by (fastforce simp: sync_inv_def)+
  show ?thesis
  proof (cases ph)
    case (Locked argv tt)
    then show ?thesis using r c sync_borrow_returns [OF p, of H]
      by (auto simp: bnd_def ret_def client_simps split: option.splits)
  next
    case (Borrowed a argv tt)
    then show ?thesis using r live [of a] by (auto simp: run_simps client_simps bnd_def)
  next
    case (Sending a argv tt)
    then show ?thesis using r live [of a]
      by (auto simp: ret_def client_simps bnd_def redisCommandArgv_live split: prod.splits option.splits)
  next
    case (Unanswered a argv tt)
    with live obtain x where x: "ctxs s a = Some x" by auto
    obtain oc w where k: "hr_connect H (c_str (address p)) (port p) (hr_free H x (world s)) = (oc, w)" by fastforce
    have "next_addr s \<noteq> a" using heap_ok_below [OF h x] by simp
    from Reconnect_live [OF m x this k] show ?thesis using r c Unanswered
      by (auto simp: bnd_def ret_def client_simps split: option.splits if_splits)
  qed (use i r c m in \<open>auto simp: thread_inv_def prog_simps client_simps bnd_def redisCommandArgv_freed redisSetTimeout_freed
      returnItem_apply LOG_def split: if_splits\<close>)
qed

text \<open>C12: Sharing a client adds no way to fail. However the steps of the threads interleave and whatever the library does, a
  step of a thread ends abruptly only where the same command would alone: reconnecting when the library has no memory
  for a context, and the retry through the context that \<open>Reconnect\<close> has freed.\<close>

theorem concurrency_adds_no_failure:
  assumes "client_inv bid {} sc" and "rw_readers (snd sc) = 0"
    and "threads_run H (sc, started cmds) ls (sc', ts)" and "t < length ts"
    and "cmd_step H (ts ! t) sc' = (Abrupt e, sc'')"
  shows "(\<exists>a argv tt. ts ! t = Unanswered a argv tt \<and> e = Undef NullDeref) \<or>
    (\<exists>a. dangling (ts ! t) = [a] \<and> ctxs (fst sc') a = None \<and> e = Undef UseAfterFree)"
proof -
  obtain B n where "thread_inv bid B n (ts ! t) sc'" and "\<And>u. u < length ts \<Longrightarrow> u \<noteq> t \<Longrightarrow> set (held (ts ! u)) \<subseteq> B"
    using thread_view [OF run_threads_inv [OF assms(3,1,2)] assms(4)] by blast
  from cmd_step_abrupt [of bid B n "ts ! t" "fst sc'" "snd sc'"] this(1) assms(5) show ?thesis by simp
qed

text \<open>A server that never answers, and takes every connection.\<close>

definition silent_lib :: "unit hiredis" where
  "silent_lib = (canned_lib (RedisReply 6 0 [] []))\<lparr>hr_command := (\<lambda>c argv w. (None, c, w))\<rparr>"

lemma two_incr_silent:
  "case play silent_lib [0, 1, 0, 1, 0, 1, 0, 1, 0, 1, 0] ((empty_sys (), new_client ''shop''), started two_incr) of
     None \<Rightarrow> False
   | Some (ls, sc, ts) \<Rightarrow> ts = [Reconnected 1 [''INCR'', ''shop_k''] 0, Unanswered 2 [''INCR'', ''shop_k''] 0] \<and>
       (case cmd_step silent_lib (ts ! 0) sc of (Abrupt e, _) \<Rightarrow> e = Undef UseAfterFree | _ \<Rightarrow> False)"
  by code_simp

theorem concurrency_adds_no_failure_witness:
  "\<exists>ls sc ts sc'. threads_run silent_lib ((empty_sys (), new_client ''shop''), started two_incr) ls (sc, ts) \<and>
     cmd_step silent_lib (ts ! 0) sc = (Abrupt (Undef UseAfterFree), sc') \<and> ctxs (fst sc) 1 = None"
proof -
  from two_incr_silent obtain ls sc ts sc' where ts: "ts = [Reconnected 1 [''INCR'', ''shop_k''] 0, Unanswered 2 [''INCR'', ''shop_k''] 0]"
    and s: "cmd_step silent_lib (ts ! 0) sc = (Abrupt (Undef UseAfterFree), sc')"
    and p: "play silent_lib [0, 1, 0, 1, 0, 1, 0, 1, 0, 1, 0] ((empty_sys (), new_client ''shop''), started two_incr) = Some (ls, sc, ts)"
    by (auto simp del: play.simps cmd_step.simps split: option.splits prod.splits outcome.splits)
  have "rw_readers (snd (empty_sys (), new_client ''shop'')) = 0" by (simp add: new_client_def)
  from concurrency_adds_no_failure [OF new_client_inv this play_run [OF p] _ s] have "ctxs (fst sc) 1 = None" by (simp add: ts)
  with play_run [OF p] s show ?thesis by blast
qed

lemma CodisClient_delete_gone:
  assumes "CodisClient_delete H (s, c) = (Ret (), (s', c'))" and "m_ConnPool c \<noteq> None"
  shows "m_ConnPool c' = None \<and> \<not> rw_writer c'"
proof -
  from assms(1) have l: "rw_readers c = 0" "\<not> rw_writer c"
    by (auto simp: CodisClient_delete_def wrlock_def andthen_def bnd_def split: if_splits)
  obtain p where p: "m_ConnPool c = Some p" using assms(2) by blast
  obtain r s2 p2 where d: "RedisClientPool_delete H (s, p) = (r, (s2, p2))" by (metis prod.collapse)
  show ?thesis
    using assms(1) l p d by (cases r) (auto simp: CodisClient_delete_def wrlock_def rwunlock_def client_simps prog_simps bnd_def)
qed

text \<open>C13: Deleting a client waits for the threads that hold the read lock. When there is none it goes ahead at once, also
  when a thread has already found the pool to be there and is about to take the lock: that thread then goes through
  the pointer that the destructor has set to NULL.\<close>

theorem deletion_under_commands:
  assumes "client_inv bid {} sc" and "rw_readers (snd sc) = 0" and "threads_run H (sc, started cmds) ls (sc', ts)"
  shows "if \<exists>ph \<in> set ts. inside ph then CodisClient_delete H sc' = (Abrupt Deadlock, sc')
    else \<exists>sc2. CodisClient_delete H sc' = (Ret (), sc2) \<and> m_ConnPool (snd sc2) = None \<and>
      (\<forall>argv tt n. fst (cmd_run H (Suc (Suc n)) (Checked argv tt) sc2) = Abrupt (Undef NullDeref))"
proof -
  obtain s c where sc': "sc' = (s, c)" by fastforce
  have I: "threads_inv bid ((s, c), ts)" using run_threads_inv [OF assms(3,1,2)] by (simp add: sc')
  then obtain p as where p: "m_ConnPool c = Some p" "\<not> rw_writer c" "\<not> unUsedMutex p" "unUsed p = map Some as"
    "distinct as" "set as \<subseteq> dom (ctxs s)" and n: "rw_readers c = length (filter inside ts)"
    by (auto simp: threads_inv_def client_inv_def sync_inv_def queue_ok_def)
  show ?thesis
  proof (cases "\<exists>ph \<in> set ts. inside ph")
    case True
    then have "rw_readers c \<noteq> 0" unfolding n by (auto simp: filter_empty_conv)
    with True show ?thesis by (simp add: sc' CodisClient_delete_def wrlock_def prog_simps bnd_def)
  next
    case False
    then have "idle_client c as" using p n by (auto simp: idle_client_def filter_empty_conv)
    from CodisClient_delete_idle [OF this p(5,6), of H] obtain s2 c2 where
      d: "CodisClient_delete H (s, c) = (Ret (), (s2, c2))" by blast
    with CodisClient_delete_gone [OF d] p(1) have g: "m_ConnPool c2 = None" "\<not> rw_writer c2" by simp_all
    then have "fst (cmd_run H (Suc (Suc n)) (Checked argv tt) (s2, c2)) = Abrupt (Undef NullDeref)" for argv tt n
      by (simp add: prog_simps client_simps bnd_def onpool_def)
    with False d g show ?thesis by (auto simp: sc' simp del: cmd_run.simps)
  qed
qed

text \<open>A client that is deleted after a thread has looked at the pool and before it has locked.\<close>

theorem deletion_under_commands_witness:
  "\<exists>ls sc ts sc2. threads_run counting_lib (counting_client, started two_incr) ls (sc, ts) \<and>
     ts ! 0 = Checked [''INCR'', ''shop_k''] 0 \<and> CodisClient_delete counting_lib sc = (Ret (), sc2) \<and>
     fst (cmd_run counting_lib 9 (ts ! 0) sc2) = Abrupt (Undef NullDeref)"
proof -
  have "case play counting_lib [0] (counting_client, started two_incr) of None \<Rightarrow> False
      | Some (ls, sc, ts) \<Rightarrow> ts = [Checked [''INCR'', ''shop_k''] 0, Called [''INCR'', ''k''] 0]" by code_simp
  then obtain ls sc ts where ts: "ts = [Checked [''INCR'', ''shop_k''] 0, Called [''INCR'', ''k''] 0]"
    and p: "play counting_lib [0] (counting_client, started two_incr) = Some (ls, sc, ts)"
    by (auto simp del: play.simps split: option.splits)
  have "\<not> (\<exists>ph \<in> set ts. inside ph)" by (simp add: ts)
  with deletion_under_commands [OF counting_serving(3,2) play_run [OF p]] obtain sc2 where
    d: "CodisClient_delete counting_lib sc = (Ret (), sc2)" and
    n: "\<And>argv tt n. fst (cmd_run counting_lib (Suc (Suc n)) (Checked argv tt) sc2) = Abrupt (Undef NullDeref)" by metis
  have "9 = Suc (Suc 7)" by simp
  with n [of 7] have "fst (cmd_run counting_lib 9 (ts ! 0) sc2) = Abrupt (Undef NullDeref)" by (simp only: ts nth_Cons_0)
  moreover have "ts ! 0 = Checked [''INCR'', ''shop_k''] 0" by (simp add: ts)
  ultimately show ?thesis using play_run [OF p] d by blast
qed

section \<open>Properties: calls of methods\<close>

text \<open>Every synchronous method but the batch sends at most one command, and touches the client only through it.\<close>

lemma methods_send_one_command:
  assumes "synchronous call" and "\<And>cs. call \<noteq> OnCommand (call_RedisCommands cs)"
  shows "(\<exists>out. \<forall>sc. client_run H this call sc = (out, sc)) \<or> (\<exists>cmd d. decodes H this call cmd d)"
  using method_sends_one [OF assms] unfolding sends_one_def decodes_def by (metis fst_conv snd_conv)

text \<open>C3: Methods called by many threads on one client are atomic: over a redis server whose connections work, for any
  calls that send one command each (all synchronous methods but the batch, see \<open>methods_send_one_command\<close>), whatever the
  order of the threads' steps was, what the methods return and what the database holds when all have returned is what
  the specification prescribes for the calls made one after the other, in the order in which they took effect.\<close>

theorem concurrent_calls_atomic:
  assumes "speaks_redis srv db" and "db_rel H st srv db bid {} rest sc m" and "rw_readers (snd sc) = 0"
    and "list_all specified calls" and "length cmds = length calls"
    and "\<And>t. t < length calls \<Longrightarrow> decodes H this (calls ! t) (cmds ! t) (ds ! t)"
    and "threads_run H (sc, started cmds) ls (sc', ts)" and "list_all (\<lambda>ph. steps_left ph = 0) ts"
  shows "\<exists>m'. set (effects ls) = {..<length calls} \<and> distinct (effects ls) \<and>
    in_turn redis_spec (map ((!) calls) (effects ls)) m
      (Ret (map (\<lambda>t. (ds ! t) (the (returned (ts ! t)))) (effects ls))) m' \<and>
    db_rel H st srv db bid {} rest sc' m'"
proof -
  from assms(2) have S: "serving H st srv bid {} sc" by (simp add: db_rel_def)
  obtain replies sc1 where e: "distinct (effects ls)" "set (effects ls) = {..<length cmds}"
    and o: "one_by_one H cmds (effects ls) sc = (Ret replies, sc1)"
    and r: "map (\<lambda>t. returned (ts ! t)) (effects ls) = map Some replies" and st: "st (world (fst sc1)) = st (world (fst sc'))"
    and S': "serving H st srv bid {} sc'"
    by (rule run_finished [OF S assms(3,7,8)])
  have v: "map2 (\<lambda>t rep. (ds ! t) rep) (effects ls) replies = map (\<lambda>t. (ds ! t) (the (returned (ts ! t)))) (effects ls)"
    by (rule map2_known [OF r])
  have "mapM_prog (client_run H this) (map ((!) calls) (effects ls)) sc =
      (Ret (map (\<lambda>t. (ds ! t) (the (returned (ts ! t)))) (effects ls)), sc1)"
    unfolding v [symmetric] by (rule one_by_one_calls [OF _ o]) (use e assms(5,6) in simp)
  moreover have "list_all specified (map ((!) calls) (effects ls))" using assms(4,5) e by (auto simp: list_all_iff)
  ultimately obtain m' where "in_turn redis_spec (map ((!) calls) (effects ls)) m
      (Ret (map (\<lambda>t. (ds ! t) (the (returned (ts ! t)))) (effects ls))) m'" "db_rel H st srv db bid {} rest sc1 m'"
    using client.calls [OF _ conjI [OF assms(1,2)]] by blast
  then show ?thesis using e st S' assms(5) by (auto simp: db_rel_def)
qed

lemma two_threads:
  assumes "set xs = {..<2}" and "distinct xs"
  shows "xs = [0, 1] \<or> xs = [1, 0 :: nat]"
proof -
  have "length xs = 2" using distinct_card [OF assms(2)] assms(1) by simp
  then obtain a b where "xs = [a, b]" by (auto simp: length_Suc_conv numeral_2_eq_2)
  moreover have "{..<2} = {0, 1 :: nat}" by auto
  ultimately show ?thesis using assms by (auto simp: doubleton_eq_iff)
qed

lemma lpush_decodes:
  "\<not> too_big x \<Longrightarrow>
     decodes H this (OnList (call_lpush k x tt)) ([''LPUSH'', k, x], tt) (\<lambda>rep. Int_v (llong_to_int (rep_integer rep)))"
  by (simp add: decodes_def CodisClient_lpush_def RedisCommand_cmd_def value_of_def bnd_assoc bnd_ret Command_calls_def
      Command_new_def Command_call_def)

text \<open>Two threads push to the same list: one is told 1, the other 2, and the list has both values.\<close>

theorem concurrent_calls_atomic_witness:
  "\<exists>ls sc ts m. threads_run redis_lib ((empty_sys (\<lambda>_. None), new_client ''shop''),
       started [([''LPUSH'', ''l'', ''x''], 0), ([''LPUSH'', ''l'', ''y''], 0)]) ls (sc, ts) \<and>
     map (\<lambda>ph. llong_to_int (rep_integer (the (returned ph)))) ts \<in> {[1, 2], [2, 1]} \<and>
     db_rel redis_lib (\<lambda>w. w) redis_server (\<lambda>m k. tidy (m k)) ''shop'' {} (\<lambda>_. None) sc m \<and>
     m \<in> {[''l'' \<mapsto> List_val [''x'', ''y'']], [''l'' \<mapsto> List_val [''y'', ''x'']]}"
proof -
  let ?sc = "(empty_sys (\<lambda>_. None), new_client ''shop'')"
  let ?cmds = "[([''LPUSH'', ''l'', ''x''], 0), ([''LPUSH'', ''l'', ''y''], 0)]"
  let ?calls = "[OnList (call_lpush ''l'' ''x'' 0), OnList (call_lpush ''l'' ''y'' 0)]"
  let ?d = "\<lambda>rep. Int_v (llong_to_int (rep_integer rep))"
  have r0: "rw_readers (snd ?sc) = 0" by (simp add: new_client_def)
  have S: "serving redis_lib (\<lambda>w. w) redis_server ''shop'' {} ?sc" by (simp add: serving_def redis_lib_reliable new_client_inv)
  obtain ls sc ts where run: "threads_run redis_lib (?sc, started ?cmds) ls (sc, ts)" and fin: "list_all (\<lambda>ph. steps_left ph = 0) ts"
    using run_can_finish [OF S r0 run_start] by blast
  have d: "decodes redis_lib 0 (?calls ! t) (?cmds ! t) ([?d, ?d] ! t)" if "t < length ?calls" for t
    using that lpush_decodes [of _ redis_lib 0 "''l''" 0] by (auto simp: less_Suc_eq too_big_def)
  have "list_all specified ?calls" "length ?cmds = length ?calls" by simp_all
  from concurrent_calls_atomic [OF redis_server_speaks new_client_db_rel r0 this d run fin]
  obtain m where "set (effects ls) = {..<2}" "distinct (effects ls)" and
    m: "in_turn redis_spec (map ((!) ?calls) (effects ls)) (\<lambda>_. None)
      (Ret (map (\<lambda>t. ([?d, ?d] ! t) (the (returned (ts ! t)))) (effects ls))) m"
    and rel: "db_rel redis_lib (\<lambda>w. w) redis_server (\<lambda>m k. tidy (m k)) ''shop'' {} (\<lambda>_. None) sc m"
    by (auto simp: numeral_2_eq_2)
  then have o: "effects ls = [0, 1] \<or> effects ls = [1, 0]" by (intro two_threads)
  have "length ts = 2" using run_threads_length [OF run] by simp
  then obtain a b where "ts = [a, b]" by (auto simp: length_Suc_conv numeral_2_eq_2)
  with m o have "map (\<lambda>ph. llong_to_int (rep_integer (the (returned ph)))) ts \<in> {[1, 2], [2, 1]}"
    and "m \<in> {[''l'' \<mapsto> List_val [''x'', ''y'']], [''l'' \<mapsto> List_val [''y'', ''x'']]}"
    by (auto simp: push_spec_def too_big_def fits_def gives_def)
  with run rel show ?thesis by (intro exI [of _ ls] exI [of _ sc] exI [of _ ts] exI [of _ m] conjI)
qed

end
