(* ===== verification/Read_Steps.thy ===== *)
theory Read_Steps
  imports Client_Async
begin

text \<open>
  The asynchronous read \<open>mget2\<close> of \<open>CodisClient\<close> cut where it touches what threads share, each piece a step, and
  the proof that a thread alone does in these steps what the function does.
\<close>

section \<open>mget2 in steps\<close>

text \<open>
  Where a thread is in \<open>CodisClient::mget2\<close>, with the address of its local variable and what it still needs: called; its
  frame open; without an idle connection; with a new connection to count; with the result of the borrow; with a
  connection; with a request to queue; after a first refusal; after a reconnect that succeeded; after a second refusal;
  before an error is logged and the pointer is returned; before its frame is left; returned. Each of the two critical
  sections of \<open>borrowItemAsync\<close> is a step of its own.
\<close>

datatype read_phase =
    Asked "string list" addr
  | Opened addr string addr "string list" addr
  | Making addr string addr "string list" addr
  | Counting addr addr string addr "string list" addr
  | Fetched addr ptr string addr "string list" addr
  | Lent addr addr string addr "string list" addr
  | Queueing addr addr addr addr "string list"
  | Refused addr addr addr addr "string list"
  | Requeueing addr addr addr "string list"
  | Unsent addr addr c_int
  | Giving addr ptr string
  | Closing addr ptr bool
  | Read bool

definition open_local :: "('w cst, addr) prog" where
  "open_local = csys (\<lambda>s. (Ret (next_addr s), s\<lparr>locals := (locals s)(next_addr s \<mapsto> None), next_addr := Suc (next_addr s)\<rparr>))"

definition close_local :: "addr \<Rightarrow> ('w cst, unit) prog" where
  "close_local v = csys (updst (\<lambda>s. s\<lparr>locals := (locals s)(v := None)\<rparr>))"

fun mget2_step :: "'w hiredis \<Rightarrow> addr \<Rightarrow> read_phase \<Rightarrow> ('w cst, read_phase) prog" where
  "mget2_step H this (Asked keys cb) =
     bnd open_local (\<lambda>v.
     bnd (getclient (\<lambda>c. (m_BID c, loop_addr c))) (\<lambda>(bid, lp). ret (Opened v bid lp keys cb)))"
| "mget2_step H this (Opened v bid lp keys cb) =
     bnd (onpool (lock_unUsedAsync (bnd (getpool unUsedAsync) borrow_async_loop))) (\<lambda>rt.
     ret (if rt \<noteq> None then Fetched v rt bid lp keys cb else Making v bid lp keys cb))"
| "mget2_step H this (Making v bid lp keys cb) =
     bnd (onpool (createAsync H lp)) (\<lambda>rt.
     ret (case rt of None \<Rightarrow> Fetched v None bid lp keys cb | Some a \<Rightarrow> Counting v a bid lp keys cb))"
| "mget2_step H this (Counting v a bid lp keys cb) =
     andthen (onpool (lock_unUsedAsync (updpool (\<lambda>p. p\<lparr>usedAsync := usedAsync p + 1\<rparr>))))
             (ret (Fetched v (Some a) bid lp keys cb))"
| "mget2_step H this (Fetched v async_context bid lp keys cb) =
     andthen (set_local v async_context)
             (ret (case async_context of
                     None \<Rightarrow> Giving v None ''contetx is NULL!!''
                   | Some a \<Rightarrow> Lent v a bid lp keys cb))"
| "mget2_step H this (Lent v a bid lp keys cb) =
     bnd (new_request \<lparr>user_keylist = keys, rq_callback = cb, rq_async_context = v, rq_client = this\<rparr>) (\<lambda>q.
     ret (Queueing v a q lp (mget2_command bid keys)))"
| "mget2_step H this (Queueing v a q lp argv) =
     bnd (csys (redisAsyncCommandArgv H (Some a) argv q)) (\<lambda>rc.
     ret (if rc = REDIS_ERR then Refused v a q lp argv else Closing v (Some a) True))"
| "mget2_step H this (Refused v a q lp argv) =
     bnd (onpool (ReconnectAsync H (Some a) lp)) (\<lambda>ok.
     ret (if ok then Requeueing v a q argv else Giving v (Some a) ''reconnect faild, ''))"
| "mget2_step H this (Requeueing v a q argv) =
     bnd (csys (redisAsyncCommandArgv H (Some a) argv q)) (\<lambda>rc.
     ret (if rc = REDIS_ERR then Unsent v a rc else Closing v (Some a) True))"
| "mget2_step H this (Unsent v a rc) =
     bnd (csys (load_actx (Some a))) (\<lambda>x.
     ret (Giving v (Some a) (''run command error('' @ int2string rc @ ''): '' @ ac_errstr x)))"
| "mget2_step H this (Giving v async_context msg) =
     andthen (csys (LOG ERROR msg))
    (andthen (onpool (returnItemAsync async_context))
             (ret (Closing v async_context False)))"
| "mget2_step H this (Closing v async_context ok) = andthen (close_local v) (ret (Read ok))"
| "mget2_step H this (Read ok) = ret (Read ok)"

fun reads_left :: "read_phase \<Rightarrow> nat" where
  "reads_left (Asked _ _) = 12"
| "reads_left (Opened _ _ _ _ _) = 11"
| "reads_left (Making _ _ _ _ _) = 10"
| "reads_left (Counting _ _ _ _ _ _) = 9"
| "reads_left (Fetched _ _ _ _ _ _) = 8"
| "reads_left (Lent _ _ _ _ _ _) = 7"
| "reads_left (Queueing _ _ _ _ _) = 6"
| "reads_left (Refused _ _ _ _ _) = 5"
| "reads_left (Requeueing _ _ _ _) = 4"
| "reads_left (Unsent _ _ _) = 3"
| "reads_left (Giving _ _ _) = 2"
| "reads_left (Closing _ _ _) = 1"
| "reads_left (Read _) = 0"

fun has_read :: "read_phase \<Rightarrow> bool option" where
  "has_read (Read ok) = Some ok"
| "has_read _ = None"

primrec read_run :: "'w hiredis \<Rightarrow> addr \<Rightarrow> nat \<Rightarrow> read_phase \<Rightarrow> ('w cst, bool option) prog" where
  "read_run H this 0 ph = ret (has_read ph)"
| "read_run H this (Suc n) ph = (if reads_left ph = 0 then ret (has_read ph) else bnd (mget2_step H this ph) (read_run H this n))"

text \<open>The body of \<open>mget2\<close>, with its frame open.\<close>

definition mget2_body :: "'w hiredis \<Rightarrow> addr \<Rightarrow> string list \<Rightarrow> addr \<Rightarrow> string \<Rightarrow> addr \<Rightarrow> addr \<Rightarrow> ('w cst, bool) prog" where
  "mget2_body H this keys callback bid lp v =
     (let argv = mget2_command bid keys in
     bnd (onpool (borrowItemAsync H lp)) (\<lambda>async_context.
     andthen (set_local v async_context)
     (if async_context = None then
        andthen (csys (LOG ERROR ''contetx is NULL!!''))
       (andthen (onpool (returnItemAsync async_context))
                (ret False))
      else
        bnd (new_request \<lparr>user_keylist = keys, rq_callback = callback, rq_async_context = v,
                          rq_client = this\<rparr>) (\<lambda>rq.
        bnd (csys (redisAsyncCommandArgv H async_context argv rq)) (\<lambda>rc.
        if rc = REDIS_ERR then
          bnd (onpool (ReconnectAsync H async_context lp)) (\<lambda>ok.
          if \<not> ok then
            andthen (csys (LOG ERROR ''reconnect faild, ''))
           (andthen (onpool (returnItemAsync async_context))
                    (ret False))
          else
            bnd (csys (redisAsyncCommandArgv H async_context argv rq)) (mget2_finish async_context))
        else mget2_finish async_context rc)))))"

lemma mget2_eq: "mget2 H this keys cb = with_local (\<lambda>v. bnd (getclient (\<lambda>c. (m_BID c, loop_addr c))) (\<lambda>(bid, lp). mget2_body H this keys cb bid lp v))"
  unfolding mget2_def mget2_body_def ..

lemma read_run_Read [simp]: "read_run H this n (Read ok) = ret (Some ok)"
  by (cases n) simp_all

lemma read_run_step: "reads_left ph \<noteq> 0 \<Longrightarrow> read_run H this (Suc n) ph = bnd (mget2_step H this ph) (read_run H this n)"
  by simp

lemma onpool_same [simp]: "m_ConnPool c = Some p \<Longrightarrow> c\<lparr>m_ConnPool := Some p\<rparr> = c"
  by (cases c) simp

text \<open>\<open>borrowItemAsync\<close> in its three pieces.\<close>

lemma borrow_async_pieces:
  "bnd (onpool (borrowItemAsync H lp)) f =
     bnd (onpool (lock_unUsedAsync (bnd (getpool unUsedAsync) borrow_async_loop))) (\<lambda>rt.
       if rt \<noteq> None then f rt
       else bnd (onpool (createAsync H lp)) (\<lambda>rt.
         case rt of
           None \<Rightarrow> f None
         | Some a \<Rightarrow> bnd (onpool (lock_unUsedAsync (updpool (\<lambda>p. p\<lparr>usedAsync := usedAsync p + 1\<rparr>)))) (\<lambda>_. f (Some a))))"
  (is "?l = ?r")
proof (rule ext)
  fix sc :: "'a cst"
  obtain s c where sc: "sc = (s, c)" by fastforce
  show "?l sc = ?r sc"
    by (cases "m_ConnPool c")
       (auto simp: sc onpool_def bnd_def borrowItemAsync_def andthen_def ret_def split: option.split prod.split outcome.split)
qed

text \<open>The ends of a run of one thread. \<open>left v ok\<close>: the frame is left and \<open>ok\<close> returned.\<close>

abbreviation (input) left_with :: "addr \<Rightarrow> bool \<Rightarrow> ('w cst, bool option) prog" where
  "left_with v ok \<equiv> bnd (close_local v) (\<lambda>_. ret (Some ok))"

lemma read_run_closing: "read_run H this (Suc n) (Closing v ac ok) = left_with v ok"
  by (simp add: seq_simps)

lemma read_run_giving:
  "read_run H this (Suc (Suc n)) (Giving v ac msg) =
     bnd (csys (LOG ERROR msg)) (\<lambda>_. bnd (onpool (returnItemAsync ac)) (\<lambda>_. left_with v False))"
  by (simp add: seq_simps)

lemma read_run_finish:
  "bnd (mget2_finish (Some a) rc) (left_with v) =
     (if rc = REDIS_ERR then read_run H this (Suc (Suc (Suc n))) (Unsent v a rc) else left_with v True)"
  by (simp add: mget2_finish_def seq_simps read_run_giving read_run_step del: read_run.simps(2) mget2_step.simps(11))

lemma read_run_requeueing:
  "read_run H this (Suc (Suc (Suc (Suc n)))) (Requeueing v a q argv) =
     bnd (csys (redisAsyncCommandArgv H (Some a) argv q)) (\<lambda>rc. bnd (mget2_finish (Some a) rc) (left_with v))"
  by (subst read_run_step)
     (auto intro!: bnd_next simp: seq_simps read_run_finish [of _ _ _ H this n] read_run_closing simp del: read_run.simps(2))

text \<open>Alone, a thread in its steps does what the body of \<open>mget2\<close> does, and leaves its frame.\<close>

lemma read_run_body:
  "read_run H this 11 (Opened v bid lp keys cb) =
     bnd (mget2_body H this keys cb bid lp v) (left_with v)"
proof -
  define bk where "bk = (\<lambda>a q argv. bnd (onpool (ReconnectAsync H (Some a) lp)) (\<lambda>ok.
        if \<not> ok then bnd (csys (LOG ERROR ''reconnect faild, '')) (\<lambda>_.
          bnd (onpool (returnItemAsync (Some a))) (\<lambda>_. left_with v False))
        else bnd (csys (redisAsyncCommandArgv H (Some a) argv q)) (\<lambda>rc. bnd (mget2_finish (Some a) rc) (left_with v))))"
  define queue where "queue = (\<lambda>a q argv. bnd (csys (redisAsyncCommandArgv H (Some a) argv q)) (\<lambda>rc.
        if rc = REDIS_ERR then bk a q argv else left_with v True))"
  define rest where "rest = (\<lambda>ac. bnd (set_local v ac) (\<lambda>_. case ac of
      None \<Rightarrow> bnd (csys (LOG ERROR ''contetx is NULL!!'')) (\<lambda>_. bnd (onpool (returnItemAsync None)) (\<lambda>_. left_with v False))
    | Some a \<Rightarrow> bnd (new_request \<lparr>user_keylist = keys, rq_callback = cb, rq_async_context = v, rq_client = this\<rparr>) (\<lambda>q.
        queue a q (mget2_command bid keys))))"
  have w: "read_run H this (Suc (Suc (Suc (Suc (Suc n))))) (Refused v a q lp argv) = bk a q argv" for a q argv n
    unfolding bk_def by (subst read_run_step) (auto intro!: bnd_next simp: seq_simps read_run_giving read_run_requeueing simp del: read_run.simps(2))
  have k: "read_run H this (Suc (Suc (Suc (Suc (Suc (Suc n)))))) (Queueing v a q lp argv) = queue a q argv" for a q argv n
    unfolding queue_def by (subst read_run_step) (auto intro!: bnd_next simp: seq_simps read_run_closing w simp del: read_run.simps(2))
  have l: "read_run H this (Suc (Suc (Suc (Suc (Suc (Suc (Suc n))))))) (Lent v a bid lp keys cb) =
      bnd (new_request \<lparr>user_keylist = keys, rq_callback = cb, rq_async_context = v, rq_client = this\<rparr>) (\<lambda>q.
        queue a q (mget2_command bid keys))" for a n
    by (subst read_run_step) (auto intro!: bnd_next simp: seq_simps k simp del: read_run.simps(2))
  have t: "mget2_finish ac rc = ret True" if "rc \<noteq> REDIS_ERR" for ac rc using that by (simp add: mget2_finish_def)
  have x: "read_run H this (Suc (Suc (Suc (Suc (Suc (Suc (Suc (Suc n)))))))) (Fetched v ac bid lp keys cb) = rest ac" for ac n
    unfolding rest_def
    by (subst read_run_step) (auto intro!: bnd_next simp: seq_simps read_run_giving l simp del: read_run.simps(2) split: option.split)
  have z: "read_run H this (Suc (Suc (Suc (Suc (Suc (Suc (Suc (Suc (Suc n))))))))) (Counting v a bid lp keys cb) =
      bnd (onpool (lock_unUsedAsync (updpool (\<lambda>p. p\<lparr>usedAsync := usedAsync p + 1\<rparr>)))) (\<lambda>_. rest (Some a))" for a n
    by (subst read_run_step) (auto intro!: bnd_next simp: seq_simps x simp del: read_run.simps(2))
  have y: "read_run H this (Suc (Suc (Suc (Suc (Suc (Suc (Suc (Suc (Suc (Suc n)))))))))) (Making v bid lp keys cb) =
      bnd (onpool (createAsync H lp)) (\<lambda>rt. case rt of None \<Rightarrow> rest None | Some a \<Rightarrow>
        bnd (onpool (lock_unUsedAsync (updpool (\<lambda>p. p\<lparr>usedAsync := usedAsync p + 1\<rparr>)))) (\<lambda>_. rest (Some a)))" for n
    by (subst read_run_step) (auto intro!: bnd_next simp: seq_simps x z simp del: read_run.simps(2) split: option.split)
  have b: "read_run H this (Suc (Suc (Suc (Suc (Suc (Suc (Suc (Suc (Suc (Suc (Suc n))))))))))) (Opened v bid lp keys cb) =
      bnd (onpool (borrowItemAsync H lp)) rest" for n
    unfolding borrow_async_pieces
    by (subst read_run_step) (auto intro!: bnd_next simp: seq_simps x y simp del: read_run.simps(2))
  show ?thesis
    unfolding mget2_body_def Let_def
    by (simp only: numeral_eq_Suc pred_numeral_simps One_nat_def BitM.simps b)
       (auto intro!: bnd_next simp: seq_simps t rest_def queue_def bk_def split: option.split)
qed

lemma mget2_in_steps:
  "(mget2 H this keys cb sc = (Ret ok, sc') \<longleftrightarrow> read_run H this 12 (Asked keys cb) sc = (Ret (Some ok), sc')) \<and>
   (fst (mget2 H this keys cb sc) = Abrupt e \<longleftrightarrow> fst (read_run H this 12 (Asked keys cb) sc) = Abrupt e)"
proof -
  obtain s c where sc: "sc = (s, c)" by fastforce
  have n: "12 = Suc 11" by simp
  define v where "v = next_addr s"
  define s1 where "s1 = s\<lparr>locals := (locals s)(v \<mapsto> None), next_addr := Suc v\<rparr>"
  have "read_run H this 12 (Asked keys cb) sc = read_run H this 11 (Opened v (m_BID c) (loop_addr c) keys cb) (s1, c)"
    unfolding n by (subst read_run_step) (simp_all add: sc open_local_def client_simps run_simps bnd_def ret_def s1_def v_def)
  moreover have "mget2 H this keys cb sc = (case mget2_body H this keys cb (m_BID c) (loop_addr c) v (s1, c) of
      (r, (s', c')) \<Rightarrow> (r, (s'\<lparr>locals := (locals s')(v := None)\<rparr>, c')))"
    unfolding mget2_eq by (simp add: sc with_local_def Let_def client_simps bnd_def v_def s1_def)
  ultimately show ?thesis
    by (auto simp: read_run_body bnd_def close_local_def client_simps run_simps ret_def split: prod.splits outcome.splits)
qed

end
