(* ===== verification/Concurrent_Reads.thy ===== *)
theory Concurrent_Reads
  imports Read_Steps Example_Server
begin

text \<open>
  Many threads in the asynchronous read \<open>mget2\<close> of one client, while the thread of the event loop completes the
  requests. A completion finds the connection through the address of a local variable of \<open>mget2\<close>, so what it does
  depends on whether that call has returned.
\<close>

section \<open>Reads and completions\<close>

text \<open>
  A configuration is the process, the client and the threads in \<open>mget2\<close>. One of them takes a step, or the thread of the
  event loop completes a request that is pending with a reply. A completion is one step too: of what the threads share,
  it touches the local variable and the pool, at its end.
\<close>

type_synonym 'w reads = "'w cst \<times> read_phase list"

inductive reads_step :: "'w hiredis \<Rightarrow> addr \<Rightarrow> 'w reads \<Rightarrow> 'w reads \<Rightarrow> bool" for H this where
  read_steps: "t < length ts \<Longrightarrow> reads_left (ts ! t) \<noteq> 0 \<Longrightarrow> mget2_step H this (ts ! t) sc = (Ret ph, sc') \<Longrightarrow>
     reads_step H this (sc, ts) (sc', ts[t := ph])"
| completes: "requests (fst sc) q \<noteq> None \<Longrightarrow> mget2Callback (Some r) q sc = (Ret (), sc') \<Longrightarrow>
     reads_step H this (sc, ts) (sc', ts)"

abbreviation reads_run :: "'w hiredis \<Rightarrow> addr \<Rightarrow> 'w reads \<Rightarrow> 'w reads \<Rightarrow> bool" where
  "reads_run H this \<equiv> (reads_step H this)\<^sup>*\<^sup>*"

text \<open>Threads that are all about to call.\<close>

abbreviation asked :: "(string list \<times> addr) list \<Rightarrow> read_phase list" where
  "asked calls \<equiv> map (\<lambda>(keys, cb). Asked keys cb) calls"

text \<open>The local variable of a thread, with its value, while its frame is open.\<close>

fun slot :: "read_phase \<Rightarrow> (addr \<times> ptr) list" where
  "slot (Asked _ _) = []"
| "slot (Opened v _ _ _ _) = [(v, None)]"
| "slot (Making v _ _ _ _) = [(v, None)]"
| "slot (Counting v _ _ _ _ _) = [(v, None)]"
| "slot (Fetched v _ _ _ _ _) = [(v, None)]"
| "slot (Lent v a _ _ _ _) = [(v, Some a)]"
| "slot (Queueing v a _ _ _) = [(v, Some a)]"
| "slot (Refused v a _ _ _) = [(v, Some a)]"
| "slot (Requeueing v a _ _) = [(v, Some a)]"
| "slot (Unsent v a _) = [(v, Some a)]"
| "slot (Giving v ac _) = [(v, ac)]"
| "slot (Closing v ac _) = [(v, ac)]"
| "slot (Read _) = []"

section \<open>Lemmas: what a step of a read does to what is shared\<close>

text \<open>A property of the process, with a client whose asynchronous pool is there and unlocked.\<close>

definition pool_free :: "('w sys \<Rightarrow> bool) \<Rightarrow> 'w pst \<Rightarrow> bool" where
  "pool_free I = (\<lambda>(s, p). I s \<and> \<not> unUsedAsyncMutex p)"

definition client_free :: "('w sys \<Rightarrow> bool) \<Rightarrow> 'w cst \<Rightarrow> bool" where
  "client_free I = (\<lambda>(s, c). I s \<and> (\<exists>p. m_ConnPool c = Some p \<and> \<not> unUsedAsyncMutex p))"

lemma keeps_pool_free [keeps_intros]:
  "keeps (pool_free I) (getpool f)" "keeps I m \<Longrightarrow> keeps (pool_free I) (onsys m)"
  by (auto simp: keeps_def pool_free_def pool_simps split: prod.splits)

lemma keeps_lock_async [keeps_intros]:
  assumes "keeps (on_sys I) m" shows "keeps (pool_free I) (lock_unUsedAsync m)"
  unfolding keeps_def
proof (intro allI impI, elim conjE)
  fix sp r sp'
  assume i: "pool_free I sp" and r: "lock_unUsedAsync m sp = (r, sp')" and u: "no_ub r"
  obtain s p where sp: "sp = (s, p)" by fastforce
  obtain s' p' where m: "m (s, p\<lparr>unUsedAsyncMutex := True\<rparr>) = (r, (s', p'))" and sp': "sp' = (s', p'\<lparr>unUsedAsyncMutex := False\<rparr>)"
    using r i by (auto simp: sp pool_free_def pool_simps split: prod.splits)
  have "on_sys I (s', p')" by (rule keepsD [OF assms _ m u]) (use i in \<open>simp add: sp pool_free_def on_sys_def\<close>)
  then show "pool_free I sp'" by (simp add: sp' pool_free_def on_sys_def)
qed

lemma keeps_client_free [keeps_intros]:
  "keeps (client_free I) (getclient f)" "keeps I m \<Longrightarrow> keeps (client_free I) (csys m)"
  by (auto simp: keeps_def client_free_def client_simps split: prod.splits)

lemma keeps_onpool_free [keeps_intros]:
  assumes "keeps (pool_free I) m" shows "keeps (client_free I) (onpool m)"
  unfolding keeps_def
proof (intro allI impI, elim conjE)
  fix sc r sc'
  assume i: "client_free I sc" and r: "onpool m sc = (r, sc')" and u: "no_ub r"
  from i obtain s c p where sc: "sc = (s, c)" and p: "m_ConnPool c = Some p" "pool_free I (s, p)"
    by (auto simp: client_free_def pool_free_def)
  obtain s' p' where m: "m (s, p) = (r, (s', p'))" and sc': "sc' = (s', c\<lparr>m_ConnPool := Some p'\<rparr>)"
    using r p(1) by (auto simp: sc onpool_def split: prod.splits)
  from keepsD [OF assms p(2) m u] show "client_free I sc'" by (simp add: sc' client_free_def pool_free_def)
qed

text \<open>The local variables \<open>L\<close>, the requests \<open>R\<close> and the calls made to the user \<open>C\<close> as they were; addresses only grow.\<close>

definition quiet :: "(addr \<rightharpoonup> ptr) \<Rightarrow> (addr \<rightharpoonup> MgetAsyncRequestContext) \<Rightarrow> addr \<Rightarrow> 'w sys \<Rightarrow> bool" where
  "quiet L R n s \<longleftrightarrow> locals s = L \<and> requests s = R \<and> n \<le> next_addr s"

lemma keeps_quiet [keeps_intros]:
  "keeps (quiet L R n) (LOG l e)" "keeps (quiet L R n) (redisAsyncConnect H ip prt)"
  "keeps (quiet L R n) (redisAsyncSetDisconnectCallback p)" "keeps (quiet L R n) (redisAsyncCommandArgv H p argv q)"
  "keeps (quiet L R n) (redisAeAttach lp p)" "keeps (quiet L R n) (redisAsyncDisconnect H p)"
  by (auto simp: keeps_def quiet_def LOG_def redisAsyncConnect_def redisAsyncSetDisconnectCallback_def
      redisAsyncCommandArgv_def redisAeAttach_def redisAsyncDisconnect_def redisAeCleanup_def bnd_def ret_def
      updst_def load_actx_def split: option.splits prod.splits bool.splits if_splits)

lemma quiet_borrow_loop [keeps_intros]: "keeps (on_sys (quiet L R n)) (borrow_async_loop q)"
  by (induction q) (auto intro!: keeps_intros)

lemma quiet_pool [keeps_intros]:
  "keeps (pool_free (quiet L R n)) (createAsync H lp)" "keeps (pool_free (quiet L R n)) (returnItemAsync p)"
  "keeps (pool_free (quiet L R n)) (ReconnectAsync H p lp)"
  by (auto simp: createAsync_def returnItemAsync_def ReconnectAsync_def DestroyAsync_def Let_def split: prod.splits option.splits
      intro!: keeps_intros)

text \<open>The kinds of step: nothing shared changes; the frame opens; the local is set; a request is made; the frame is left.\<close>

inductive slot_move :: "'w sys \<Rightarrow> (addr \<times> ptr) list \<Rightarrow> 'w sys \<Rightarrow> read_phase \<Rightarrow> bool" where
  stays: "quiet (locals s) (requests s) (next_addr s) s' \<Longrightarrow> slot ph = l \<Longrightarrow> slot_move s l s' ph"
| opens: "locals s' = (locals s)(next_addr s \<mapsto> None) \<Longrightarrow> requests s' = requests s \<Longrightarrow> next_addr s' = Suc (next_addr s) \<Longrightarrow>
    slot ph = [(next_addr s, None)] \<Longrightarrow> slot_move s [] s' ph"
| fills: "locals s' = (locals s)(v \<mapsto> p) \<Longrightarrow> requests s' = requests s \<Longrightarrow> next_addr s' = next_addr s \<Longrightarrow>
    slot ph = [(v, p)] \<Longrightarrow> slot_move s [(v, None)] s' ph"
| requests: "locals s' = locals s \<Longrightarrow> requests s' = (requests s)(next_addr s \<mapsto> rq) \<Longrightarrow> rq_async_context rq = v \<Longrightarrow>
    next_addr s' = Suc (next_addr s) \<Longrightarrow> slot ph = [(v, Some a)] \<Longrightarrow> slot_move s [(v, Some a)] s' ph"
| leaves: "locals s' = (locals s)(v := None) \<Longrightarrow> requests s' = requests s \<Longrightarrow> next_addr s' = next_addr s \<Longrightarrow>
    slot ph = [] \<Longrightarrow> has_read ph \<noteq> None \<Longrightarrow> slot_move s [(v, p)] s' ph"

lemma mget2_step_moves:
  assumes r: "mget2_step H this ph (s, c) = (Ret ph', (s', c'))" and f: "client_free (\<lambda>s. True) (s, c)"
  shows "slot_move s (slot ph) s' ph' \<and> client_free (\<lambda>s. True) (s', c')"
proof -
  let ?I = "client_free (quiet (locals s) (requests s) (next_addr s))"
  have i: "?I (s, c)" using f by (simp add: client_free_def quiet_def)
  have q: "slot_move s (slot ph) s' ph' \<and> client_free (\<lambda>s. True) (s', c')"
    if "keeps ?I (mget2_step H this ph)" and "yields (\<lambda>ph'. slot ph' = slot ph) (mget2_step H this ph)"
  proof -
    have "?I (s', c')" using keepsD [OF that(1) i r] by simp
    then have "client_free (\<lambda>s. True) (s', c')" and "quiet (locals s) (requests s) (next_addr s) s'"
      by (auto simp: client_free_def)
    then show ?thesis using yieldsD [OF that(2) r] by (auto intro: slot_move.stays)
  qed
  show ?thesis
  proof (cases ph)
    case (Asked keys cb)
    then show ?thesis using r f
      by (auto simp: open_local_def client_simps run_simps bnd_def ret_def client_free_def intro!: slot_move.opens)
  next
    case (Fetched v ac bid lp keys cb)
    then show ?thesis using r f
      by (auto simp: set_local_def client_simps run_simps bnd_def ret_def client_free_def intro!: slot_move.fills split: option.splits)
  next
    case (Lent v a bid lp keys cb)
    then show ?thesis using r f
      by (auto simp: new_request_def client_simps run_simps bnd_def ret_def client_free_def intro!: slot_move.requests)
  next
    case (Closing v ac ok)
    then show ?thesis using r f
      by (auto simp: close_local_def client_simps run_simps bnd_def ret_def client_free_def intro!: slot_move.leaves)
  qed (rule q; auto intro!: keeps_intros yields_intros split: option.split)+
qed

section \<open>Lemmas: the frames that are open\<close>

abbreviation slots :: "read_phase list \<Rightarrow> (addr \<times> ptr) list" where
  "slots ts \<equiv> concat (map slot ts)"

definition reads_inv :: "'w reads \<Rightarrow> bool" where
  "reads_inv = (\<lambda>((s, c), ts). client_free (\<lambda>s. True) (s, c) \<and> distinct (map fst (slots ts)) \<and>
     locals s = map_of (slots ts) \<and> fst ` set (slots ts) \<subseteq> {..<next_addr s})"

lemma map_of_middle:
  assumes "distinct (map fst (A @ l @ B))"
  shows "map_of (A @ l @ B) = map_of (A @ B) ++ map_of l"
proof -
  have "dom (map_of l) \<inter> dom (map_of A) = {}" using assms by (auto simp: dom_map_of_conv_image_fst)
  then show ?thesis by (simp only: map_of_append map_add_assoc [symmetric] map_add_comm)
qed

lemma reads_inv_split:
  "reads_inv ((s, c), xs @ ph # ys) \<longleftrightarrow>
     client_free (\<lambda>s. True) (s, c) \<and> distinct (map fst (slots xs @ slots ys)) \<and> distinct (map fst (slot ph)) \<and>
     fst ` set (slot ph) \<inter> fst ` set (slots xs @ slots ys) = {} \<and>
     locals s = map_of (slots xs @ slots ys) ++ map_of (slot ph) \<and>
     fst ` set (slot ph) \<union> fst ` set (slots xs @ slots ys) \<subseteq> {..<next_addr s}"
proof -
  define A where "A = slots xs"
  define B where "B = slots ys"
  define l where "l = slot ph"
  have c: "slots (xs @ ph # ys) = A @ l @ B" by (simp add: A_def B_def l_def)
  have d: "distinct (map fst (A @ l @ B)) \<longleftrightarrow>
      distinct (map fst (A @ B)) \<and> distinct (map fst l) \<and> fst ` set l \<inter> fst ` set (A @ B) = {}"
    unfolding map_append distinct_append set_append image_Un set_map by blast
  have b: "fst ` set (A @ l @ B) \<subseteq> {..<next_addr s} \<longleftrightarrow> fst ` set l \<union> fst ` set (A @ B) \<subseteq> {..<next_addr s}"
    unfolding set_append image_Un by blast
  show ?thesis
    unfolding reads_inv_def prod.case c A_def [symmetric] B_def [symmetric] l_def [symmetric] b
    using map_of_middle [of A l B] by (metis d)
qed

lemma map_of_fresh: "v \<notin> fst ` set A \<Longrightarrow> map_of A v = None"
  by (simp add: map_of_eq_None_iff)

text \<open>One thread's move, in the middle of the others.\<close>

lemma slot_move_inv:
  assumes i: "reads_inv ((s, c), xs @ ph # ys)" and m: "slot_move s (slot ph) s' ph'" and f: "client_free (\<lambda>s. True) (s', c')"
  shows "reads_inv ((s', c'), xs @ ph' # ys)"
proof -
  define A where "A = slots xs @ slots ys"
  note split = reads_inv_split [of _ _ xs _ ys, folded A_def]
  have b: "fst ` set A \<subseteq> {..<next_addr s}" "distinct (map fst A)" using i [unfolded split] by simp_all
  have n: "next_addr s \<le> next_addr s'" using m by cases (simp_all add: quiet_def)
  then have b': "fst ` set A \<subseteq> {..<next_addr s'}" using b(1) by force
  from m show ?thesis
  proof cases
    case stays
    then show ?thesis unfolding split using i [unfolded split] b' f n by (simp add: quiet_def) (meson lessThan_iff order_less_le_trans subset_iff)
  next
    case opens
    have "next_addr s \<notin> fst ` set A" using b(1) by auto
    then show ?thesis unfolding split using opens i [unfolded split] b b' f by simp
  next
    case (fills v p)
    then show ?thesis unfolding split using i [unfolded split] b b' f by simp
  next
    case (requests rq v a)
    then show ?thesis unfolding split using i [unfolded split] b b' f by simp
  next
    case (leaves v p)
    then have "map_of A v = None" using i [unfolded split] by (intro map_of_fresh) simp
    then show ?thesis unfolding split using leaves i [unfolded split] b b' f by (simp add: fun_upd_idem)
  qed
qed

text \<open>What a completion does that returns.\<close>

lemma completion_keeps:
  assumes "mget2Callback (Some r) q (s, c) = (Ret (), (s', c'))" and "client_free (\<lambda>s. True) (s, c)"
  shows "locals s' = locals s" "next_addr s' = next_addr s" "client_free (\<lambda>s. True) (s', c')"
proof -
  from assms(2) obtain p where p: "m_ConnPool c = Some p" "\<not> unUsedAsyncMutex p" by (auto simp: client_free_def)
  then show "locals s' = locals s" "next_addr s' = next_addr s" "client_free (\<lambda>s. True) (s', c')"
    using assms(1) by (auto simp: mget2Callback_def Let_def andthen_def bnd_def returnAsync_apply client_simps run_simps
        client_free_def split: option.splits)
qed

lemma reads_step_inv:
  assumes "reads_step H this cf cf'" and "reads_inv cf"
  shows "reads_inv cf'"
  using assms(1)
proof cases
  case (read_steps t ts sc ph sc')
  obtain s c s' c' where [simp]: "sc = (s, c)" "sc' = (s', c')" by fastforce
  define ph0 where "ph0 = ts ! t"
  from update_split [OF read_steps(3)] obtain xs ys where ts: "ts = xs @ ph0 # ys" and u: "ts[t := ph] = xs @ ph # ys"
    unfolding ph0_def by metis
  have i: "reads_inv ((s, c), xs @ ph0 # ys)" using assms(2) read_steps(1) ts by simp
  then have "client_free (\<lambda>s. True) (s, c)" by (simp add: reads_inv_def)
  with mget2_step_moves [of H this ph0 s c ph s' c'] read_steps(5)
  have "slot_move s (slot ph0) s' ph" and "client_free (\<lambda>s. True) (s', c')" by (simp_all add: ph0_def)
  from slot_move_inv [OF i this] show ?thesis using read_steps(2) u by simp
next
  case (completes sc q r sc' ts)
  then show ?thesis using assms(2) completion_keeps [of r q "fst sc" "snd sc" "fst sc'" "snd sc'"]
    by (cases sc; cases sc') (simp add: reads_inv_def)
qed

lemma reads_run_inv: "reads_run H this cf cf' \<Longrightarrow> reads_inv cf \<Longrightarrow> reads_inv cf'"
  by (induction rule: rtranclp_induct) (auto intro: reads_step_inv)

lemma asked_inv:
  assumes "client_free (\<lambda>s. True) (s, c)" and "locals s = Map.empty"
  shows "reads_inv ((s, c), asked calls)"
proof -
  have e: "slots (asked calls) = []" by (induction calls) (auto split: prod.splits)
  show ?thesis unfolding reads_inv_def prod.case e using assms by simp
qed

text \<open>From where thread \<open>t\<close> has the local variable \<open>v\<close> with a connection in it, until after it has returned.\<close>

definition local_of :: "nat \<Rightarrow> addr \<Rightarrow> addr \<Rightarrow> 'w reads \<Rightarrow> bool" where
  "local_of t v a = (\<lambda>((s, c), ts). t < length ts \<and> v < next_addr s \<and>
     (slot (ts ! t) = [(v, Some a)] \<or> has_read (ts ! t) \<noteq> None \<and> v \<notin> fst ` set (slots ts)))"

lemma slot_move_grows:
  assumes "slot_move s l s' ph"
  shows "fst ` set (slot ph) \<subseteq> insert (next_addr s) (fst ` set l)" and "next_addr s \<le> next_addr s'"
  using assms by (cases; auto simp: quiet_def)+

lemma slot_open [simp]: "slot ph = [(v, p)] \<Longrightarrow> has_read ph = None"
  by (cases ph) auto

lemma has_read_left [simp]: "has_read ph = Some ok \<Longrightarrow> reads_left ph = 0"
  by (cases ph) auto

lemma slots_thread: "t < length ts \<Longrightarrow> set (slot (ts ! t)) \<subseteq> set (slots ts)"
  by (auto intro!: bexI [of _ "ts ! t"])

lemma slots_update: "t < length ts \<Longrightarrow> set (slots (ts[t := ph])) \<subseteq> set (slots ts) \<union> set (slot ph)"
  using set_update_subset_insert [of ts t ph] by fastforce

text \<open>A step of the thread itself, and what other threads open.\<close>

lemma slot_move_own:
  assumes i: "reads_inv ((s, c), ts)" and t: "t < length ts" and l: "slot (ts ! t) = [(v, Some a)]"
    and m: "slot_move s (slot (ts ! t)) s' ph"
  shows "slot ph = [(v, Some a)] \<or> has_read ph \<noteq> None \<and> v \<notin> fst ` set (slots (ts[t := ph]))"
proof -
  from update_split [OF t] obtain xs ys where ts: "ts = xs @ ts ! t # ys" and up: "ts[t := ph] = xs @ ph # ys" by metis
  have "reads_inv ((s, c), xs @ ts ! t # ys)" using i ts by simp
  then have "v \<notin> fst ` set (slots (ts[t := ph]))" if "slot ph = []" using that l unfolding reads_inv_split up by simp
  moreover from m have "slot ph = [(v, Some a)] \<or> slot ph = [] \<and> has_read ph \<noteq> None" unfolding l by cases auto
  ultimately show ?thesis by blast
qed

lemma not_in_grown: "X \<subseteq> insert n Y \<Longrightarrow> v \<noteq> n \<Longrightarrow> v \<notin> Y \<Longrightarrow> v \<notin> X"
  by blast

lemma reads_step_local:
  assumes "reads_step H this cf cf'" and "reads_inv cf" and "local_of t v a cf"
  shows "local_of t v a cf'"
  using assms(1)
proof cases
  case (read_steps u ts sc ph sc')
  obtain s c s' c' where [simp]: "sc = (s, c)" and sc' [simp]: "sc' = (s', c')" by fastforce
  have t: "t < length ts" and v: "v < next_addr s" using assms(3) by (simp_all add: read_steps(1) local_of_def)
  have "client_free (\<lambda>s. True) (s, c)" using assms(2) by (simp add: read_steps(1) reads_inv_def)
  with mget2_step_moves [of H this "ts ! u" s c ph s' c'] read_steps(5) have m: "slot_move s (slot (ts ! u)) s' ph" by simp
  note g = slot_move_grows [OF m]
  show ?thesis
  proof (cases "u = t")
    case True
    then have "slot (ts ! t) = [(v, Some a)]"
      using assms(3) read_steps(4) by (auto simp: read_steps(1) local_of_def)
    from slot_move_own [OF _ t this m [unfolded True], of c] assms(2) show ?thesis
      using v g(2) t by (auto simp: read_steps(1,2) local_of_def True)
  next
    case False
    have "fst ` set (slots (ts[u := ph])) \<subseteq> fst ` set (slots ts) \<union> insert (next_addr s) (fst ` set (slot (ts ! u)))"
      using slots_update [OF read_steps(3), of ph] g(1) by blast
    moreover have "set (slot (ts ! u)) \<subseteq> set (slots ts)" by (rule slots_thread) (rule read_steps(3))
    ultimately have "fst ` set (slots (ts[u := ph])) \<subseteq> insert (next_addr s) (fst ` set (slots ts))" by blast
    moreover have "v \<noteq> next_addr s" using v by simp
    ultimately have "v \<notin> fst ` set (slots ts) \<Longrightarrow> v \<notin> fst ` set (slots (ts[u := ph]))" by (rule not_in_grown)
    moreover have "slot (ts ! t) = [(v, Some a)] \<or> has_read (ts ! t) \<noteq> None \<and> v \<notin> fst ` set (slots ts)"
      using assms(3) by (simp add: read_steps(1) local_of_def)
    ultimately have "slot (ts[u := ph] ! t) = [(v, Some a)] \<or>
        has_read (ts[u := ph] ! t) \<noteq> None \<and> v \<notin> fst ` set (slots (ts[u := ph]))"
      unfolding nth_list_update_neq [OF False] by iprover
    then show ?thesis using t v g(2) by (simp only: read_steps(2) local_of_def prod.case length_list_update sc') simp
  qed
next
  case (completes sc q r sc' ts)
  then show ?thesis using assms(2,3) completion_keeps [of r q "fst sc" "snd sc" "fst sc'" "snd sc'"]
    by (cases sc; cases sc') (simp add: reads_inv_def local_of_def)
qed

lemma reads_run_local:
  assumes "reads_run H this cf cf'" and "reads_inv cf" and "local_of t v a cf"
  shows "reads_inv cf' \<and> local_of t v a cf'"
  using assms by (induction rule: rtranclp_induct) (auto intro: reads_step_inv reads_step_local)

lemma reads_inv_slot:
  assumes "reads_inv ((s, c), ts)" and "t < length ts" and "slot (ts ! t) = [(v, p)]"
  shows "v < next_addr s"
proof -
  have "v \<in> fst ` set (slots ts)" using slots_thread [OF assms(2)] assms(3) by force
  then show ?thesis using assms(1) unfolding reads_inv_def by blast
qed

text \<open>The value of the local variable for a completion.\<close>

lemma local_of_value:
  assumes "reads_inv ((s, c), ts)" and "local_of t v a ((s, c), ts)"
  shows "locals s v = (if has_read (ts ! t) = None then Some (Some a) else None)"
proof (cases "has_read (ts ! t) = None")
  case True
  then have "t < length ts" and "slot (ts ! t) = [(v, Some a)]" using assms(2) by (auto simp: local_of_def)
  then have "(v, Some a) \<in> set (slots ts)" using slots_thread [of t ts] by simp
  moreover have "distinct (map fst (slots ts))" using assms(1) by (simp add: reads_inv_def)
  ultimately show ?thesis using True assms(1) by (simp add: reads_inv_def)
next
  case False
  then have "v \<notin> fst ` set (slots ts)" using assms(2) by (auto simp: local_of_def)
  then show ?thesis using False assms(1) by (simp add: reads_inv_def map_of_fresh)
qed

section \<open>Schedules\<close>

fun play_reads :: "'w hiredis \<Rightarrow> addr \<Rightarrow> nat list \<Rightarrow> 'w reads \<Rightarrow> 'w reads option" where
  "play_reads H this [] cf = Some cf"
| "play_reads H this (t # ts) (sc, phs) =
     (if t < length phs \<and> reads_left (phs ! t) \<noteq> 0
      then case mget2_step H this (phs ! t) sc of
             (Ret ph, sc') \<Rightarrow> play_reads H this ts (sc', phs[t := ph])
           | (Abrupt e, sc') \<Rightarrow> None
      else None)"

lemma play_reads_run: "play_reads H this sched cf = Some cf' \<Longrightarrow> reads_run H this cf cf'"
proof (induction H this sched cf rule: play_reads.induct)
  case (2 H this t ts sc phs)
  then obtain ph sc' where l: "t < length phs" "reads_left (phs ! t) \<noteq> 0" and c: "mget2_step H this (phs ! t) sc = (Ret ph, sc')"
    and p: "play_reads H this ts (sc', phs[t := ph]) = Some cf'"
    by (auto split: if_splits prod.splits outcome.splits)
  from read_steps [OF l c] "2.IH" l c p show ?case by (metis converse_rtranclp_into_rtranclp)
qed simp

text \<open>Two threads read; the first gets to where its command is queued, then runs on to its end.\<close>

definition two_reads :: "(string list \<times> addr) list" where
  "two_reads = [([''a'', ''b''], 7), ([''b''], 8)]"

definition reading :: "(string \<rightharpoonup> string) cst" where
  "reading = (empty_sys (\<lambda>_. None), new_client ''shop'')"

definition read_a_b :: MgetAsyncRequestContext where
  "read_a_b = \<lparr>user_keylist = [''a'', ''b''], rq_callback = 7, rq_async_context = 1, rq_client = 9\<rparr>"

lemma two_reads_run:
  "case play_reads kv_lib 9 [0, 1, 0, 1, 0, 0, 0, 0, 0] (reading, asked two_reads) of
     None \<Rightarrow> False
   | Some (sc, ts) \<Rightarrow> ts = [Closing 1 (Some 3) True, Making 2 ''shop'' 0 [''b''] 8] \<and>
       requests (fst sc) 5 = Some read_a_b \<and>
       (case play_reads kv_lib 9 [0] (sc, ts) of
          None \<Rightarrow> False
        | Some (sc', ts') \<Rightarrow> ts' = [Read True, Making 2 ''shop'' 0 [''b''] 8] \<and> requests (fst sc') 5 = Some read_a_b)"
  by code_simp

section \<open>The property\<close>

text \<open>C29: What the completion of an asynchronous read does is a race with the return of the call. Take any run of
  threads in \<open>mget2\<close> and of completions, and a thread that has got a connection in the local variable whose address
  its request holds. While that call has not returned, a completion hands the user the keys with their values in
  ascending order, gives the connection back and frees the request; once it has returned, a completion hands the user the
  same map and is then a use after free, and the connection stays out.\<close>

theorem completions_race_returns:
  assumes "m_ConnPool (snd sc) = Some p" and "\<not> unUsedAsyncMutex p" and "locals (fst sc) = Map.empty"
    and "reads_run H this (sc, asked calls) (sc1, ts1)" and "t < length ts1" and "slot (ts1 ! t) = [(v, Some a)]"
    and "reads_run H this (sc1, ts1) ((s, c), ts)"
    and "requests s q = Some rq" and "rq_async_context rq = v" and "length (rr_element r) \<le> length (user_keylist rq)"
  shows "\<exists>m p'. sorted_wrt (<) (map fst m) \<and> map_of m = map_of (zip (user_keylist rq) (map rr_str (rr_element r))) \<and>
    m_ConnPool c = Some p' \<and>
    mget2Callback (Some r) q (s, c) =
      (if has_read (ts ! t) = None
       then (Ret (), (s\<lparr>called := called s @ [(rq_callback rq, m)], requests := (requests s)(q := None)\<rparr>,
               c\<lparr>m_ConnPool := Some (p'\<lparr>unUsedAsync := unUsedAsync p' @ [Some a], usedAsync := usedAsync p' - 1\<rparr>)\<rparr>))
       else (Abrupt (Undef UseAfterFree), (s\<lparr>called := called s @ [(rq_callback rq, m)]\<rparr>, c)))"
proof -
  have "reads_inv (sc, asked calls)"
    using asked_inv [of "fst sc" "snd sc" calls] assms(1-3) by (simp add: client_free_def split_beta)
  then have i1: "reads_inv (sc1, ts1)" by (rule reads_run_inv [OF assms(4)])
  have "v < next_addr (fst sc1)"
    using reads_inv_slot [OF _ assms(5,6), of "fst sc1" "snd sc1"] i1 by simp
  then have "local_of t v a (sc1, ts1)" using assms(5,6) by (cases sc1) (simp add: local_of_def)
  with reads_run_local [OF assms(7) i1] have i: "reads_inv ((s, c), ts)" and l: "local_of t v a ((s, c), ts)" by simp_all
  note val = local_of_value [OF i l, folded assms(9)]
  obtain p' where p': "m_ConnPool c = Some p'" "\<not> unUsedAsyncMutex p'" using i by (auto simp: reads_inv_def client_free_def)
  show ?thesis
  proof (cases "has_read (ts ! t) = None")
    case True
    with val completion_in_time [OF p' assms(8) _ assms(10)] p'(1) show ?thesis by auto
  next
    case False
    with val mget2Callback_result [OF assms(8,10), of c] p'(1) show ?thesis by (auto simp: kv_ok_def)
  qed
qed

theorem completions_race_returns_witness:
  "\<exists>sc1 ts1 sc ts. reads_run kv_lib 9 (reading, asked two_reads) (sc1, ts1) \<and> has_read (ts1 ! 0) = None \<and>
     fst (mget2Callback (Some (RedisReply 2 0 [] [bulk_reply (Some ''1'')])) 5 sc1) = Ret () \<and>
     reads_run kv_lib 9 (sc1, ts1) (sc, ts) \<and> has_read (ts ! 0) = Some True \<and>
     fst (mget2Callback (Some (RedisReply 2 0 [] [bulk_reply (Some ''1'')])) 5 sc) = Abrupt (Undef UseAfterFree)"
proof -
  let ?r = "RedisReply 2 0 [] [bulk_reply (Some ''1'')]"
  from two_reads_run obtain sc1 ts1 sc ts where
    p1: "play_reads kv_lib 9 [0, 1, 0, 1, 0, 0, 0, 0, 0] (reading, asked two_reads) = Some (sc1, ts1)"
    and p2: "play_reads kv_lib 9 [0] (sc1, ts1) = Some (sc, ts)"
    and ts1: "ts1 = [Closing 1 (Some 3) True, Making 2 ''shop'' 0 [''b''] 8]"
    and q1: "requests (fst sc1) 5 = Some read_a_b" and ts: "ts = [Read True, Making 2 ''shop'' 0 [''b''] 8]"
    and q: "requests (fst sc) 5 = Some read_a_b"
    by (auto simp del: play_reads.simps split: option.splits)
  note r1 = play_reads_run [OF p1] and r2 = play_reads_run [OF p2]
  have start: "m_ConnPool (snd reading) = Some (RedisClientPool_default 0 ''127.0.0.1'' 6379)"
    "\<not> unUsedAsyncMutex (RedisClientPool_default 0 ''127.0.0.1'' 6379)" "locals (fst reading) = Map.empty"
    by (simp_all add: reading_def new_client_def empty_sys_def RedisClientPool_default_def RedisClientPool_new_def)
  have at: "0 < length ts1" "slot (ts1 ! 0) = [(1, Some 3)]" "rq_async_context read_a_b = 1"
    "length (rr_element ?r) \<le> length (user_keylist read_a_b)" by (simp_all add: ts1 read_a_b_def)
  note race = completions_race_returns [OF start r1 at(1,2) _ _ at(3,4)]
  have "fst (mget2Callback (Some ?r) 5 sc1) = Ret ()"
    using race [of "fst sc1" "snd sc1" ts1 5] q1 by (auto simp: ts1)
  moreover have "fst (mget2Callback (Some ?r) 5 sc) = Abrupt (Undef UseAfterFree)"
    using race [of "fst sc" "snd sc" ts 5] r2 q by (auto simp: ts)
  moreover have "has_read (ts1 ! 0) = None" "has_read (ts ! 0) = Some True" by (simp_all add: ts ts1)
  ultimately show ?thesis using r1 r2 by (intro exI conjI)
qed

end
