(* ===== verification/Bfd_Codis.thy ===== *)
theory Bfd_Codis
  imports Round_Robin Client_Async
begin

text \<open>
  The facade \<open>BfdCodis\<close> (\<open>cpp/include/BfdCodis.h\<close>, \<open>cpp/src/BfdCodis.cpp\<close>): every operation asks the pool
  for the next proxy and runs there.
\<close>

section \<open>State\<close>

text \<open>The pointer \<open>m_Pool\<close>, and the process with the pool object it points to.\<close>

record 'w bfd_state =
  m_Pool :: ptr
  bfd_rr :: "'w rr_state"

definition onrr :: "('w rr_state, 'a) prog \<Rightarrow> ('w bfd_state, 'a) prog" where
  "onrr m s =
     (if m_Pool s = None then (Abrupt (Undef NullDeref), s)
      else (case m (bfd_rr s) of (r, t) \<Rightarrow> (r, s\<lparr>bfd_rr := t\<rparr>)))"

text \<open>\<open>m_Pool->GetProxy()->op(...)\<close>\<close>

definition bfd_call :: "(addr \<Rightarrow> ('w cst, 'a) prog) \<Rightarrow> ('w bfd_state, 'a) prog" where
  "bfd_call op = bnd (onrr GetProxy) (\<lambda>a. onrr (onclient a (op a)))"

section \<open>Construction and destruction\<close>

definition BfdCodis_new ::
  "'w hiredis \<Rightarrow> ('w, 'j) zk_env \<Rightarrow> addr \<Rightarrow> addr \<Rightarrow> string \<Rightarrow> string \<Rightarrow> string \<Rightarrow> ('w bfd_state, unit) prog" where
  "BfdCodis_new H Z sp a zookeeperAddr proxyPath businessID s =
     (case RoundRobinCodisPool_new H Z sp zookeeperAddr proxyPath businessID (bfd_rr s) of
        (Ret u, t) \<Rightarrow> (Ret (), s\<lparr>m_Pool := Some a, bfd_rr := t\<rparr>)
      | (Abrupt e, t) \<Rightarrow> (Abrupt e, s\<lparr>bfd_rr := t\<rparr>))"

text \<open>
  The destructor's condition is an assignment: \<open>if (m_Pool = NULL)\<close> clears the pointer and is false, so
  the pool is never deleted.
\<close>

definition BfdCodis_delete :: "'w hiredis \<Rightarrow> ('w bfd_state, unit) prog" where
  "BfdCodis_delete H s =
     (let s1 = s\<lparr>m_Pool := None\<rparr> in
      if m_Pool s1 \<noteq> None
      then (case RoundRobinCodisPool_delete H (bfd_rr s1) of
              (Ret u, t) \<Rightarrow> (Ret (), s1\<lparr>bfd_rr := t, m_Pool := None\<rparr>)
            | (Abrupt e, t) \<Rightarrow> (Abrupt e, s1\<lparr>bfd_rr := t\<rparr>))
      else (Ret (), s1))"

section \<open>The operations\<close>

definition BfdCodis_expire ::
  "'w hiredis \<Rightarrow> string \<Rightarrow> c_int \<Rightarrow> c_int \<Rightarrow> ('w bfd_state, bool) prog" where
  "BfdCodis_expire H key seconds tt = bfd_call (\<lambda>_. CodisClient_expire H key seconds tt)"

definition BfdCodis_exists ::
  "'w hiredis \<Rightarrow> string \<Rightarrow> c_int \<Rightarrow> ('w bfd_state, bool) prog" where
  "BfdCodis_exists H key tt = bfd_call (\<lambda>_. CodisClient_exists H key tt)"

definition BfdCodis_del ::
  "'w hiredis \<Rightarrow> string \<Rightarrow> c_int \<Rightarrow> ('w bfd_state, c_int) prog" where
  "BfdCodis_del H key tt = bfd_call (\<lambda>_. CodisClient_del H key tt)"

definition BfdCodis_del_keys ::
  "'w hiredis \<Rightarrow> string list \<Rightarrow> c_int \<Rightarrow> ('w bfd_state, c_int) prog" where
  "BfdCodis_del_keys H keys tt = bfd_call (\<lambda>_. CodisClient_del_keys H keys tt)"

definition BfdCodis_type ::
  "'w hiredis \<Rightarrow> string \<Rightarrow> c_int \<Rightarrow> ('w bfd_state, string) prog" where
  "BfdCodis_type H key tt = bfd_call (\<lambda>_. CodisClient_type H key tt)"

definition BfdCodis_setbit ::
  "'w hiredis \<Rightarrow> string \<Rightarrow> c_int \<Rightarrow> bool \<Rightarrow> c_int \<Rightarrow> ('w bfd_state, c_int) prog" where
  "BfdCodis_setbit H key index value tt = bfd_call (\<lambda>_. CodisClient_setbit H key index value tt)"

definition BfdCodis_getbit ::
  "'w hiredis \<Rightarrow> string \<Rightarrow> c_int \<Rightarrow> c_int \<Rightarrow> ('w bfd_state, c_int) prog" where
  "BfdCodis_getbit H key index tt = bfd_call (\<lambda>_. CodisClient_getbit H key index tt)"

definition BfdCodis_bitcount ::
  "'w hiredis \<Rightarrow> string \<Rightarrow> c_int \<Rightarrow> ('w bfd_state, c_int) prog" where
  "BfdCodis_bitcount H key tt = bfd_call (\<lambda>_. CodisClient_bitcount H key tt)"

definition BfdCodis_set ::
  "'w hiredis \<Rightarrow> string \<Rightarrow> string \<Rightarrow> c_int \<Rightarrow> ('w bfd_state, bool) prog" where
  "BfdCodis_set H key value tt = bfd_call (\<lambda>_. CodisClient_set H key value tt)"

definition BfdCodis_setnx ::
  "'w hiredis \<Rightarrow> string \<Rightarrow> string \<Rightarrow> c_int \<Rightarrow> ('w bfd_state, bool) prog" where
  "BfdCodis_setnx H key value tt = bfd_call (\<lambda>_. CodisClient_setnx H key value tt)"

definition BfdCodis_setex ::
  "'w hiredis \<Rightarrow> string \<Rightarrow> string \<Rightarrow> c_int \<Rightarrow> c_int \<Rightarrow> ('w bfd_state, bool) prog" where
  "BfdCodis_setex H key value seconds tt = bfd_call (\<lambda>_. CodisClient_setex H key value seconds tt)"

definition BfdCodis_get ::
  "'w hiredis \<Rightarrow> string \<Rightarrow> c_int \<Rightarrow> ('w bfd_state, string) prog" where
  "BfdCodis_get H key tt = bfd_call (\<lambda>_. CodisClient_get H key tt)"

definition BfdCodis_getset ::
  "'w hiredis \<Rightarrow> string \<Rightarrow> string \<Rightarrow> c_int \<Rightarrow> ('w bfd_state, string) prog" where
  "BfdCodis_getset H key value tt = bfd_call (\<lambda>_. CodisClient_getset H key value tt)"

definition BfdCodis_mget ::
  "'w hiredis \<Rightarrow> string list \<Rightarrow> c_int \<Rightarrow> ('w bfd_state, string list) prog" where
  "BfdCodis_mget H keys tt = bfd_call (\<lambda>_. CodisClient_mget H keys tt)"

definition BfdCodis_mset ::
  "'w hiredis \<Rightarrow> KVMap \<Rightarrow> c_int \<Rightarrow> ('w bfd_state, bool) prog" where
  "BfdCodis_mset H keyvalues tt = bfd_call (\<lambda>_. CodisClient_mset H keyvalues tt)"

definition BfdCodis_incr ::
  "'w hiredis \<Rightarrow> string \<Rightarrow> c_int \<Rightarrow> ('w bfd_state, c_int) prog" where
  "BfdCodis_incr H key tt = bfd_call (\<lambda>_. CodisClient_incr H key tt)"

definition BfdCodis_decr ::
  "'w hiredis \<Rightarrow> string \<Rightarrow> c_int \<Rightarrow> ('w bfd_state, c_int) prog" where
  "BfdCodis_decr H key tt = bfd_call (\<lambda>_. CodisClient_decr H key tt)"

definition BfdCodis_incrby ::
  "'w hiredis \<Rightarrow> string \<Rightarrow> c_int \<Rightarrow> c_int \<Rightarrow> ('w bfd_state, c_int) prog" where
  "BfdCodis_incrby H key amount tt = bfd_call (\<lambda>_. CodisClient_incrby H key amount tt)"

definition BfdCodis_decrby ::
  "'w hiredis \<Rightarrow> string \<Rightarrow> c_int \<Rightarrow> c_int \<Rightarrow> ('w bfd_state, c_int) prog" where
  "BfdCodis_decrby H key amount tt = bfd_call (\<lambda>_. CodisClient_decrby H key amount tt)"

definition BfdCodis_append ::
  "'w hiredis \<Rightarrow> string \<Rightarrow> string \<Rightarrow> c_int \<Rightarrow> ('w bfd_state, c_long) prog" where
  "BfdCodis_append H key value tt = bfd_call (\<lambda>_. CodisClient_append H key value tt)"

definition BfdCodis_lpush ::
  "'w hiredis \<Rightarrow> string \<Rightarrow> string \<Rightarrow> c_int \<Rightarrow> ('w bfd_state, c_int) prog" where
  "BfdCodis_lpush H key value tt = bfd_call (\<lambda>_. CodisClient_lpush H key value tt)"

definition BfdCodis_rpush ::
  "'w hiredis \<Rightarrow> string \<Rightarrow> string \<Rightarrow> c_int \<Rightarrow> ('w bfd_state, c_int) prog" where
  "BfdCodis_rpush H key value tt = bfd_call (\<lambda>_. CodisClient_rpush H key value tt)"

definition BfdCodis_lpush_values ::
  "'w hiredis \<Rightarrow> string \<Rightarrow> string list \<Rightarrow> c_int \<Rightarrow> ('w bfd_state, c_int) prog" where
  "BfdCodis_lpush_values H key vals tt = bfd_call (\<lambda>_. CodisClient_lpush_values H key vals tt)"

definition BfdCodis_rpush_values ::
  "'w hiredis \<Rightarrow> string \<Rightarrow> string list \<Rightarrow> c_int \<Rightarrow> ('w bfd_state, c_int) prog" where
  "BfdCodis_rpush_values H key vals tt = bfd_call (\<lambda>_. CodisClient_rpush_values H key vals tt)"

definition BfdCodis_llen ::
  "'w hiredis \<Rightarrow> string \<Rightarrow> c_int \<Rightarrow> ('w bfd_state, c_int) prog" where
  "BfdCodis_llen H key tt = bfd_call (\<lambda>_. CodisClient_llen H key tt)"

definition BfdCodis_lrange ::
  "'w hiredis \<Rightarrow> string \<Rightarrow> c_int \<Rightarrow> c_int \<Rightarrow> c_int \<Rightarrow> ('w bfd_state, string list) prog" where
  "BfdCodis_lrange H key start stop tt = bfd_call (\<lambda>_. CodisClient_lrange H key start stop tt)"

definition BfdCodis_ltrim ::
  "'w hiredis \<Rightarrow> string \<Rightarrow> c_int \<Rightarrow> c_int \<Rightarrow> c_int \<Rightarrow> ('w bfd_state, bool) prog" where
  "BfdCodis_ltrim H key start stop tt = bfd_call (\<lambda>_. CodisClient_ltrim H key start stop tt)"

definition BfdCodis_lset ::
  "'w hiredis \<Rightarrow> string \<Rightarrow> c_int \<Rightarrow> string \<Rightarrow> c_int \<Rightarrow> ('w bfd_state, bool) prog" where
  "BfdCodis_lset H key index value tt = bfd_call (\<lambda>_. CodisClient_lset H key index value tt)"

definition BfdCodis_lrem ::
  "'w hiredis \<Rightarrow> string \<Rightarrow> c_int \<Rightarrow> string \<Rightarrow> c_int \<Rightarrow> ('w bfd_state, bool) prog" where
  "BfdCodis_lrem H key count value tt = bfd_call (\<lambda>_. CodisClient_lrem H key count value tt)"

definition BfdCodis_lpop ::
  "'w hiredis \<Rightarrow> string \<Rightarrow> c_int \<Rightarrow> ('w bfd_state, string) prog" where
  "BfdCodis_lpop H key tt = bfd_call (\<lambda>_. CodisClient_lpop H key tt)"

definition BfdCodis_rpop ::
  "'w hiredis \<Rightarrow> string \<Rightarrow> c_int \<Rightarrow> ('w bfd_state, string) prog" where
  "BfdCodis_rpop H key tt = bfd_call (\<lambda>_. CodisClient_rpop H key tt)"

definition BfdCodis_sadd ::
  "'w hiredis \<Rightarrow> string \<Rightarrow> string \<Rightarrow> c_int \<Rightarrow> ('w bfd_state, bool) prog" where
  "BfdCodis_sadd H key member tt = bfd_call (\<lambda>_. CodisClient_sadd H key member tt)"

definition BfdCodis_sadd_members ::
  "'w hiredis \<Rightarrow> string \<Rightarrow> string list \<Rightarrow> c_int \<Rightarrow> ('w bfd_state, c_int) prog" where
  "BfdCodis_sadd_members H key members tt = bfd_call (\<lambda>_. CodisClient_sadd_members H key members tt)"

definition BfdCodis_srem ::
  "'w hiredis \<Rightarrow> string \<Rightarrow> string \<Rightarrow> c_int \<Rightarrow> ('w bfd_state, bool) prog" where
  "BfdCodis_srem H key member tt = bfd_call (\<lambda>_. CodisClient_srem H key member tt)"

definition BfdCodis_spop ::
  "'w hiredis \<Rightarrow> string \<Rightarrow> c_int \<Rightarrow> ('w bfd_state, string) prog" where
  "BfdCodis_spop H key tt = bfd_call (\<lambda>_. CodisClient_spop H key tt)"

definition BfdCodis_srandmember ::
  "'w hiredis \<Rightarrow> string \<Rightarrow> c_int \<Rightarrow> ('w bfd_state, string) prog" where
  "BfdCodis_srandmember H key tt = bfd_call (\<lambda>_. CodisClient_srandmember H key tt)"

definition BfdCodis_scard ::
  "'w hiredis \<Rightarrow> string \<Rightarrow> c_int \<Rightarrow> ('w bfd_state, c_int) prog" where
  "BfdCodis_scard H key tt = bfd_call (\<lambda>_. CodisClient_scard H key tt)"

definition BfdCodis_sismember ::
  "'w hiredis \<Rightarrow> string \<Rightarrow> string \<Rightarrow> c_int \<Rightarrow> ('w bfd_state, bool) prog" where
  "BfdCodis_sismember H key member tt = bfd_call (\<lambda>_. CodisClient_sismember H key member tt)"

definition BfdCodis_smembers ::
  "'w hiredis \<Rightarrow> string \<Rightarrow> c_int \<Rightarrow> ('w bfd_state, string list) prog" where
  "BfdCodis_smembers H key tt = bfd_call (\<lambda>_. CodisClient_smembers H key tt)"

definition BfdCodis_zadd ::
  "'w hiredis \<Rightarrow> string \<Rightarrow> c_int \<Rightarrow> string \<Rightarrow> c_int \<Rightarrow> ('w bfd_state, bool) prog" where
  "BfdCodis_zadd H key score member tt = bfd_call (\<lambda>_. CodisClient_zadd H key score member tt)"

definition BfdCodis_zrem ::
  "'w hiredis \<Rightarrow> string \<Rightarrow> string \<Rightarrow> c_int \<Rightarrow> ('w bfd_state, bool) prog" where
  "BfdCodis_zrem H key member tt = bfd_call (\<lambda>_. CodisClient_zrem H key member tt)"

definition BfdCodis_zincrby ::
  "'w hiredis \<Rightarrow> string \<Rightarrow> c_int \<Rightarrow> string \<Rightarrow> c_int \<Rightarrow> ('w bfd_state, c_int) prog" where
  "BfdCodis_zincrby H key amount member tt = bfd_call (\<lambda>_. CodisClient_zincrby H key amount member tt)"

definition BfdCodis_zrank ::
  "'w hiredis \<Rightarrow> string \<Rightarrow> string \<Rightarrow> c_int \<Rightarrow> ('w bfd_state, c_int) prog" where
  "BfdCodis_zrank H key member tt = bfd_call (\<lambda>_. CodisClient_zrank H key member tt)"

definition BfdCodis_zrevrank ::
  "'w hiredis \<Rightarrow> string \<Rightarrow> string \<Rightarrow> c_int \<Rightarrow> ('w bfd_state, c_int) prog" where
  "BfdCodis_zrevrank H key member tt = bfd_call (\<lambda>_. CodisClient_zrevrank H key member tt)"

definition BfdCodis_zrange ::
  "'w hiredis \<Rightarrow> string \<Rightarrow> c_int \<Rightarrow> c_int \<Rightarrow> string \<Rightarrow> c_int \<Rightarrow> ('w bfd_state, string list) prog" where
  "BfdCodis_zrange H key start stop withscores tt = bfd_call (\<lambda>_. CodisClient_zrange H key start stop withscores tt)"

definition BfdCodis_zrevrange ::
  "'w hiredis \<Rightarrow> string \<Rightarrow> c_int \<Rightarrow> c_int \<Rightarrow> string \<Rightarrow> c_int \<Rightarrow> ('w bfd_state, string list) prog" where
  "BfdCodis_zrevrange H key start stop withscores tt = bfd_call (\<lambda>_. CodisClient_zrevrange H key start stop withscores tt)"

definition BfdCodis_zrangebyscore ::
  "'w hiredis \<Rightarrow> string \<Rightarrow> string \<Rightarrow> string \<Rightarrow> string \<Rightarrow> c_int \<Rightarrow> ('w bfd_state, string list) prog" where
  "BfdCodis_zrangebyscore H key lo hi withscores tt = bfd_call (\<lambda>_. CodisClient_zrangebyscore H key lo hi withscores tt)"

definition BfdCodis_zrevrangebyscore ::
  "'w hiredis \<Rightarrow> string \<Rightarrow> string \<Rightarrow> string \<Rightarrow> string \<Rightarrow> c_int \<Rightarrow> ('w bfd_state, string list) prog" where
  "BfdCodis_zrevrangebyscore H key lo hi withscores tt = bfd_call (\<lambda>_. CodisClient_zrevrangebyscore H key lo hi withscores tt)"

definition BfdCodis_zcount ::
  "'w hiredis \<Rightarrow> string \<Rightarrow> c_int \<Rightarrow> c_int \<Rightarrow> c_int \<Rightarrow> ('w bfd_state, c_int) prog" where
  "BfdCodis_zcount H key lo hi tt = bfd_call (\<lambda>_. CodisClient_zcount H key lo hi tt)"

definition BfdCodis_zcard ::
  "'w hiredis \<Rightarrow> string \<Rightarrow> c_int \<Rightarrow> ('w bfd_state, c_int) prog" where
  "BfdCodis_zcard H key tt = bfd_call (\<lambda>_. CodisClient_zcard H key tt)"

definition BfdCodis_zscore ::
  "'w hiredis \<Rightarrow> string \<Rightarrow> string \<Rightarrow> c_int \<Rightarrow> ('w bfd_state, c_int) prog" where
  "BfdCodis_zscore H key member tt = bfd_call (\<lambda>_. CodisClient_zscore H key member tt)"

definition BfdCodis_zremrangebyrank ::
  "'w hiredis \<Rightarrow> string \<Rightarrow> c_int \<Rightarrow> c_int \<Rightarrow> c_int \<Rightarrow> ('w bfd_state, c_int) prog" where
  "BfdCodis_zremrangebyrank H key lo hi tt = bfd_call (\<lambda>_. CodisClient_zremrangebyrank H key lo hi tt)"

definition BfdCodis_zremrangebyscore ::
  "'w hiredis \<Rightarrow> string \<Rightarrow> c_int \<Rightarrow> c_int \<Rightarrow> c_int \<Rightarrow> ('w bfd_state, c_int) prog" where
  "BfdCodis_zremrangebyscore H key lo hi tt = bfd_call (\<lambda>_. CodisClient_zremrangebyscore H key lo hi tt)"

definition BfdCodis_hset ::
  "'w hiredis \<Rightarrow> string \<Rightarrow> string \<Rightarrow> string \<Rightarrow> c_int \<Rightarrow> ('w bfd_state, bool) prog" where
  "BfdCodis_hset H key field value tt = bfd_call (\<lambda>_. CodisClient_hset H key field value tt)"

definition BfdCodis_hget ::
  "'w hiredis \<Rightarrow> string \<Rightarrow> string \<Rightarrow> c_int \<Rightarrow> ('w bfd_state, string) prog" where
  "BfdCodis_hget H key field tt = bfd_call (\<lambda>_. CodisClient_hget H key field tt)"

definition BfdCodis_hmget ::
  "'w hiredis \<Rightarrow> string \<Rightarrow> string list \<Rightarrow> c_int \<Rightarrow> ('w bfd_state, string list) prog" where
  "BfdCodis_hmget H key flds tt = bfd_call (\<lambda>_. CodisClient_hmget H key flds tt)"

definition BfdCodis_hmset ::
  "'w hiredis \<Rightarrow> string \<Rightarrow> string list \<Rightarrow> string list \<Rightarrow> c_int \<Rightarrow> ('w bfd_state, bool) prog" where
  "BfdCodis_hmset H key flds vals tt = bfd_call (\<lambda>_. CodisClient_hmset H key flds vals tt)"

definition BfdCodis_hincrby ::
  "'w hiredis \<Rightarrow> string \<Rightarrow> string \<Rightarrow> c_int \<Rightarrow> c_int \<Rightarrow> ('w bfd_state, c_int) prog" where
  "BfdCodis_hincrby H key field amount tt = bfd_call (\<lambda>_. CodisClient_hincrby H key field amount tt)"

definition BfdCodis_hexists ::
  "'w hiredis \<Rightarrow> string \<Rightarrow> string \<Rightarrow> c_int \<Rightarrow> ('w bfd_state, bool) prog" where
  "BfdCodis_hexists H key field tt = bfd_call (\<lambda>_. CodisClient_hexists H key field tt)"

definition BfdCodis_hdel ::
  "'w hiredis \<Rightarrow> string \<Rightarrow> string \<Rightarrow> c_int \<Rightarrow> ('w bfd_state, bool) prog" where
  "BfdCodis_hdel H key field tt = bfd_call (\<lambda>_. CodisClient_hdel H key field tt)"

definition BfdCodis_hlen ::
  "'w hiredis \<Rightarrow> string \<Rightarrow> c_int \<Rightarrow> ('w bfd_state, c_int) prog" where
  "BfdCodis_hlen H key tt = bfd_call (\<lambda>_. CodisClient_hlen H key tt)"

definition BfdCodis_hkeys ::
  "'w hiredis \<Rightarrow> string \<Rightarrow> c_int \<Rightarrow> ('w bfd_state, string list) prog" where
  "BfdCodis_hkeys H key tt = bfd_call (\<lambda>_. CodisClient_hkeys H key tt)"

definition BfdCodis_hvals ::
  "'w hiredis \<Rightarrow> string \<Rightarrow> c_int \<Rightarrow> ('w bfd_state, string list) prog" where
  "BfdCodis_hvals H key tt = bfd_call (\<lambda>_. CodisClient_hvals H key tt)"

definition BfdCodis_hgetall ::
  "'w hiredis \<Rightarrow> string \<Rightarrow> string list \<Rightarrow> string list \<Rightarrow> c_int \<Rightarrow> ('w bfd_state, bool \<times> string list \<times> string list) prog" where
  "BfdCodis_hgetall H key flds vals tt = bfd_call (\<lambda>_. CodisClient_hgetall H key flds vals tt)"

text \<open>The asynchronous read needs the address of the client it runs on.\<close>

definition BfdCodis_mget2 :: "'w hiredis \<Rightarrow> string list \<Rightarrow> addr \<Rightarrow> ('w bfd_state, bool) prog" where
  "BfdCodis_mget2 H keys callback = bfd_call (\<lambda>a. mget2 H a keys callback)"

definition BfdCodis_RedisCommand :: "'w hiredis \<Rightarrow> string list \<Rightarrow> c_int \<Rightarrow> ('w bfd_state, Reply) prog" where
  "BfdCodis_RedisCommand H command tt = bfd_call (\<lambda>_. RedisCommand H command tt)"

definition BfdCodis_RedisCommand_cmd :: "'w hiredis \<Rightarrow> Command \<Rightarrow> c_int \<Rightarrow> ('w bfd_state, Reply) prog" where
  "BfdCodis_RedisCommand_cmd H command tt = bfd_call (\<lambda>_. RedisCommand_cmd H command tt)"

definition BfdCodis_RedisCommands :: "'w hiredis \<Rightarrow> Command list \<Rightarrow> ('w bfd_state, Reply list) prog" where
  "BfdCodis_RedisCommands H commands = bfd_call (\<lambda>_. RedisCommands H commands)"

section \<open>Lemmas\<close>

lemma bfd_call_step:
  assumes "rr_good (Suc k) (bfd_rr s)" and "m_Pool s \<noteq> None"
  defines "p \<equiv> rr_pool (bfd_rr s)"
  defines "a \<equiv> m_Proxys p ! (rr_pos (bfd_rr s) mod length (m_Proxys p))"
  obtains c where "rr_clients (bfd_rr s) a = Some c"
    and "bfd_call op s =
      (case op a (rr_sys (bfd_rr s), c) of
         (r, (t, c')) \<Rightarrow> (r, s\<lparr>bfd_rr := (bfd_rr s)\<lparr>rr_sys := t,
            rr_clients := (rr_clients (bfd_rr s))(a \<mapsto> c'), rr_pool := p\<lparr>proxyIndex := proxyIndex p + 1\<rparr>\<rparr>\<rparr>))"
proof -
  note g = GetProxy_step [OF assms(1), folded p_def, folded a_def]
  have "set (m_Proxys p) \<subseteq> dom (rr_clients (bfd_rr s))"
    using assms(1) by (simp add: rr_good_def rr_ok_def p_def)
  then have "a \<in> dom (rr_clients (bfd_rr s))" using g(3) by (rule subsetD)
  then obtain c where c: "rr_clients (bfd_rr s) a = Some c" by blast
  have "bfd_call op s =
      (case op a (rr_sys (bfd_rr s), c) of
         (r, (t, c')) \<Rightarrow> (r, s\<lparr>bfd_rr := (bfd_rr s)\<lparr>rr_sys := t,
            rr_clients := (rr_clients (bfd_rr s))(a \<mapsto> c'), rr_pool := p\<lparr>proxyIndex := proxyIndex p + 1\<rparr>\<rparr>\<rparr>))"
    using assms(2) c by (auto simp: bfd_call_def onrr_def bnd_def g(1) onclient_def split: prod.splits)
  with c that show thesis by blast
qed

end
