(* ===== verification/Facade_Api.thy ===== *)
theory Facade_Api
  imports Client_Api Bfd_Codis
begin

text \<open>
  The public interface of the facade \<open>BfdCodis\<close> (\<open>cpp/include/BfdCodis.h\<close>): the same methods as
  \<open>CodisClient\<close>, section by section, dispatched to the facade's operations; and the theorem that ties
  the two interfaces together.
\<close>

section \<open>Dispatch\<close>

lemmas bfd_op_defs =
  BfdCodis_exists_def BfdCodis_del_def BfdCodis_del_keys_def
  BfdCodis_type_def BfdCodis_expire_def BfdCodis_set_def
  BfdCodis_setnx_def BfdCodis_setex_def BfdCodis_get_def
  BfdCodis_getset_def BfdCodis_setbit_def BfdCodis_getbit_def
  BfdCodis_bitcount_def BfdCodis_mget_def BfdCodis_mget2_def
  BfdCodis_mset_def BfdCodis_incr_def BfdCodis_decr_def
  BfdCodis_incrby_def BfdCodis_decrby_def BfdCodis_append_def
  BfdCodis_lpush_def BfdCodis_rpush_def BfdCodis_lpush_values_def
  BfdCodis_rpush_values_def BfdCodis_llen_def BfdCodis_lrange_def
  BfdCodis_ltrim_def BfdCodis_lset_def BfdCodis_lrem_def
  BfdCodis_lpop_def BfdCodis_rpop_def BfdCodis_sadd_def
  BfdCodis_sadd_members_def BfdCodis_srem_def BfdCodis_spop_def
  BfdCodis_srandmember_def BfdCodis_scard_def BfdCodis_sismember_def
  BfdCodis_smembers_def BfdCodis_zadd_def BfdCodis_zrem_def
  BfdCodis_zincrby_def BfdCodis_zrank_def BfdCodis_zrevrank_def
  BfdCodis_zrange_def BfdCodis_zrevrange_def BfdCodis_zrangebyscore_def
  BfdCodis_zrevrangebyscore_def BfdCodis_zcount_def BfdCodis_zcard_def
  BfdCodis_zscore_def BfdCodis_zremrangebyrank_def BfdCodis_zremrangebyscore_def
  BfdCodis_hset_def BfdCodis_hget_def BfdCodis_hmget_def
  BfdCodis_hmset_def BfdCodis_hincrby_def BfdCodis_hexists_def
  BfdCodis_hdel_def BfdCodis_hlen_def BfdCodis_hkeys_def
  BfdCodis_hvals_def BfdCodis_hgetall_def BfdCodis_RedisCommand_def
  BfdCodis_RedisCommand_cmd_def BfdCodis_RedisCommands_def

fun facade_key_run :: "'w hiredis \<Rightarrow> key_call \<Rightarrow> ('w bfd_state, api_value) prog" where
  "facade_key_run H (call_exists key tt) = value_of Bool_v (BfdCodis_exists H key tt)"
| "facade_key_run H (call_del key tt) = value_of Int_v (BfdCodis_del H key tt)"
| "facade_key_run H (call_del_keys keys tt) = value_of Int_v (BfdCodis_del_keys H keys tt)"
| "facade_key_run H (call_type key tt) = value_of Str_v (BfdCodis_type H key tt)"
| "facade_key_run H (call_expire key seconds tt) = value_of Bool_v (BfdCodis_expire H key seconds tt)"

fun facade_string_run :: "'w hiredis \<Rightarrow> string_call \<Rightarrow> ('w bfd_state, api_value) prog" where
  "facade_string_run H (call_set key val tt) = value_of Bool_v (BfdCodis_set H key val tt)"
| "facade_string_run H (call_setnx key val tt) = value_of Bool_v (BfdCodis_setnx H key val tt)"
| "facade_string_run H (call_setex key val seconds tt) = value_of Bool_v (BfdCodis_setex H key val seconds tt)"
| "facade_string_run H (call_get key tt) = value_of Str_v (BfdCodis_get H key tt)"
| "facade_string_run H (call_getset key val tt) = value_of Str_v (BfdCodis_getset H key val tt)"
| "facade_string_run H (call_setbit key index val tt) = value_of Int_v (BfdCodis_setbit H key index val tt)"
| "facade_string_run H (call_getbit key index tt) = value_of Int_v (BfdCodis_getbit H key index tt)"
| "facade_string_run H (call_bitcount key tt) = value_of Int_v (BfdCodis_bitcount H key tt)"
| "facade_string_run H (call_mget keys tt) = value_of Strs_v (BfdCodis_mget H keys tt)"
| "facade_string_run H (call_mget2 keys callback) = value_of Bool_v (BfdCodis_mget2 H keys callback)"
| "facade_string_run H (call_mset keyvalues tt) = value_of Bool_v (BfdCodis_mset H keyvalues tt)"
| "facade_string_run H (call_incr key tt) = value_of Int_v (BfdCodis_incr H key tt)"
| "facade_string_run H (call_decr key tt) = value_of Int_v (BfdCodis_decr H key tt)"
| "facade_string_run H (call_incrby key amount tt) = value_of Int_v (BfdCodis_incrby H key amount tt)"
| "facade_string_run H (call_decrby key amount tt) = value_of Int_v (BfdCodis_decrby H key amount tt)"
| "facade_string_run H (call_append key val tt) = value_of Long_v (BfdCodis_append H key val tt)"

fun facade_list_run :: "'w hiredis \<Rightarrow> list_call \<Rightarrow> ('w bfd_state, api_value) prog" where
  "facade_list_run H (call_lpush key val tt) = value_of Int_v (BfdCodis_lpush H key val tt)"
| "facade_list_run H (call_rpush key val tt) = value_of Int_v (BfdCodis_rpush H key val tt)"
| "facade_list_run H (call_lpush_values key vals tt) = value_of Int_v (BfdCodis_lpush_values H key vals tt)"
| "facade_list_run H (call_rpush_values key vals tt) = value_of Int_v (BfdCodis_rpush_values H key vals tt)"
| "facade_list_run H (call_llen key tt) = value_of Int_v (BfdCodis_llen H key tt)"
| "facade_list_run H (call_lrange key start stop tt) = value_of Strs_v (BfdCodis_lrange H key start stop tt)"
| "facade_list_run H (call_ltrim key start stop tt) = value_of Bool_v (BfdCodis_ltrim H key start stop tt)"
| "facade_list_run H (call_lset key index val tt) = value_of Bool_v (BfdCodis_lset H key index val tt)"
| "facade_list_run H (call_lrem key count val tt) = value_of Bool_v (BfdCodis_lrem H key count val tt)"
| "facade_list_run H (call_lpop key tt) = value_of Str_v (BfdCodis_lpop H key tt)"
| "facade_list_run H (call_rpop key tt) = value_of Str_v (BfdCodis_rpop H key tt)"

fun facade_set_run :: "'w hiredis \<Rightarrow> set_call \<Rightarrow> ('w bfd_state, api_value) prog" where
  "facade_set_run H (call_sadd key member tt) = value_of Bool_v (BfdCodis_sadd H key member tt)"
| "facade_set_run H (call_sadd_members key members tt) = value_of Int_v (BfdCodis_sadd_members H key members tt)"
| "facade_set_run H (call_srem key member tt) = value_of Bool_v (BfdCodis_srem H key member tt)"
| "facade_set_run H (call_spop key tt) = value_of Str_v (BfdCodis_spop H key tt)"
| "facade_set_run H (call_srandmember key tt) = value_of Str_v (BfdCodis_srandmember H key tt)"
| "facade_set_run H (call_scard key tt) = value_of Int_v (BfdCodis_scard H key tt)"
| "facade_set_run H (call_sismember key member tt) = value_of Bool_v (BfdCodis_sismember H key member tt)"
| "facade_set_run H (call_smembers key tt) = value_of Strs_v (BfdCodis_smembers H key tt)"

fun facade_zset_run :: "'w hiredis \<Rightarrow> zset_call \<Rightarrow> ('w bfd_state, api_value) prog" where
  "facade_zset_run H (call_zadd key score member tt) = value_of Bool_v (BfdCodis_zadd H key score member tt)"
| "facade_zset_run H (call_zrem key member tt) = value_of Bool_v (BfdCodis_zrem H key member tt)"
| "facade_zset_run H (call_zincrby key amount member tt) = value_of Int_v (BfdCodis_zincrby H key amount member tt)"
| "facade_zset_run H (call_zrank key member tt) = value_of Int_v (BfdCodis_zrank H key member tt)"
| "facade_zset_run H (call_zrevrank key member tt) = value_of Int_v (BfdCodis_zrevrank H key member tt)"
| "facade_zset_run H (call_zrange key start stop withscores tt) = value_of Strs_v (BfdCodis_zrange H key start stop withscores tt)"
| "facade_zset_run H (call_zrevrange key start stop withscores tt) = value_of Strs_v (BfdCodis_zrevrange H key start stop withscores tt)"
| "facade_zset_run H (call_zrangebyscore key mn mx withscores tt) = value_of Strs_v (BfdCodis_zrangebyscore H key mn mx withscores tt)"
| "facade_zset_run H (call_zrevrangebyscore key mn mx withscores tt) = value_of Strs_v (BfdCodis_zrevrangebyscore H key mn mx withscores tt)"
| "facade_zset_run H (call_zcount key mn mx tt) = value_of Int_v (BfdCodis_zcount H key mn mx tt)"
| "facade_zset_run H (call_zcard key tt) = value_of Int_v (BfdCodis_zcard H key tt)"
| "facade_zset_run H (call_zscore key member tt) = value_of Int_v (BfdCodis_zscore H key member tt)"
| "facade_zset_run H (call_zremrangebyrank key mn mx tt) = value_of Int_v (BfdCodis_zremrangebyrank H key mn mx tt)"
| "facade_zset_run H (call_zremrangebyscore key mn mx tt) = value_of Int_v (BfdCodis_zremrangebyscore H key mn mx tt)"

fun facade_hash_run :: "'w hiredis \<Rightarrow> hash_call \<Rightarrow> ('w bfd_state, api_value) prog" where
  "facade_hash_run H (call_hset key fld val tt) = value_of Bool_v (BfdCodis_hset H key fld val tt)"
| "facade_hash_run H (call_hget key fld tt) = value_of Str_v (BfdCodis_hget H key fld tt)"
| "facade_hash_run H (call_hmget key fld tt) = value_of Strs_v (BfdCodis_hmget H key fld tt)"
| "facade_hash_run H (call_hmset key flds vals tt) = value_of Bool_v (BfdCodis_hmset H key flds vals tt)"
| "facade_hash_run H (call_hincrby key fld amount tt) = value_of Int_v (BfdCodis_hincrby H key fld amount tt)"
| "facade_hash_run H (call_hexists key fld tt) = value_of Bool_v (BfdCodis_hexists H key fld tt)"
| "facade_hash_run H (call_hdel key fld tt) = value_of Bool_v (BfdCodis_hdel H key fld tt)"
| "facade_hash_run H (call_hlen key tt) = value_of Int_v (BfdCodis_hlen H key tt)"
| "facade_hash_run H (call_hkeys key tt) = value_of Strs_v (BfdCodis_hkeys H key tt)"
| "facade_hash_run H (call_hvals key tt) = value_of Strs_v (BfdCodis_hvals H key tt)"
| "facade_hash_run H (call_hgetall key flds vals tt) = value_of Pairs_v (BfdCodis_hgetall H key flds vals tt)"

fun facade_command_run :: "'w hiredis \<Rightarrow> command_call \<Rightarrow> ('w bfd_state, api_value) prog" where
  "facade_command_run H (call_RedisCommand command tt) = value_of Reply_v (BfdCodis_RedisCommand H command tt)"
| "facade_command_run H (call_RedisCommand_cmd command tt) = value_of Reply_v (BfdCodis_RedisCommand_cmd H command tt)"
| "facade_command_run H (call_RedisCommands commands) = value_of Replies_v (BfdCodis_RedisCommands H commands)"

fun facade_run :: "'w hiredis \<Rightarrow> client_call \<Rightarrow> ('w bfd_state, api_value) prog" where
  "facade_run H (OnKey c) = facade_key_run H c"
| "facade_run H (OnString c) = facade_string_run H c"
| "facade_run H (OnList c) = facade_list_run H c"
| "facade_run H (OnSet c) = facade_set_run H c"
| "facade_run H (OnZset c) = facade_zset_run H c"
| "facade_run H (OnHash c) = facade_hash_run H c"
| "facade_run H (OnCommand c) = facade_command_run H c"

section \<open>Lemmas: the facade is the client at the next proxy\<close>

lemma value_of_bfd_call:
  "value_of f (bfd_call op) = bfd_call (\<lambda>a. value_of f (op a))" (is "?l = ?r")
proof -
  have "?l s = ?r s" for s
    by (auto simp: value_of_def bfd_call_def bnd_def onrr_def onclient_def ret_def
        split: prod.splits outcome.splits option.splits)
  then show ?thesis by blast
qed

lemma facade_key: "facade_key_run H c = bfd_call (\<lambda>a. client_key_run H a c)"
  by (cases c) (simp_all add: bfd_op_defs value_of_bfd_call)

lemma facade_string: "facade_string_run H c = bfd_call (\<lambda>a. client_string_run H a c)"
  by (cases c) (simp_all add: bfd_op_defs value_of_bfd_call)

lemma facade_list: "facade_list_run H c = bfd_call (\<lambda>a. client_list_run H a c)"
  by (cases c) (simp_all add: bfd_op_defs value_of_bfd_call)

lemma facade_set: "facade_set_run H c = bfd_call (\<lambda>a. client_set_run H a c)"
  by (cases c) (simp_all add: bfd_op_defs value_of_bfd_call)

lemma facade_zset: "facade_zset_run H c = bfd_call (\<lambda>a. client_zset_run H a c)"
  by (cases c) (simp_all add: bfd_op_defs value_of_bfd_call)

lemma facade_hash: "facade_hash_run H c = bfd_call (\<lambda>a. client_hash_run H a c)"
  by (cases c) (simp_all add: bfd_op_defs value_of_bfd_call)

lemma facade_command: "facade_command_run H c = bfd_call (\<lambda>a. client_command_run H a c)"
  by (cases c) (simp_all add: bfd_op_defs value_of_bfd_call)

lemma facade_is_client: "facade_run H c = bfd_call (\<lambda>a. client_run H a c)"
  by (cases c)
     (simp_all add: facade_key facade_string facade_list facade_set facade_zset facade_hash facade_command)

end
