(* ===== verification/Zk_Discovery.thy ===== *)
theory Zk_Discovery
  imports Round_Robin
begin

text \<open>
  What the pool of proxies gets from ZooKeeper: waiting for the connection, reading a node, and turning
  the children of the proxy directory into the list of proxies, over a ZooKeeper whose nodes stand
  still while they are read.
\<close>

section \<open>Waiting for the connection\<close>

text \<open>The state the library reports at the \<open>k\<close>-th poll, and the world after \<open>k\<close> polls.\<close>

fun polled :: "('w, 'j) zk_env \<Rightarrow> ptr \<Rightarrow> nat \<Rightarrow> 'w \<Rightarrow> 'w" where
  "polled Z zh 0 w = w"
| "polled Z zh (Suc k) w = polled Z zh k (snd (zk_state Z zh w))"

definition state_at :: "('w, 'j) zk_env \<Rightarrow> ptr \<Rightarrow> nat \<Rightarrow> 'w \<Rightarrow> c_int" where
  "state_at Z zh k w = fst (zk_state Z zh (polled Z zh k w))"

definition with_world :: "'w \<Rightarrow> 'w rr_state \<Rightarrow> 'w rr_state" where
  "with_world w s = s\<lparr>rr_sys := (rr_sys s)\<lparr>world := w\<rparr>\<rparr>"

lemma with_world_simps [simp]:
  "world (rr_sys (with_world w s)) = w" "with_world w (with_world v s) = with_world w s"
  "with_world (world (rr_sys s)) s = s" "rr_pool (with_world w s) = rr_pool s"
  "rr_clients (with_world w s) = rr_clients s"
  by (simp_all add: with_world_def)

lemma with_world_pool: "with_world w (s\<lparr>rr_pool := p\<rparr>) = (with_world w s)\<lparr>rr_pool := p\<rparr>"
  by (cases s) (simp add: with_world_def)

lemma rworld_with: "rworld f s = (case f (world (rr_sys s)) of (x, w) \<Rightarrow> (Ret x, with_world w s))"
  by (simp add: rworld_apply with_world_def)

lemma state_at_0: "state_at Z zh 0 w = fst (zk_state Z zh w)"
  and state_at_Suc: "state_at Z zh (Suc k) w = state_at Z zh k (snd (zk_state Z zh w))"
  by (simp_all add: state_at_def)

lemma zk_wait_step:
  "zk_wait Z zh (Suc n) s =
     (if state_at Z zh 0 (world (rr_sys s)) = zoo_connected Z
      then (Ret (Suc n), with_world (polled Z zh 1 (world (rr_sys s))) s)
      else zk_wait Z zh n (with_world (polled Z zh 1 (world (rr_sys s))) s))"
  by (simp add: bnd_def rworld_with state_at_0 prog_simps split: prod.splits)

lemma zk_wait_never:
  "\<forall>k < n. state_at Z zh k (world (rr_sys s)) \<noteq> zoo_connected Z \<Longrightarrow>
     zk_wait Z zh n s = (Ret 0, with_world (polled Z zh (Suc n) (world (rr_sys s))) s)"
proof (induction n arbitrary: s)
  case 0
  then show ?case by (simp add: bnd_def rworld_with prog_simps split: prod.splits)
next
  case (Suc n)
  let ?w1 = "snd (zk_state Z zh (world (rr_sys s)))"
  have "\<forall>k < n. state_at Z zh k (world (rr_sys (with_world ?w1 s))) \<noteq> zoo_connected Z"
    using Suc.prems by (simp flip: state_at_Suc)
  from Suc.IH [OF this] Suc.prems show ?case by (auto simp: zk_wait_step simp del: zk_wait.simps)
qed

lemma zk_wait_at:
  "k < n \<Longrightarrow> \<forall>j < k. state_at Z zh j (world (rr_sys s)) \<noteq> zoo_connected Z \<Longrightarrow>
     state_at Z zh k (world (rr_sys s)) = zoo_connected Z \<Longrightarrow>
     zk_wait Z zh n s = (Ret (n - k), with_world (polled Z zh (Suc k) (world (rr_sys s))) s)"
proof (induction k arbitrary: n s)
  case 0
  then obtain m where "n = Suc m" by (cases n) auto
  with 0 show ?case by (simp add: zk_wait_step del: zk_wait.simps)
next
  case (Suc k)
  then obtain m where n: "n = Suc m" "k < m" by (cases n) auto
  let ?w1 = "snd (zk_state Z zh (world (rr_sys s)))"
  have "\<forall>j < k. state_at Z zh j (world (rr_sys (with_world ?w1 s))) \<noteq> zoo_connected Z"
    and "state_at Z zh k (world (rr_sys (with_world ?w1 s))) = zoo_connected Z"
    using Suc.prems by (auto simp flip: state_at_Suc)
  from Suc.IH [OF n(2) this] Suc.prems(2) show ?case
    by (auto simp: zk_wait_step n(1) simp del: zk_wait.simps)
qed

section \<open>Reading a node\<close>

lemma ZkGet_steady:
  assumes z: "\<And>w. zk_get Z zh (c_str path) w = ((ZOK, d), w)"
    and d: "CHR 0x00 \<notin> set d" and raw: "length (mem_garbage Z (length d + 1) (world (rr_sys s))) = length d + 1"
  shows "ZkGet Z zh path s =
    (if mem_garbage Z (length d + 1) (world (rr_sys s)) ! length d = CHR 0x00 then Ret d
     else Abrupt (Undef OutOfBounds), s)"
proof -
  let ?raw = "mem_garbage Z (length d + 1) (world (rr_sys s))"
  have one: "drop (length d) ?raw = [?raw ! length d]"
    using raw by (simp add: Cons_nth_drop_Suc [symmetric])
  have "c_str (d @ [CHR 0x00]) = d"
    using d by (auto simp: c_str_def takeWhile_append takeWhile_eq_all_conv)
  moreover have "fst (ZkGet Z zh path s) =
      (if CHR 0x00 \<in> set (d @ [?raw ! length d]) then Ret (c_str (d @ [?raw ! length d]))
       else Abrupt (Undef OutOfBounds)) \<and> snd (ZkGet Z zh path s) = s"
    by (simp add: ZkGet_def rworld_with z prog_simps bnd_def [of "rworld f" for f] Let_def one [simplified])
  ultimately show ?thesis using d by (cases "?raw ! length d = CHR 0x00") (auto simp: prod_eq_iff)
qed

section \<open>The list of proxies\<close>

text \<open>Nodes stand still while they are read; an allocation has the size asked for.\<close>

definition steady :: "('w, 'j) zk_env \<Rightarrow> ptr \<Rightarrow> string \<Rightarrow> (string \<Rightarrow> string) \<Rightarrow> bool" where
  "steady Z zh dir node \<longleftrightarrow>
     (\<forall>n w. length (mem_garbage Z n w) = n) \<and>
     (\<forall>name w. zk_get Z zh (c_str (dir @ ''/'' @ name)) w = ((ZOK, node name), w) \<and> CHR 0x00 \<notin> set (node name))"

text \<open>In the world \<open>w\<close> the buffer for a node happens to have a zero byte behind its data.\<close>

definition terminated :: "('w, 'j) zk_env \<Rightarrow> 'w \<Rightarrow> string \<Rightarrow> bool" where
  "terminated Z w d \<longleftrightarrow> mem_garbage Z (length d + 1) w ! length d = CHR 0x00"

text \<open>The node of a proxy that is online at a host and a port; of one that is not.\<close>

definition online_node :: "('w, 'j) zk_env \<Rightarrow> string \<Rightarrow> string \<times> c_int \<Rightarrow> bool" where
  "online_node Z d info \<longleftrightarrow> (\<exists>j. js_parse Z d = Some j \<and>
     js_isMember Z j ''state'' = Ret True \<and> js_isString Z (js_get Z j ''state'') \<and>
     js_asString Z (js_get Z j ''state'') = ''online'' \<and>
     js_isMember Z j ''addr'' = Ret True \<and> js_isString Z (js_get Z j ''addr'') \<and>
     js_asString Z (js_get Z j ''addr'') = fst info @ CHR '':'' # int2string (snd info) \<and>
     CHR '':'' \<notin> set (fst info))"

definition offline_node :: "('w, 'j) zk_env \<Rightarrow> string \<Rightarrow> bool" where
  "offline_node Z d \<longleftrightarrow> js_parse Z d = None \<or> (\<exists>j b. js_parse Z d = Some j \<and>
     js_isMember Z j ''state'' = Ret b \<and>
     \<not> (b \<and> js_isString Z (js_get Z j ''state'') \<and> js_asString Z (js_get Z j ''state'') = ''online''))"

lemma colon_int2string: "CHR '':'' \<notin> set (int2string i)"
  using nat_to_dec_digits [of "CHR '':''"] by (auto simp: int2string_def int_to_dec_def is_digit_def)

lemma split_host_port:
  assumes "CHR '':'' \<notin> set h"
  shows "split_str (h @ CHR '':'' # int2string p) CHR '':'' = [h, int2string p]"
proof -
  have "int2string p \<noteq> []" by (simp add: int2string_def int_to_dec_def nat_to_dec_not_Nil)
  then show ?thesis using assms by (simp add: split_str_piece split_str_last colon_int2string)
qed

lemma atoi_int2string: "atoi (c_str (int2string p)) = p"
  using string2int_int2string_append [of "[]" p] by (simp add: string2int_def)

lemma c_str_id: "CHR 0x00 \<notin> set d \<Longrightarrow> c_str d = d"
  by (auto simp: c_str_def takeWhile_eq_all_conv)

lemma ZkGet_node:
  assumes "steady Z zh dir node"
  shows "ZkGet Z zh (dir @ ''/'' @ name) s =
    (if terminated Z (world (rr_sys s)) (node name) then Ret (node name) else Abrupt (Undef OutOfBounds), s)"
proof -
  have "\<And>w. zk_get Z zh (c_str (dir @ ''/'' @ name)) w = ((ZOK, node name), w)" and "CHR 0x00 \<notin> set (node name)"
    and "length (mem_garbage Z (length (node name) + 1) (world (rr_sys s))) = length (node name) + 1"
    using assms unfolding steady_def by blast+
  from ZkGet_steady [OF this] show ?thesis unfolding terminated_def .
qed

lemma js_and_apply: "js_and m b s = (case m of Ret x \<Rightarrow> (Ret (x \<and> b), s) | Abrupt e \<Rightarrow> (Abrupt e, s))"
  by (simp add: js_and_def)

lemma proxy_info_online:
  assumes S: "steady Z zh dir node" and "online_node Z (node name) info" and "terminated Z (world (rr_sys s)) (node name)"
  shows "proxy_info Z sp zh dir name s = (Ret [info], s)"
proof -
  have "CHR 0x00 \<notin> set (node name)" using S by (simp add: steady_def)
  then show ?thesis using assms(2,3)
    by (auto simp: proxy_info_def online_node_def bnd_def ZkGet_node [OF S, simplified] js_and_apply c_str_id
        split_host_port atoi_int2string prog_simps Let_def)
qed

text \<open>A node that is not online is logged and left out.\<close>

definition with_log :: "LEVEL \<times> string \<Rightarrow> 'w rr_state \<Rightarrow> 'w rr_state" where
  "with_log l s = s\<lparr>rr_sys := (rr_sys s)\<lparr>logs := logs (rr_sys s) @ [l]\<rparr>\<rparr>"

lemma proxy_info_offline:
  assumes S: "steady Z zh dir node" and "offline_node Z (node name)" and "terminated Z (world (rr_sys s)) (node name)"
  shows "\<exists>msg. proxy_info Z sp zh dir name s = (Ret [], with_log (ERROR, msg) s)"
proof -
  have "CHR 0x00 \<notin> set (node name)" using S by (simp add: steady_def)
  then show ?thesis using assms(2,3)
    by (auto simp: proxy_info_def offline_node_def bnd_def ZkGet_node [OF S, simplified] js_and_apply c_str_id
        with_log_def rr_simps env_simps prog_simps)
qed

text \<open>A node whose buffer does not end in a zero byte is read past its end.\<close>

lemma proxy_info_over:
  "steady Z zh dir node \<Longrightarrow> \<not> terminated Z (world (rr_sys s)) (node name) \<Longrightarrow>
     proxy_info Z sp zh dir name s = (Abrupt (Undef OutOfBounds), s)"
  using ZkGet_node [of Z zh dir node name s] by (simp add: proxy_info_def bnd_def)

text \<open>Only the log changes while the list is read.\<close>

definition same_but_logs :: "'w rr_state \<Rightarrow> 'w rr_state \<Rightarrow> bool" where
  "same_but_logs s s' \<longleftrightarrow> (\<exists>l. s' = s\<lparr>rr_sys := (rr_sys s)\<lparr>logs := l\<rparr>\<rparr>)"

lemma with_log_simps [simp]:
  "rr_pool (with_log l s) = rr_pool s" "rr_clients (with_log l s) = rr_clients s"
  "ctxs (rr_sys (with_log l s)) = ctxs (rr_sys s)" "world (rr_sys (with_log l s)) = world (rr_sys s)" "next_addr (rr_sys (with_log l s)) = next_addr (rr_sys s)"
  by (simp_all add: with_log_def)

lemma same_but_logs_refl: "same_but_logs s s"
proof -
  have "s = s\<lparr>rr_sys := (rr_sys s)\<lparr>logs := logs (rr_sys s)\<rparr>\<rparr>" by simp
  then show ?thesis unfolding same_but_logs_def by blast
qed

lemma same_but_logs_log: "same_but_logs s (with_log l s)"
  by (auto simp: same_but_logs_def with_log_def)

lemma same_but_logs_trans: "same_but_logs s t \<Longrightarrow> same_but_logs t u \<Longrightarrow> same_but_logs s u"
  by (auto simp: same_but_logs_def)

lemma same_but_logs_world: "same_but_logs s t \<Longrightarrow> world (rr_sys t) = world (rr_sys s)"
  by (auto simp: same_but_logs_def)

lemma proxy_info_read:
  assumes "steady Z zh dir node" and "terminated Z (world (rr_sys s)) (node name)"
    and "case up name of Some info \<Rightarrow> online_node Z (node name) info | None \<Rightarrow> offline_node Z (node name)"
  shows "\<exists>s1. proxy_info Z sp zh dir name s = (Ret (List.map_filter up [name]), s1) \<and> same_but_logs s s1"
proof (cases "up name")
  case None
  with proxy_info_offline [OF assms(1) _ assms(2), of sp] assms(3) same_but_logs_log show ?thesis
    by (fastforce simp: List.map_filter_def)
next
  case (Some info)
  with proxy_info_online [OF assms(1) _ assms(2), of info sp] assms(3) same_but_logs_refl show ?thesis
    by (fastforce simp: List.map_filter_def)
qed

lemma mapM_proxy_info:
  assumes S: "steady Z zh dir node"
  shows "(\<And>name. name \<in> set names \<Longrightarrow> case up name of Some info \<Rightarrow> online_node Z (node name) info
             | None \<Rightarrow> offline_node Z (node name)) \<Longrightarrow>
     \<forall>name \<in> set names. terminated Z (world (rr_sys s)) (node name) \<Longrightarrow>
     \<exists>xs s'. mapM_prog (\<lambda>name. proxy_info Z sp zh dir name) names s = (Ret xs, s') \<and>
        concat xs = List.map_filter up names \<and> same_but_logs s s'"
proof (induction names arbitrary: s)
  case Nil
  show ?case by (simp add: prog_simps same_but_logs_refl List.map_filter_def)
next
  case (Cons name names)
  from proxy_info_read [OF S, of s name up sp] Cons.prems obtain s1 where
    one: "proxy_info Z sp zh dir name s = (Ret (List.map_filter up [name]), s1)" and keep: "same_but_logs s s1" by auto
  from Cons.IH [of s1] Cons.prems same_but_logs_world [OF keep] obtain xs s' where
    m: "mapM_prog (\<lambda>name. proxy_info Z sp zh dir name) names s1 = (Ret xs, s')"
    and xs: "concat xs = List.map_filter up names" and "same_but_logs s1 s'" by auto
  with same_but_logs_trans [OF keep] have "same_but_logs s s'" by blast
  moreover have "concat (List.map_filter up [name] # xs) = List.map_filter up (name # names)"
    by (simp add: xs List.map_filter_def)
  ultimately show ?case
    using mapM_Cons_Ret [where f = "\<lambda>name. proxy_info Z sp zh dir name", OF one m] by blast
qed

lemma mapM_proxy_info_over:
  assumes S: "steady Z zh dir node"
  shows "(\<And>name. name \<in> set names \<Longrightarrow> case up name of Some info \<Rightarrow> online_node Z (node name) info
             | None \<Rightarrow> offline_node Z (node name)) \<Longrightarrow>
     \<exists>name \<in> set names. \<not> terminated Z (world (rr_sys s)) (node name) \<Longrightarrow>
     \<exists>s'. mapM_prog (\<lambda>name. proxy_info Z sp zh dir name) names s = (Abrupt (Undef OutOfBounds), s')"
proof (induction names arbitrary: s)
  case (Cons name names)
  show ?case
  proof (cases "terminated Z (world (rr_sys s)) (node name)")
    case True
    from proxy_info_read [OF S True, of up sp] Cons.prems(1) obtain s1 where
      one: "proxy_info Z sp zh dir name s = (Ret (List.map_filter up [name]), s1)" and "same_but_logs s s1" by auto
    with Cons.IH [of s1] Cons.prems True same_but_logs_world obtain s' where
      "mapM_prog (\<lambda>name. proxy_info Z sp zh dir name) names s1 = (Abrupt (Undef OutOfBounds), s')" by fastforce
    with one show ?thesis by (simp add: bnd_def)
  next
    case False
    from proxy_info_over [OF S False, of sp] show ?thesis by (simp add: bnd_def)
  qed
qed simp

lemma GetProxyInfos_steady:
  assumes S: "steady Z zh dir node"
    and c: "\<And>w. zk_children Z zh (c_str dir) w = ((ZOK, names), w)"
    and n: "\<And>name. name \<in> set names \<Longrightarrow> case up name of Some info \<Rightarrow> online_node Z (node name) info
             | None \<Rightarrow> offline_node Z (node name)"
  shows "\<forall>name \<in> set names. terminated Z (world (rr_sys s)) (node name) \<Longrightarrow>
      \<exists>s'. GetProxyInfos Z sp zh dir s = (Ret (List.map_filter up names), s') \<and> same_but_logs s s'"
    and "\<exists>name \<in> set names. \<not> terminated Z (world (rr_sys s)) (node name) \<Longrightarrow>
      \<exists>s'. GetProxyInfos Z sp zh dir s = (Abrupt (Undef OutOfBounds), s')"
proof -
  have r: "rworld (zk_children Z zh (c_str dir)) s = (Ret (ZOK, names), s)" by (simp add: rworld_with c)
  assume "\<forall>name \<in> set names. terminated Z (world (rr_sys s)) (node name)"
  from mapM_proxy_info [OF S n this, of sp] r
  show "\<exists>s'. GetProxyInfos Z sp zh dir s = (Ret (List.map_filter up names), s') \<and> same_but_logs s s'"
    by (force simp: GetProxyInfos_def bnd_def prog_simps)
next
  have r: "rworld (zk_children Z zh (c_str dir)) s = (Ret (ZOK, names), s)" by (simp add: rworld_with c)
  assume "\<exists>name \<in> set names. \<not> terminated Z (world (rr_sys s)) (node name)"
  from mapM_proxy_info_over [OF S n this, of sp] r
  show "\<exists>s'. GetProxyInfos Z sp zh dir s = (Abrupt (Undef OutOfBounds), s')"
    by (force simp: GetProxyInfos_def bnd_def prog_simps)
qed

section \<open>The list of clients\<close>

lemma zk_connect_wait:
  assumes "zk_init Z (c_str (m_ZookeeperAddr (rr_pool s))) (world (rr_sys s)) = (zh, w)"
  shows "zk_connect H Z sp s =
      bnd (zk_wait Z zh 10000) (\<lambda>left. if left = 0
        then andthen (rsys (LOG ERROR (''connect zookeeper error! zookeeperAddr='' @ m_ZookeeperAddr (rr_pool s))))
                     (abort (Exit 1))
        else Init H Z sp (m_ProxyPath (rr_pool s)))
      (with_world w (s\<lparr>rr_pool := (rr_pool s)\<lparr>m_Zh := zh\<rparr>\<rparr>))"
  using assms by (simp add: zk_connect_def rr_simps(3-) prog_simps bnd_def [of "rworld f" for f] rworld_with
      with_world_pool del: zk_wait.simps)

lemma zk_connect_never:
  assumes "zk_init Z (c_str (m_ZookeeperAddr (rr_pool s))) (world (rr_sys s)) = (zh, w)"
    and "\<forall>k < 10000. state_at Z zh k w \<noteq> zoo_connected Z"
  shows "fst (zk_connect H Z sp s) = Abrupt (Exit 1)"
  unfolding zk_connect_wait [OF assms(1)] bnd_def
  using zk_wait_never [of 10000 Z zh "with_world w (s\<lparr>rr_pool := (rr_pool s)\<lparr>m_Zh := zh\<rparr>\<rparr>)"] assms(2)
  by (simp add: prog_simps rr_simps env_simps bnd_def del: zk_wait.simps polled.simps)

lemma zk_connect_at:
  assumes "zk_init Z (c_str (m_ZookeeperAddr (rr_pool s))) (world (rr_sys s)) = (zh, w)"
    and "k < 10000" and "state_at Z zh k w = zoo_connected Z" and "\<forall>j < k. state_at Z zh j w \<noteq> zoo_connected Z"
  shows "zk_connect H Z sp s = Init H Z sp (m_ProxyPath (rr_pool s))
         (with_world (polled Z zh (Suc k) w) (s\<lparr>rr_pool := (rr_pool s)\<lparr>m_Zh := zh\<rparr>\<rparr>))"
  unfolding zk_connect_wait [OF assms(1)] bnd_def
  using zk_wait_at [OF assms(2), of Z zh "with_world w (s\<lparr>rr_pool := (rr_pool s)\<lparr>m_Zh := zh\<rparr>\<rparr>)"] assms(2-)
  by (simp del: zk_wait.simps polled.simps)

lemma child_event_Init:
  assumes "zev_child Z \<notin> {zev_session Z, zev_changed Z, zev_deleted Z}"
  shows "\<exists>msg. proxy_watcher H Z sp (zev_child Z) (zoo_connected Z) s =
    Init H Z sp (m_ProxyPath (rr_pool s)) (with_log (INFO, msg) s)"
  using assms by (auto simp: proxy_watcher_def bnd_def prog_simps rr_simps env_simps with_log_def)

text \<open>Over clients nobody is using, the list becomes one new client per proxy that is online.\<close>

lemma Init_rebuilds:
  assumes steady: "steady Z (m_Zh (rr_pool s)) dir node"
    and children: "\<And>w. zk_children Z (m_Zh (rr_pool s)) (c_str dir) w = ((ZOK, names), w)"
    and nodes: "\<And>name. name \<in> set names \<Longrightarrow> case up name of Some info \<Rightarrow> online_node Z (node name) info
             | None \<Rightarrow> offline_node Z (node name)"
    and ok: "dom (rr_clients s) \<subseteq> {..<next_addr (rr_sys s)}" "\<not> m_Mutex (rr_pool s)"
      "- 1 \<le> sint (proxyIndex (rr_pool s))" "deletable s (m_Proxys (rr_pool s)) ass"
    and env: "threads_ok Z" "length names < 2 ^ 31"
    and zero: "\<forall>name \<in> set names. terminated Z (world (rr_sys s)) (node name)"
  shows "\<exists>s'. Init H Z sp dir s = (if List.map_filter up names = [] then Abrupt (Exit 1) else Ret (), s') \<and>
    (List.map_filter up names \<noteq> [] \<longrightarrow> rr_ok s' \<and> proxyIndex (rr_pool s') = proxyIndex (rr_pool s) \<and>
       list_all2 (\<lambda>a info. \<exists>c. rr_clients s' a = Some c \<and> fresh_client (m_BusinessID (rr_pool s)) info c)
         (m_Proxys (rr_pool s')) (List.map_filter up names) \<and>
       (\<forall>a \<in> set (m_Proxys (rr_pool s)). rr_clients s' a = None))"
proof -
  let ?infos = "List.map_filter up names"
  from GetProxyInfos_steady(1) [OF steady children nodes zero, of sp] obtain s1 where
    g: "GetProxyInfos Z sp (m_Zh (rr_pool s)) dir s = (Ret ?infos, s1)" and "same_but_logs s s1" by blast
  then have s1: "rr_pool s1 = rr_pool s" "rr_clients s1 = rr_clients s" "ctxs (rr_sys s1) = ctxs (rr_sys s)"
    "next_addr (rr_sys s1) = next_addr (rr_sys s)" by (auto simp: same_but_logs_def)
  have i: "Init H Z sp dir s =
      (if ?infos = [] then andthen (rsys (LOG ERROR ''no proxy can be used!'')) (abort (Exit 1)) s1
       else InitProxyConns H Z ?infos s1)"
    using g by (simp add: Init_def bnd_getrr bnd_Ret)
  show ?thesis
  proof (cases "?infos = []")
    case True
    then show ?thesis unfolding i by (simp add: rr_simps prog_simps bnd_def env_simps)
  next
    case False
    have "length ?infos \<le> length names" by (simp add: List.map_filter_def)
    then have len: "length ?infos < 2 ^ 31" using env(2) by linarith
    have "dom (rr_clients s1) \<subseteq> {..<next_addr (rr_sys s1)}" "\<not> m_Mutex (rr_pool s1)"
      "- 1 \<le> sint (proxyIndex (rr_pool s1))" "deletable s1 (m_Proxys (rr_pool s1)) ass"
      using ok by (simp_all add: s1 deletable_def)
    from InitProxyConns_replaces [OF this env(1) False len, of H] show ?thesis
      unfolding i if_not_P [OF False] s1 by blast
  qed
qed

lemma Init_over:
  assumes "steady Z (m_Zh (rr_pool s)) dir node"
    and "\<And>w. zk_children Z (m_Zh (rr_pool s)) (c_str dir) w = ((ZOK, names), w)"
    and "\<And>name. name \<in> set names \<Longrightarrow> case up name of Some info \<Rightarrow> online_node Z (node name) info
             | None \<Rightarrow> offline_node Z (node name)"
    and "\<exists>name \<in> set names. \<not> terminated Z (world (rr_sys s)) (node name)"
  shows "\<exists>s'. Init H Z sp dir s = (Abrupt (Undef OutOfBounds), s')"
proof -
  from GetProxyInfos_steady(2) [OF assms, of sp] obtain s' where
    "GetProxyInfos Z sp (m_Zh (rr_pool s)) dir s = (Abrupt (Undef OutOfBounds), s')" by blast
  then show ?thesis by (simp add: Init_def bnd_getrr) (simp add: bnd_def)
qed

end
