(* ===== verification/Example_Zk.thy ===== *)
theory Example_Zk
  imports Zk_Discovery Example_Server
begin

text \<open>
  A ZooKeeper that is always connected and knows one proxy, which is online: the witnesses about the pool of proxies
  run over it. The JSON library of the example takes the text of a node for its address.
\<close>

definition demo_zk :: "('w, string) zk_env" where
  "demo_zk = \<lparr>zk_init = (\<lambda>a w. (Some 1, w)), zk_state = (\<lambda>h w. (3, w)), zk_close = (\<lambda>h w. w),
     zk_children = (\<lambda>h p w. ((0, [''p1'']), w)), zk_get = (\<lambda>h p w. ((0, ''10.0.0.1:19000''), w)),
     zk_error = (\<lambda>e. ''error''), zoo_connected = 3, zoo_connecting = 1, zoo_expired = - 112,
     zev_session = - 1, zev_changed = 3, zev_deleted = 2, zev_child = 4, zev_created = 1,
     js_parse = Some, js_isMember = (\<lambda>j k. Ret True), js_get = (\<lambda>j k. if k = ''state'' then ''online'' else j),
     js_isString = (\<lambda>j. True), js_asString = (\<lambda>j. j), js_styled = (\<lambda>j. j),
     mem_garbage = (\<lambda>n w. replicate n (CHR 0x00)), os_loop = (\<lambda>w. (Some 5, w)),
     os_thread = (\<lambda>w. (0, w)), os_word = (\<lambda>w. 0)\<rparr>"

lemma demo_threads: "threads_ok demo_zk"
  by (simp add: threads_ok_def demo_zk_def)

lemma demo_steady: "steady demo_zk zh dir (\<lambda>name. ''10.0.0.1:19000'')"
  by (simp add: steady_def demo_zk_def ZOK_def)

lemma demo_children: "zk_children demo_zk zh p w = ((ZOK, [''p1'']), w)"
  by (simp add: demo_zk_def ZOK_def)

lemma demo_online: "online_node demo_zk ''10.0.0.1:19000'' (''10.0.0.1'', 19000)"
proof -
  have "nat_to_dec 19000 = ''19000''"
    by (simp add: nat_to_dec.simps [of 19000] nat_to_dec.simps [of 1900] nat_to_dec.simps [of 190]
        nat_to_dec.simps [of 19] nat_to_dec.simps [of "Suc 0"] digit_def char_of_def bit_Suc_0_iff)
  then have "int2string 19000 = ''19000''" by (simp add: int2string_def int_to_dec_def)
  then show ?thesis by (simp add: online_node_def demo_zk_def)
qed

end
