(* ===== verification/Facade_Properties.thy ===== *)
theory Facade_Properties
  imports Facade_Api Example_Zk
begin

text \<open>
  The properties of the pool of proxies and of the facade: which proxy serves a call, what a refresh of
  the list does, and where the two meet badly. The witnesses run on a pool of two clients and on a
  ZooKeeper with one fixed node per proxy.
\<close>

section \<open>A pool of two clients\<close>

definition two_proxies :: "c_int \<Rightarrow> (string \<rightharpoonup> string) rr_state" where
  "two_proxies i = \<lparr>rr_sys = (empty_sys (\<lambda>_. None))\<lparr>next_addr := 30\<rparr>,
     rr_clients = [10 \<mapsto> new_client ''shop'', 20 \<mapsto> new_client ''shop''],
     rr_pool = \<lparr>m_Proxys = [10, 20], proxyIndex = i, m_ProxyInfos = [], m_Zh = None,
       m_ZookeeperAddr = ''zk'', m_ProxyPath = ''/p'', m_BusinessID = ''shop'', m_Mutex = False\<rparr>\<rparr>"

lemma two_proxies_good: "- 1 \<le> sint i \<Longrightarrow> sint i + int k < 2 ^ 31 \<Longrightarrow> rr_good k (two_proxies i)"
  by (auto simp: rr_good_def rr_ok_def two_proxies_def)

section \<open>Which proxy serves a call\<close>

text \<open>C22: The facade is the client at the next proxy: a call of any of its 68 methods is the same call on
  the client at position \<open>pos mod n\<close> of the list, with the same result, exceptions included; the position
  moves on by one, the list and the other clients stay as they are.\<close>

theorem facade_round_robin:
  assumes "rr_good (Suc k) (bfd_rr s)" and "m_Pool s \<noteq> None"
  shows "\<exists>a c. a = m_Proxys (rr_pool (bfd_rr s)) ! (rr_pos (bfd_rr s) mod length (m_Proxys (rr_pool (bfd_rr s)))) \<and>
    rr_clients (bfd_rr s) a = Some c \<and>
    facade_run H call s = (case client_run H a call (rr_sys (bfd_rr s), c) of
      (r, (t, c')) \<Rightarrow> (r, s\<lparr>bfd_rr := (bfd_rr s)\<lparr>rr_sys := t, rr_clients := (rr_clients (bfd_rr s))(a \<mapsto> c'),
         rr_pool := (rr_pool (bfd_rr s))\<lparr>proxyIndex := proxyIndex (rr_pool (bfd_rr s)) + 1\<rparr>\<rparr>\<rparr>)) \<and>
    sint (proxyIndex (rr_pool (bfd_rr s)) + 1) = sint (proxyIndex (rr_pool (bfd_rr s))) + 1"
proof -
  obtain c where "rr_clients (bfd_rr s) (m_Proxys (rr_pool (bfd_rr s)) !
      (rr_pos (bfd_rr s) mod length (m_Proxys (rr_pool (bfd_rr s))))) = Some c"
    and "facade_run H call s = (case client_run H (m_Proxys (rr_pool (bfd_rr s)) !
        (rr_pos (bfd_rr s) mod length (m_Proxys (rr_pool (bfd_rr s))))) call (rr_sys (bfd_rr s), c) of
      (r, (t, c')) \<Rightarrow> (r, s\<lparr>bfd_rr := (bfd_rr s)\<lparr>rr_sys := t, rr_clients := (rr_clients (bfd_rr s))
         (m_Proxys (rr_pool (bfd_rr s)) ! (rr_pos (bfd_rr s) mod length (m_Proxys (rr_pool (bfd_rr s)))) \<mapsto> c'),
         rr_pool := (rr_pool (bfd_rr s))\<lparr>proxyIndex := proxyIndex (rr_pool (bfd_rr s)) + 1\<rparr>\<rparr>\<rparr>))"
    unfolding facade_is_client by (rule bfd_call_step [OF assms])
  with GetProxy_step(2) [OF assms(1)] show ?thesis by blast
qed

theorem facade_round_robin_witness:
  "\<exists>s'. facade_run kv_lib (OnKey (call_del_keys [] 0)) \<lparr>m_Pool = Some 1, bfd_rr = two_proxies 0\<rparr> = (Ret (Int_v 0), s') \<and>
     proxyIndex (rr_pool (bfd_rr s')) = 1"
proof -
  let ?s = "\<lparr>m_Pool = Some 1, bfd_rr = two_proxies 0\<rparr>"
  have g: "rr_good (Suc 0) (bfd_rr ?s)" by (simp add: two_proxies_good)
  from facade_round_robin [OF g, of kv_lib "OnKey (call_del_keys [] 0)"] obtain a c where
    c: "a = [10, 20] ! 1" "rr_clients (two_proxies 0) a = Some c" and
    f: "facade_run kv_lib (OnKey (call_del_keys [] 0)) ?s =
      (case client_run kv_lib a (OnKey (call_del_keys [] 0)) (rr_sys (two_proxies 0), c) of
      (r, (t, c')) \<Rightarrow> (r, ?s\<lparr>bfd_rr := (two_proxies 0)\<lparr>rr_sys := t, rr_clients := (rr_clients (two_proxies 0))(a \<mapsto> c'),
         rr_pool := (rr_pool (two_proxies 0))\<lparr>proxyIndex := proxyIndex (rr_pool (two_proxies 0)) + 1\<rparr>\<rparr>\<rparr>))"
    by (auto simp: rr_pos_def two_proxies_def)
  show ?thesis
    unfolding f
    by (simp add: value_of_def CodisClient_del_keys_def RedisCommand_cmd_def command_simps RedisCommand_short
        bnd_def prog_simps llong_to_int_def) (simp add: two_proxies_def)
qed

text \<open>As many calls as there are proxies use each of them exactly once, in the order of the list from
  the current position on.\<close>

lemma proxies_in_turn:
  assumes "rr_good (length (m_Proxys (rr_pool s))) s" and "length us = length (m_Proxys (rr_pool s))"
  shows "\<exists>s'. mapM_prog (\<lambda>_. GetProxy) us s = (Ret (rotate (rr_pos s) (m_Proxys (rr_pool s))), s')"
  using rr.turn [of s us] assms by auto



section \<open>Refreshing the list\<close>

lemma two_proxies_deletable: "deletable (two_proxies i) (m_Proxys (rr_pool (two_proxies i))) [[], []]"
  by (simp add: deletable_def two_proxies_def idle_client_def new_client_def RedisClientPool_default_def
      RedisClientPool_new_def)

lemma two_proxies_simps:
  "dom (rr_clients (two_proxies i)) \<subseteq> {..<next_addr (rr_sys (two_proxies i))}"
  "m_Mutex (rr_pool (two_proxies i)) = False" "proxyIndex (rr_pool (two_proxies i)) = i"
  "m_Proxys (rr_pool (two_proxies i)) = [10, 20]" "m_Zh (rr_pool (two_proxies i)) = None"
  "m_ProxyPath (rr_pool (two_proxies i)) = ''/p''" "m_ZookeeperAddr (rr_pool (two_proxies i)) = ''zk''"
  by (auto simp: two_proxies_def)

text \<open>A refresh over clients nobody is using replaces the list by one new client per proxy reported,
  in the order reported and for the same business ID, keeps the position, and deletes the old clients.\<close>

lemma refresh_replaces:
  assumes "dom (rr_clients s) \<subseteq> {..<next_addr (rr_sys s)}" and "\<not> m_Mutex (rr_pool s)"
    and "- 1 \<le> sint (proxyIndex (rr_pool s))" and "deletable s (m_Proxys (rr_pool s)) ass"
    and "threads_ok Z" and "infos \<noteq> []" and "length infos < 2 ^ 31"
  shows "\<exists>s'. InitProxyConns H Z infos s = (Ret (), s') \<and> rr_ok s' \<and>
       m_ProxyInfos (rr_pool s') = infos \<and> proxyIndex (rr_pool s') = proxyIndex (rr_pool s) \<and>
       list_all2 (\<lambda>a info. \<exists>c. rr_clients s' a = Some c \<and> fresh_client (m_BusinessID (rr_pool s)) info c)
         (m_Proxys (rr_pool s')) infos \<and>
       (\<forall>a \<in> set (m_Proxys (rr_pool s)). rr_clients s' a = None)"
  by (rule InitProxyConns_replaces [OF assms])

text \<open>C23: A thread that took its client from the list just before a refresh uses a deleted object: whatever
  it calls, the access is a use after free.\<close>

theorem stale_proxy:
  assumes "rr_good (Suc k) s" and "deletable s (m_Proxys (rr_pool s)) ass" and "threads_ok Z"
    and "infos \<noteq> []" and "length infos < 2 ^ 31"
  shows "\<exists>a s1 s2. GetProxy s = (Ret a, s1) \<and> InitProxyConns H Z infos s1 = (Ret (), s2) \<and>
     onclient a (client_run H a call) s2 = (Abrupt (Undef UseAfterFree), s2)"
proof -
  let ?p = "rr_pool s"
  let ?s1 = "s\<lparr>rr_pool := ?p\<lparr>proxyIndex := proxyIndex ?p + 1\<rparr>\<rparr>"
    and ?a = "m_Proxys ?p ! (rr_pos s mod length (m_Proxys ?p))"
  note g = GetProxy_step [OF assms(1)]
  have ok: "dom (rr_clients ?s1) \<subseteq> {..<next_addr (rr_sys ?s1)}" "\<not> m_Mutex (rr_pool ?s1)"
    "- 1 \<le> sint (proxyIndex (rr_pool ?s1))"
    using assms(1) g(2) by (auto simp: rr_good_def rr_ok_def)
  have "deletable ?s1 (m_Proxys (rr_pool ?s1)) ass" using assms(2) by (simp add: deletable_def)
  from InitProxyConns_replaces [OF ok this assms(3-5), of H] obtain s2 where
    i: "InitProxyConns H Z infos ?s1 = (Ret (), s2)" and "\<forall>a \<in> set (m_Proxys (rr_pool ?s1)). rr_clients s2 a = None"
    by blast
  with g(3) have "rr_clients s2 ?a = None" by simp
  then have "onclient ?a (client_run H ?a call) s2 = (Abrupt (Undef UseAfterFree), s2)" by (simp add: onclient_def)
  with g(1) i show ?thesis by blast
qed

theorem stale_proxy_witness:
  "\<exists>a s1 s2. GetProxy (two_proxies 0) = (Ret a, s1) \<and>
     InitProxyConns kv_lib demo_zk [(''10.0.0.7'', 19000)] s1 = (Ret (), s2) \<and>
     onclient a (client_run kv_lib a (OnKey (call_type ''k'' 0))) s2 = (Abrupt (Undef UseAfterFree), s2)"
proof -
  have "rr_good (Suc 0) (two_proxies 0)" by (simp add: two_proxies_good)
  then show ?thesis by (rule stale_proxy [OF _ two_proxies_deletable demo_threads]) simp_all
qed

section \<open>ZooKeeper\<close>

text \<open>C35: Connecting to ZooKeeper ends in any case: when none of the first 10000 polls finds the session
  connected the process exits with status 1; otherwise the list is built once, from the state right after
  the first poll that did.\<close>

theorem connect_or_exit:
  assumes "zk_init Z (c_str (m_ZookeeperAddr (rr_pool s))) (world (rr_sys s)) = (zh, w)"
  shows "((\<forall>k < 10000. state_at Z zh k w \<noteq> zoo_connected Z) \<longrightarrow> fst (zk_connect H Z sp s) = Abrupt (Exit 1)) \<and>
    (\<forall>k < 10000. state_at Z zh k w = zoo_connected Z \<and> (\<forall>j < k. state_at Z zh j w \<noteq> zoo_connected Z) \<longrightarrow>
       zk_connect H Z sp s = Init H Z sp (m_ProxyPath (rr_pool s))
         (with_world (polled Z zh (Suc k) w) (s\<lparr>rr_pool := (rr_pool s)\<lparr>m_Zh := zh\<rparr>\<rparr>)))"
  using zk_connect_never [OF assms] zk_connect_at [OF assms] by blast

theorem connect_or_exit_witness:
  "fst (zk_connect kv_lib (demo_zk\<lparr>zk_state := \<lambda>h w. (1, w)\<rparr>) 0 (two_proxies 0)) = Abrupt (Exit 1)"
proof -
  let ?Z = "demo_zk\<lparr>zk_state := \<lambda>h w. (1, w)\<rparr> :: (string \<rightharpoonup> string, string) zk_env"
  have "\<forall>k < 10000. state_at ?Z (Some 1) k (\<lambda>_. None) \<noteq> zoo_connected ?Z"
    by (simp add: state_at_def demo_zk_def)
  with connect_or_exit [of ?Z "two_proxies 0" "Some 1" "\<lambda>_. None" kv_lib 0] show ?thesis
    by (simp add: demo_zk_def two_proxies_def empty_sys_def)
qed

text \<open>C39: Reading a node relies on the byte after the data being zero by chance: with a zero there the data
  come back whole, with any other byte the string is read past the end of the buffer.\<close>

theorem node_read_past_end:
  assumes "\<And>w. zk_get Z zh (c_str path) w = ((ZOK, d), w)" and "CHR 0x00 \<notin> set d"
    and "length (mem_garbage Z (length d + 1) (world (rr_sys s))) = length d + 1"
  shows "ZkGet Z zh path s =
    (if mem_garbage Z (length d + 1) (world (rr_sys s)) ! length d = CHR 0x00 then Ret d
     else Abrupt (Undef OutOfBounds), s)"
  using assms by (rule ZkGet_steady)

theorem node_read_past_end_witness:
  "ZkGet (demo_zk\<lparr>mem_garbage := \<lambda>n w. replicate n (CHR ''x'')\<rparr>) (Some 1) ''/p'' (two_proxies 0) =
     (Abrupt (Undef OutOfBounds), two_proxies 0)"
  using node_read_past_end [of "demo_zk\<lparr>mem_garbage := \<lambda>n w. replicate n (CHR ''x'')\<rparr>" "Some 1" "''/p''"
      "''10.0.0.1:19000''" "two_proxies 0"]
  by (simp add: demo_zk_def ZOK_def)

text \<open>When the children of the proxy directory change, the list becomes one new client per proxy that
  ZooKeeper reports online at that moment (its nodes happening to be read with a zero behind them), with the host and port of its node and in the order of the
  directory; when none is online the process exits with status 1.\<close>

lemma child_event_rebuilds:
  assumes steady: "steady Z (m_Zh (rr_pool s)) (m_ProxyPath (rr_pool s)) node"
    and children: "\<And>w. zk_children Z (m_Zh (rr_pool s)) (c_str (m_ProxyPath (rr_pool s))) w = ((ZOK, names), w)"
    and nodes: "\<And>name. name \<in> set names \<Longrightarrow> case up name of Some info \<Rightarrow> online_node Z (node name) info
             | None \<Rightarrow> offline_node Z (node name)"
    and ok: "dom (rr_clients s) \<subseteq> {..<next_addr (rr_sys s)}" "\<not> m_Mutex (rr_pool s)"
      "- 1 \<le> sint (proxyIndex (rr_pool s))" "deletable s (m_Proxys (rr_pool s)) ass"
    and env: "threads_ok Z" "zev_child Z \<notin> {zev_session Z, zev_changed Z, zev_deleted Z}"
      "length names < 2 ^ 31"
    and zero: "\<forall>name \<in> set names. terminated Z (world (rr_sys s)) (node name)"
  shows "\<exists>s'. proxy_watcher H Z sp (zev_child Z) (zoo_connected Z) s =
      (if List.map_filter up names = [] then Abrupt (Exit 1) else Ret (), s') \<and>
    (List.map_filter up names \<noteq> [] \<longrightarrow>
       list_all2 (\<lambda>a info. \<exists>c. rr_clients s' a = Some c \<and> fresh_client (m_BusinessID (rr_pool s)) info c)
         (m_Proxys (rr_pool s')) (List.map_filter up names) \<and>
       (\<forall>a \<in> set (m_Proxys (rr_pool s)). rr_clients s' a = None))"
proof -
  from child_event_Init [OF env(2)] obtain msg where
    w: "proxy_watcher H Z sp (zev_child Z) (zoo_connected Z) s = Init H Z sp (m_ProxyPath (rr_pool s)) (with_log (INFO, msg) s)"
    by blast
  have "\<exists>s'. Init H Z sp (m_ProxyPath (rr_pool s)) (with_log (INFO, msg) s) =
      (if List.map_filter up names = [] then Abrupt (Exit 1) else Ret (), s') \<and>
    (List.map_filter up names \<noteq> [] \<longrightarrow> rr_ok s' \<and> proxyIndex (rr_pool s') = proxyIndex (rr_pool s) \<and>
       list_all2 (\<lambda>a info. \<exists>c. rr_clients s' a = Some c \<and> fresh_client (m_BusinessID (rr_pool s)) info c)
         (m_Proxys (rr_pool s')) (List.map_filter up names) \<and>
       (\<forall>a \<in> set (m_Proxys (rr_pool s)). rr_clients s' a = None))"
    using Init_rebuilds [of Z "with_log (INFO, msg) s" "m_ProxyPath (rr_pool s)" node names up ass H sp] assms
    by (simp add: deletable_def)
  then show ?thesis unfolding w by blast
qed

end
