(* ===== verification/Facade_Refinement.thy ===== *)
theory Facade_Refinement
  imports Redis_Refinement Facade_Api Zk_Discovery
begin

text \<open>
  The whole client over redis: the facade with its pool of proxies, a client for each of them, and the connections of
  each client, implements the same specification as one client does. All proxies lead to the same database.
\<close>

section \<open>The relation\<close>

text \<open>The idle connections of a client, and those of the other clients in the list.\<close>

definition conns :: "CodisClient \<Rightarrow> addr set" where
  "conns c = {a. \<exists>p. m_ConnPool c = Some p \<and> Some a \<in> set (unUsed p)}"

definition others :: "'w rr_state \<Rightarrow> addr \<Rightarrow> addr set" where
  "others t a = (\<Union>b \<in> set (m_Proxys (rr_pool t)) - {a}. conns (the (rr_clients t b)))"

text \<open>Every client in the list is in order, idle, and owns its connections alone.\<close>

definition clients_ok :: "string \<Rightarrow> 'w rr_state \<Rightarrow> bool" where
  "clients_ok bid t \<longleftrightarrow>
     (\<forall>a \<in> set (m_Proxys (rr_pool t)). \<exists>c. rr_clients t a = Some c \<and> in_order bid (others t a) 0 (rr_sys t, c))"

definition facade_rel ::
  "'w hiredis \<Rightarrow> ('w \<Rightarrow> 'm) \<Rightarrow> ('m \<Rightarrow> string list \<Rightarrow> redisReply \<times> 'm) \<Rightarrow> ('m \<Rightarrow> db) \<Rightarrow>
   string \<Rightarrow> db \<Rightarrow> nat \<Rightarrow> 'w bfd_state \<Rightarrow> db \<Rightarrow> bool" where
  "facade_rel H st srv db bid rest k s m \<longleftrightarrow>
     m_Pool s \<noteq> None \<and> rr_good k (bfd_rr s) \<and> m_BusinessID (rr_pool (bfd_rr s)) = bid \<and> reliable H st srv \<and> clients_ok bid (bfd_rr s) \<and>
     m = db (st (world (rr_sys (bfd_rr s)))) \<circ> ns_key bid \<and>
     db (st (world (rr_sys (bfd_rr s)))) |` (- range (ns_key bid)) = rest"

section \<open>Lemmas: what the process keeps\<close>

text \<open>Addresses only grow.\<close>

definition below :: "addr \<Rightarrow> 'w sys \<Rightarrow> bool" where
  "below n s \<longleftrightarrow> n \<le> next_addr s"

lemma keeps_below [keeps_intros]:
  "keeps (below n) (LOG l e)" "keeps (below n) (redisConnect H ip prt)" "keeps (below n) (redisFree H p)"
  "keeps (below n) (redisSetTimeout H p tv)" "keeps (below n) (redisCommandArgv H p argv)"
  by (auto simp: keeps_def below_def LOG_def redisConnect_def redisFree_def redisSetTimeout_def redisCommandArgv_def bnd_def
      updst_def load_ctx_def split: option.splits prod.splits)

lemma below_borrow_loop [keeps_intros]: "keeps (on_sys (below n)) (borrow_loop H q)"
  by (induction q) (auto intro!: keeps_intros)

lemma below_pool [keeps_intros]:
  "keeps (on_sys (below n)) (borrowItem H)" "keeps (on_sys (below n)) (returnItem p)"
  "keeps (on_sys (below n)) (Reconnect H p)"
  by (auto simp: borrowItem_def create_def returnItem_def Reconnect_def Destroy_def Let_def split: prod.splits intro!: keeps_intros)

lemma RedisCommand_grows: "keeps (on_sys (below n)) (RedisCommand H command tt)"
  by (auto simp: RedisCommand_def finish_command_def Let_def intro!: keeps_intros split: option.splits)

section \<open>Lemmas: one call\<close>

lemma client_inv_other:
  assumes "client_inv bid B (s, c)" and "conns c \<subseteq> X" and "heap_ok s'" and "X \<subseteq> dom (ctxs s')"
    and "C \<subseteq> dom (ctxs s')" and "C \<inter> conns c = {}"
  shows "client_inv bid C (s', c)"
proof -
  from assms(1) obtain p as where p: "m_BID c = bid" "\<not> rw_writer c" "m_ConnPool c = Some p" "\<not> unUsedMutex p"
    "password p = []" "unUsed p = map Some as" "distinct as"
    by (auto simp: client_inv_def sync_inv_def queue_ok_def)
  then have "conns c = set as" by (auto simp: conns_def)
  with p assms(2-6) show ?thesis by (auto simp: client_inv_def sync_inv_def)
qed

lemma client_inv_conns:
  assumes "client_inv bid B (s, c)"
  shows "conns c \<inter> B = {}" "conns c \<union> B \<subseteq> dom (ctxs s)" "heap_ok s"
  using assms by (auto simp: client_inv_def sync_inv_def queue_ok_def conns_def)

lemma others_self: "a \<in> set (m_Proxys (rr_pool t)) \<Longrightarrow> rr_clients t a = Some c \<Longrightarrow> b \<noteq> a \<Longrightarrow> conns c \<subseteq> others t b"
  by (force simp: others_def)

lemma clients_ok_update:
  assumes ok: "clients_ok bid t" and a: "a \<in> set (m_Proxys (rr_pool t))" and c': "in_order bid (others t a) 0 (s', c')"
    and p: "m_Proxys p' = m_Proxys (rr_pool t)"
  shows "clients_ok bid (t\<lparr>rr_sys := s', rr_clients := (rr_clients t)(a \<mapsto> c'), rr_pool := p'\<rparr>)" (is "clients_ok bid ?t")
proof -
  have inv: "client_inv bid (others t a) (s', c')" using c' by (simp add: in_order_def)
  note h = client_inv_conns [OF inv]
  have "\<exists>c. rr_clients ?t b = Some c \<and> in_order bid (others ?t b) 0 (rr_sys ?t, c)"
    if b: "b \<in> set (m_Proxys (rr_pool t))" for b
  proof (cases "b = a")
    case True
    have "others ?t a = others t a" by (auto simp: others_def p)
    with True c' show ?thesis by simp
  next
    case False
    from ok b obtain c where c: "rr_clients t b = Some c" "in_order bid (others t b) 0 (rr_sys t, c)"
      by (auto simp: clients_ok_def)
    then have i: "client_inv bid (others t b) (rr_sys t, c)" by (simp add: in_order_def)
    have sub: "conns c \<subseteq> others t a" using others_self [OF b c(1)] False by auto
    have o: "others ?t b \<subseteq> conns c' \<union> (others t a \<inter> others t b)" by (auto simp: others_def p split: if_splits)
    have "others ?t b \<subseteq> dom (ctxs s')" using o h by blast
    moreover have "others ?t b \<inter> conns c = {}" using o h sub client_inv_conns(1) [OF i] by blast
    ultimately have "client_inv bid (others ?t b) (s', c)"
      using client_inv_other [OF i sub h(3), of "others ?t b"] h by blast
    with c False show ?thesis by (simp add: in_order_def)
  qed
  then show ?thesis by (auto simp: clients_ok_def p)
qed

text \<open>The specification has values and the exception for oversize values only.\<close>

lemma gives_raises [simp]: "gives x n r m' \<Longrightarrow> no_ub r" "raises n r m' \<Longrightarrow> no_ub r"
  by (auto simp: gives_def raises_def myex_def)

lemmas spec_defs = count_spec_def push_spec_def zremove_spec_def Let_def

lemma redis_spec_no_ub: "redis_spec c m r m' \<Longrightarrow> no_ub r"
proof (cases c)
  case (OnKey x)
  then show "redis_spec c m r m' \<Longrightarrow> no_ub r" by (cases x) auto
next
  case (OnString x)
  then show "redis_spec c m r m' \<Longrightarrow> no_ub r" by (cases x) (auto simp: spec_defs split: if_splits option.splits)
next
  case (OnList x)
  then show "redis_spec c m r m' \<Longrightarrow> no_ub r" by (cases x) (auto simp: spec_defs split: if_splits list.splits)
next
  case (OnSet x)
  then show "redis_spec c m r m' \<Longrightarrow> no_ub r" by (cases x) (auto split: if_splits)
next
  case (OnZset x)
  then show "redis_spec c m r m' \<Longrightarrow> no_ub r" by (cases x) (auto simp: spec_defs split: if_splits)
next
  case (OnHash x)
  then show "redis_spec c m r m' \<Longrightarrow> no_ub r" by (cases x) (auto split: if_splits option.splits)
next
  case (OnCommand x)
  then show "redis_spec c m r m' \<Longrightarrow> no_ub r" by (cases x) auto
qed

lemma specified_synchronous: "specified c \<Longrightarrow> synchronous c"
  by (auto simp: synchronous_def)

text \<open>One call, at the client whose turn it is.\<close>

lemma facade_step:
  assumes srv: "speaks_redis srv db" and c: "specified call"
    and rel: "facade_rel H st srv db bid rest (Suc k) s m" and run: "facade_run H call s = (r, s1)"
  shows "\<exists>m1. redis_spec call m r m1 \<and> facade_rel H st srv db bid rest k s1 m1"
proof -
  let ?t = "bfd_rr s"
  let ?p = "rr_pool ?t"
  let ?a = "m_Proxys ?p ! (rr_pos ?t mod length (m_Proxys ?p))" and ?p' = "?p\<lparr>proxyIndex := proxyIndex ?p + 1\<rparr>"
  have good: "rr_good (Suc k) ?t" and pool: "m_Pool s \<noteq> None" and ok: "clients_ok bid ?t" and R: "reliable H st srv"
    and bid: "m_BusinessID (rr_pool ?t) = bid" using rel by (auto simp: facade_rel_def)
  note get = GetProxy_step [OF good]
  obtain cl where cl: "rr_clients ?t ?a = Some cl" and f: "facade_run H call s = (case client_run H ?a call (rr_sys ?t, cl) of
      (r, (t, c')) \<Rightarrow> (r, s\<lparr>bfd_rr := ?t\<lparr>rr_sys := t, rr_clients := (rr_clients ?t)(?a \<mapsto> c'), rr_pool := ?p'\<rparr>\<rparr>))"
    unfolding facade_is_client by (rule bfd_call_step [OF good pool])
  obtain t c' where one: "client_run H ?a call (rr_sys ?t, cl) = (r, (t, c'))"
    and s1: "s1 = s\<lparr>bfd_rr := ?t\<lparr>rr_sys := t, rr_clients := (rr_clients ?t)(?a \<mapsto> c'), rr_pool := ?p'\<rparr>\<rparr>"
    using f run by (auto split: prod.splits)
  have io: "in_order bid (others ?t ?a) 0 (rr_sys ?t, cl)" using ok get(3) cl by (auto simp: clients_ok_def)
  then have "db_rel H st srv db bid (others ?t ?a) rest (rr_sys ?t, cl) m"
    using rel by (simp add: db_rel_def facade_rel_def serving_def in_order_def)
  from implementsD [OF implements_client_call [OF srv c], OF this one] obtain m1 where
    m1: "redis_spec call m r m1" "db_rel H st srv db bid (others ?t ?a) rest (t, c') m1" by blast
  have keep: "I (t, c')" if "keeps I (client_run H ?a call)" and "I (rr_sys ?t, cl)" for I
    by (rule keepsD [OF that one redis_spec_no_ub [OF m1(1)]])
  note sync = specified_synchronous [OF c]
  have "on_sys (below (next_addr (rr_sys ?t))) (t, c')"
    by (rule keep [OF keeps_client_call [OF RedisCommand_grows sync]]) (simp add: on_sys_def below_def)
  then have grow: "next_addr (rr_sys ?t) \<le> next_addr t" by (simp add: on_sys_def below_def)
  have "in_order bid (others ?t ?a) 0 (t, c')" by (rule keep [OF keeps_client_run [OF sync] io])
  then have "clients_ok bid (bfd_rr s1)" unfolding s1 using clients_ok_update [OF ok get(3), where p' = ?p'] by simp
  moreover have "rr_good k (bfd_rr s1)"
    using good get(2,3) cl grow unfolding s1 by (auto simp: rr_good_def rr_ok_def)
  ultimately show ?thesis using m1 pool R bid unfolding s1 by (auto simp: facade_rel_def db_rel_def)
qed

section \<open>The facade as a service\<close>

interpretation facade: redis_service "facade_run H"
    "\<lambda>k s m. speaks_redis srv db \<and> facade_rel H st srv db bid rest k s m"
  for H :: "'w hiredis" and st :: "'w \<Rightarrow> 'm" and srv and db and bid and rest
proof
  fix k c r and s s' :: "'w bfd_state" and m
  assume "speaks_redis srv db \<and> facade_rel H st srv db bid rest (Suc k) s m" and "specified c"
    and "facade_run H c s = (r, s')"
  then show "\<exists>m'. redis_spec c m r m' \<and> speaks_redis srv db \<and> facade_rel H st srv db bid rest k s' m'"
    using facade_step by blast
qed (auto simp: facade_rel_def rr_good_def)

section \<open>Lemmas: ZooKeeper stays apart from the database\<close>

text \<open>Nothing that the pool of proxies asks of ZooKeeper or of the system touches the server.\<close>

definition stays_apart :: "('w, 'j) zk_env \<Rightarrow> ('w \<Rightarrow> 'm) \<Rightarrow> bool" where
  "stays_apart Z st \<longleftrightarrow> (\<forall>w. (\<forall>a. st (snd (zk_init Z a w)) = st w) \<and> (\<forall>h. st (snd (zk_state Z h w)) = st w) \<and>
     (\<forall>h. st (zk_close Z h w) = st w) \<and> (\<forall>h p. st (snd (zk_children Z h p w)) = st w) \<and>
     (\<forall>h p. st (snd (zk_get Z h p w)) = st w) \<and> st (snd (os_loop Z w)) = st w \<and> st (snd (os_thread Z w)) = st w)"

definition same_db :: "('w \<Rightarrow> 'm) \<Rightarrow> 'm \<Rightarrow> 'w sys \<Rightarrow> bool" where
  "same_db st x s \<longleftrightarrow> heap_ok s \<and> st (world s) = x"

definition pool_keeps :: "string \<Rightarrow> ('w \<Rightarrow> 'm) \<Rightarrow> 'm \<Rightarrow> 'w rr_state \<Rightarrow> bool" where
  "pool_keeps bid st x t \<longleftrightarrow> same_db st x (rr_sys t) \<and> m_BusinessID (rr_pool t) = bid"

lemma same_db_LOG [keeps_intros]: "keeps (same_db st x) (LOG l e)"
  by (simp add: keeps_def same_db_def env_simps)

lemma same_db_free: "reliable H st srv \<Longrightarrow> keeps (same_db st x) (redisFree H p)"
  by (auto simp: keeps_def same_db_def redisFree_def load_ctx_def bnd_def updst_def reliable_def heap_ok_def
      split: option.splits)

lemma keeps_rsys [keeps_intros]: "keeps (same_db st x) m \<Longrightarrow> keeps (pool_keeps bid st x) (rsys m)"
  by (auto simp: keeps_def pool_keeps_def rsys_apply split: prod.splits)

lemma keeps_rworld [keeps_intros]: "(\<And>w. st (snd (f w)) = st w) \<Longrightarrow> keeps (pool_keeps bid st x) (rworld f)"
proof -
  assume f: "\<And>w. st (snd (f w)) = st w"
  have "st w' = st w" if "f w = (y, w')" for w y w' using f [of w] that by simp
  then show ?thesis by (auto simp: keeps_def pool_keeps_def same_db_def rworld_apply split: prod.splits)
qed

lemma keeps_getrr [keeps_intros]: "keeps (pool_keeps bid st x) (getrr g)" "keeps (pool_keeps bid st x) (getst h)"
  by (simp_all add: keeps_def getrr_apply getst_def)

lemma keeps_updrr [keeps_intros]:
  "(\<And>p. m_BusinessID (h p) = m_BusinessID p) \<Longrightarrow> keeps (pool_keeps bid st x) (updrr h)"
  by (simp add: keeps_def pool_keeps_def updrr_apply)

lemma keeps_lock_rr [keeps_intros]: "keeps (pool_keeps bid st x) m \<Longrightarrow> keeps (pool_keeps bid st x) (lock_rr m)"
proof -
  assume m: "keeps (pool_keeps bid st x) m"
  have lock: "pool_keeps bid st x (s\<lparr>rr_pool := (rr_pool s)\<lparr>m_Mutex := b\<rparr>\<rparr>) = pool_keeps bid st x s" for s b
    by (simp add: pool_keeps_def)
  show ?thesis
    unfolding keeps_def
  proof (intro allI impI, elim conjE)
    fix s r s'
    assume I: "pool_keeps bid st x s" and run: "lock_rr m s = (r, s')" and u: "no_ub r"
    show "pool_keeps bid st x s'"
    proof (cases "m_Mutex (rr_pool s)")
      case True
      with I run show ?thesis by (simp add: lock_rr_apply)
    next
      case False
      obtain t where "m (s\<lparr>rr_pool := (rr_pool s)\<lparr>m_Mutex := True\<rparr>\<rparr>) = (r, t)" "s' = t\<lparr>rr_pool := (rr_pool t)\<lparr>m_Mutex := False\<rparr>\<rparr>"
        using run False by (auto simp: lock_rr_apply split: prod.splits)
      with keepsD [OF m _ this(1) u] I show ?thesis by (simp add: lock)
    qed
  qed
qed

lemma keeps_onclient [keeps_intros]:
  assumes "keeps (on_sys (same_db st x)) m"
  shows "keeps (pool_keeps bid st x) (onclient a m)"
  unfolding keeps_def
proof (intro allI impI, elim conjE)
  fix s r s'
  assume I: "pool_keeps bid st x s" and run: "onclient a m s = (r, s')" and u: "no_ub r"
  show "pool_keeps bid st x s'"
  proof (cases "rr_clients s a")
    case None
    with I run show ?thesis by (simp add: onclient_def)
  next
    case (Some c)
    obtain t c' where m: "m (rr_sys s, c) = (r, (t, c'))" and s': "rr_sys s' = t" "rr_pool s' = rr_pool s"
      using run Some by (auto simp: onclient_def split: prod.splits)
    from keepsD [OF assms _ m u] I s' show ?thesis by (simp add: pool_keeps_def on_sys_def)
  qed
qed

lemma keeps_js_and [keeps_intros]: "keeps I (js_and b c)"
  by (auto simp: keeps_def js_and_def split: outcome.splits)

lemma keeps_new_proxy [keeps_intros]:
  assumes "stays_apart Z st"
  shows "keeps (pool_keeps bid st x) (new_proxy Z info)"
proof -
  have new: "keeps (pool_keeps bid st x) (\<lambda>s. let a = next_addr (rr_sys s) in
      (Ret a, s\<lparr>rr_sys := (rr_sys s)\<lparr>next_addr := Suc a\<rparr>, rr_clients := (rr_clients s)(a \<mapsto> c)\<rparr>))" for c
    by (auto simp: keeps_def pool_keeps_def same_db_def heap_ok_def Let_def)
  from assms show ?thesis unfolding new_proxy_def CodisClient_new_def
    by (auto simp: stays_apart_def intro!: keeps_intros new)
qed

lemma keeps_delete_proxy [keeps_intros]:
  assumes "reliable H st srv"
  shows "keeps (pool_keeps bid st x) (delete_proxy H a)"
proof -
  have gone: "keeps (pool_keeps bid st x) (updst (\<lambda>s. s\<lparr>rr_clients := (rr_clients s)(a := None)\<rparr>))"
    by (simp add: keeps_def pool_keeps_def updst_def)
  show ?thesis
    unfolding delete_proxy_def CodisClient_delete_def RedisClientPool_delete_def
    by (auto simp: Destroy_def intro!: keeps_intros gone same_db_free [OF assms])
qed

lemma keeps_InitProxyConns [keeps_intros]:
  "stays_apart Z st \<Longrightarrow> reliable H st srv \<Longrightarrow> keeps (pool_keeps bid st x) (InitProxyConns H Z infos)"
  unfolding InitProxyConns_def by (auto intro!: keeps_intros)

lemma keeps_GetProxyInfos [keeps_intros]:
  assumes "stays_apart Z st"
  shows "keeps (pool_keeps bid st x) (GetProxyInfos Z sp zh dir)"
proof -
  have info: "keeps (pool_keeps bid st x) (proxy_info Z sp zh dir name)" for name
    using assms unfolding proxy_info_def ZkGet_def Let_def
    by (auto simp: stays_apart_def Let_def split: option.splits prod.splits intro!: keeps_intros)
  from assms show ?thesis unfolding GetProxyInfos_def
    by (auto simp: stays_apart_def split: prod.splits intro!: keeps_intros info)
qed

lemma keeps_Init [keeps_intros]:
  "stays_apart Z st \<Longrightarrow> reliable H st srv \<Longrightarrow> keeps (pool_keeps bid st x) (Init H Z sp dir)"
  unfolding Init_def by (auto intro!: keeps_intros)

lemma keeps_zk_wait [keeps_intros]: "stays_apart Z st \<Longrightarrow> keeps (pool_keeps bid st x) (zk_wait Z zh n)"
  by (induction n) (auto simp: stays_apart_def intro!: keeps_intros)

lemma keeps_zk_connect [keeps_intros]:
  "stays_apart Z st \<Longrightarrow> reliable H st srv \<Longrightarrow> keeps (pool_keeps bid st x) (zk_connect H Z sp)"
  unfolding zk_connect_def
  by (auto simp: stays_apart_def split: prod.splits intro!: keeps_intros simp del: zk_wait.simps)

text \<open>The whole watcher, whatever the event.\<close>

lemma keeps_proxy_watcher:
  "stays_apart Z st \<Longrightarrow> reliable H st srv \<Longrightarrow> keeps (pool_keeps bid st x) (proxy_watcher H Z sp event state)"
  unfolding proxy_watcher_def zk_reconnect_def
  by (auto simp: stays_apart_def intro!: keeps_intros)

section \<open>Lemmas: a refresh of the list\<close>

lemma in_order_idle:
  assumes "in_order bid B 0 (s, c)"
  shows "\<exists>as. idle_client c as \<and> distinct as \<and> set as = conns c \<and> set as \<subseteq> dom (ctxs s) \<and> set as \<inter> B = {}"
  using assms by (fastforce simp: in_order_def client_inv_def sync_inv_def queue_ok_def idle_client_def conns_def)

lemma clients_ok_deletable:
  assumes ok: "clients_ok bid t" and d: "distinct (m_Proxys (rr_pool t))"
  shows "\<exists>ass. deletable t (m_Proxys (rr_pool t)) ass"
proof -
  let ?ps = "m_Proxys (rr_pool t)"
  have "\<forall>a \<in> set ?ps. \<exists>as c. rr_clients t a = Some c \<and> idle_client c as \<and> distinct as \<and> set as = conns c \<and>
      set as \<subseteq> dom (ctxs (rr_sys t)) \<and> set as \<inter> others t a = {}"
    using ok in_order_idle unfolding clients_ok_def by metis
  then obtain f where f: "\<And>a. a \<in> set ?ps \<Longrightarrow> \<exists>c. rr_clients t a = Some c \<and> idle_client c (f a) \<and> distinct (f a) \<and>
      set (f a) = conns c \<and> set (f a) \<subseteq> dom (ctxs (rr_sys t)) \<and> set (f a) \<inter> others t a = {}" by metis
  have "set (f a) \<inter> set (f b) = {}" if "a \<in> set ?ps" "b \<in> set ?ps" "a \<noteq> b" for a b
    using f [OF that(1)] f [OF that(2)] others_self [OF that(2)] that(3) by blast
  then have "distinct (concat (map f ?ps))" using d f by (intro distinct_concat_map) auto
  moreover have "list_all2 (\<lambda>a as. \<exists>c. rr_clients t a = Some c \<and> idle_client c as) ?ps (map f ?ps)"
    by (simp add: list_all2_map2 list_all2_same) (use f in blast)
  ultimately have "deletable t ?ps (map f ?ps)" using d f by (fastforce simp: deletable_def)
  then show ?thesis ..
qed

text \<open>New clients have no connections yet.\<close>

lemma fresh_in_order:
  assumes "fresh_client bid info c" and "heap_ok s"
  shows "in_order bid {} 0 (s, c)" "conns c = {}"
  using assms by (auto simp: fresh_client_def in_order_def client_inv_def sync_inv_def queue_ok_Nil conns_def
      RedisClientPool_default_def RedisClientPool_new_def)

lemma fresh_clients_ok:
  assumes "list_all2 (\<lambda>a info. \<exists>c. rr_clients t a = Some c \<and> fresh_client bid info c) (m_Proxys (rr_pool t)) infos"
    and "heap_ok (rr_sys t)"
  shows "clients_ok bid t"
proof -
  have f: "\<exists>c info. rr_clients t a = Some c \<and> fresh_client bid info c" if a: "a \<in> set (m_Proxys (rr_pool t))" for a
  proof -
    from a obtain i where "i < length (m_Proxys (rr_pool t))" "a = m_Proxys (rr_pool t) ! i" by (auto simp: in_set_conv_nth)
    with list_all2_nthD [OF assms(1) this(1)] show ?thesis by blast
  qed
  with fresh_in_order(2) [OF _ assms(2)] have "others t a = {}" for a by (fastforce simp: others_def)
  with f fresh_in_order(1) [OF _ assms(2)] show ?thesis by (fastforce simp: clients_ok_def)
qed

lemma rebuilt_serves:
  assumes "rr_ok t" and "sint (proxyIndex (rr_pool t)) + int k < 2 ^ 31" and "pool_keeps bid st x t" and "reliable H st srv"
    and "list_all2 (\<lambda>a info. \<exists>c. rr_clients t a = Some c \<and> fresh_client bid info c) (m_Proxys (rr_pool t)) infos"
    and "p \<noteq> None"
  shows "facade_rel H st srv db bid (db x |` (- range (ns_key bid))) k \<lparr>m_Pool = p, bfd_rr = t\<rparr> (db x \<circ> ns_key bid)"
  using assms fresh_clients_ok [OF assms(5)]
  by (simp add: facade_rel_def rr_good_def pool_keeps_def same_db_def)

text \<open>The database is the same after the list was refreshed.\<close>

lemma refresh_serves:
  assumes rel: "facade_rel H st srv db bid rest k s m" and apart: "stays_apart Z st"
    and steady: "steady Z (m_Zh (rr_pool (bfd_rr s))) (m_ProxyPath (rr_pool (bfd_rr s))) node"
    and children: "\<And>w. zk_children Z (m_Zh (rr_pool (bfd_rr s))) (c_str (m_ProxyPath (rr_pool (bfd_rr s)))) w = ((ZOK, names), w)"
    and nodes: "\<And>name. name \<in> set names \<Longrightarrow> case up name of Some info \<Rightarrow> online_node Z (node name) info
             | None \<Rightarrow> offline_node Z (node name)"
    and env: "threads_ok Z" "zev_child Z \<notin> {zev_session Z, zev_changed Z, zev_deleted Z}" "length names < 2 ^ 31"
    and some: "List.map_filter up names \<noteq> []"
    and zero: "\<forall>name \<in> set names. terminated Z (world (rr_sys (bfd_rr s))) (node name)"
  shows "\<exists>t. proxy_watcher H Z sp (zev_child Z) (zoo_connected Z) (bfd_rr s) = (Ret (), t) \<and>
    facade_rel H st srv db bid rest k (s\<lparr>bfd_rr := t\<rparr>) m"
proof -
  let ?t = "bfd_rr s" and ?x = "st (world (rr_sys (bfd_rr s)))"
  have ok: "rr_good k ?t" "clients_ok bid ?t" "reliable H st srv" "m_Pool s \<noteq> None"
    and bid: "m_BusinessID (rr_pool ?t) = bid" using rel by (auto simp: facade_rel_def)
  then have rr: "rr_ok ?t" "m_Proxys (rr_pool ?t) \<noteq> []" by (auto simp: rr_good_def rr_ok_def)
  then obtain a where "a \<in> set (m_Proxys (rr_pool ?t))" by (cases "m_Proxys (rr_pool ?t)") auto
  with ok(2) have "heap_ok (rr_sys ?t)"
    by (auto simp: clients_ok_def in_order_def client_inv_def sync_inv_def)
  then have keep: "pool_keeps bid st ?x ?t" using bid by (simp add: pool_keeps_def same_db_def)
  from clients_ok_deletable [OF ok(2)] rr obtain ass where "deletable ?t (m_Proxys (rr_pool ?t)) ass"
    by (auto simp: rr_ok_def)
  moreover from child_event_Init [OF env(2)] obtain msg where
    w: "proxy_watcher H Z sp (zev_child Z) (zoo_connected Z) ?t = Init H Z sp (m_ProxyPath (rr_pool ?t)) (with_log (INFO, msg) ?t)"
    by blast
  ultimately obtain t where i: "Init H Z sp (m_ProxyPath (rr_pool ?t)) (with_log (INFO, msg) ?t) = (Ret (), t)"
    and t: "rr_ok t" "proxyIndex (rr_pool t) = proxyIndex (rr_pool ?t)"
      "list_all2 (\<lambda>a info. \<exists>c. rr_clients t a = Some c \<and> fresh_client bid info c) (m_Proxys (rr_pool t)) (List.map_filter up names)"
    using Init_rebuilds [of Z "with_log (INFO, msg) ?t" "m_ProxyPath (rr_pool ?t)" node names up ass H sp] rr(1)
      steady children nodes env some bid zero by (auto simp: deletable_def rr_ok_def)
  have "pool_keeps bid st ?x t"
    by (rule keepsD [OF keeps_proxy_watcher [OF apart ok(3)] keep w [unfolded i]]) simp
  from rebuilt_serves [OF t(1) _ this ok(3) t(3) ok(4), of k db] t(2) ok(1)
  have "facade_rel H st srv db bid (db ?x |` (- range (ns_key bid))) k (s\<lparr>bfd_rr := t\<rparr>) (db ?x \<circ> ns_key bid)"
    by (cases s) (simp add: rr_good_def facade_rel_def)
  with w i rel show ?thesis by (auto simp: facade_rel_def)
qed

text \<open>Unless a node is read past the end of its buffer.\<close>

lemma refresh_over:
  assumes "steady Z (m_Zh (rr_pool s)) (m_ProxyPath (rr_pool s)) node"
    and "\<And>w. zk_children Z (m_Zh (rr_pool s)) (c_str (m_ProxyPath (rr_pool s))) w = ((ZOK, names), w)"
    and "\<And>name. name \<in> set names \<Longrightarrow> case up name of Some info \<Rightarrow> online_node Z (node name) info
             | None \<Rightarrow> offline_node Z (node name)"
    and "zev_child Z \<notin> {zev_session Z, zev_changed Z, zev_deleted Z}"
    and "\<not> (\<forall>name \<in> set names. terminated Z (world (rr_sys s)) (node name))"
  shows "\<exists>t. proxy_watcher H Z sp (zev_child Z) (zoo_connected Z) s = (Abrupt (Undef OutOfBounds), t)"
proof -
  from child_event_Init [OF assms(4)] obtain msg where
    "proxy_watcher H Z sp (zev_child Z) (zoo_connected Z) s = Init H Z sp (m_ProxyPath (rr_pool s)) (with_log (INFO, msg) s)"
    by blast
  then show ?thesis
    using Init_over [of Z "with_log (INFO, msg) s" "m_ProxyPath (rr_pool s)" node names up H sp] assms by auto
qed

section \<open>Lemmas: startup\<close>

text \<open>The facade made over a ZooKeeper that connects and knows a proxy that is online.\<close>

lemma startup_serves:
  fixes s :: "'w bfd_state" and st :: "'w \<Rightarrow> 'm"
  defines "x \<equiv> st (world (rr_sys (bfd_rr s)))"
  assumes lib: "reliable H st srv" and apart: "stays_apart Z st" and heap: "heap_ok (rr_sys (bfd_rr s))"
      "dom (rr_clients (bfd_rr s)) \<subseteq> {..<next_addr (rr_sys (bfd_rr s))}"
    and connects: "zk_init Z (c_str zaddr) (world (rr_sys (bfd_rr s))) = (zh, w)"
      "k < 10000" "state_at Z zh k w = zoo_connected Z" "\<forall>j < k. state_at Z zh j w \<noteq> zoo_connected Z"
    and steady: "steady Z zh dir node" and children: "\<And>w. zk_children Z zh (c_str dir) w = ((ZOK, names), w)"
    and nodes: "\<And>name. name \<in> set names \<Longrightarrow> case up name of Some info \<Rightarrow> online_node Z (node name) info
             | None \<Rightarrow> offline_node Z (node name)"
    and env: "threads_ok Z" "length names < 2 ^ 31" and some: "List.map_filter up names \<noteq> []"
    and zero: "\<forall>name \<in> set names. terminated Z (polled Z zh (Suc k) w) (node name)"
  shows "\<exists>s'. BfdCodis_new H Z sp a zaddr dir bid s = (Ret (), s') \<and>
    facade_rel H st srv db bid (db x |` (- range (ns_key bid))) (2 ^ 31) s' (db x \<circ> ns_key bid)"
proof -
  let ?p = "\<lparr>m_Proxys = [], proxyIndex = - 1, m_ProxyInfos = [], m_Zh = None, m_ZookeeperAddr = zaddr,
    m_ProxyPath = dir, m_BusinessID = bid, m_Mutex = False\<rparr>"
  let ?t = "(bfd_rr s)\<lparr>rr_pool := ?p\<rparr>"
  let ?u = "with_world (polled Z zh (Suc k) w) (?t\<lparr>rr_pool := ?p\<lparr>m_Zh := zh\<rparr>\<rparr>)"
  have c: "zk_connect H Z sp ?t = Init H Z sp dir ?u"
    using zk_connect_at [of Z ?t, OF _ connects(2-4), of H sp] connects(1) by (simp del: polled.simps)
  have "deletable ?u (m_Proxys (rr_pool ?u)) []" by (simp add: deletable_def)
  then obtain t where i: "Init H Z sp dir ?u = (Ret (), t)" and t: "rr_ok t" "proxyIndex (rr_pool t) = - 1"
      "list_all2 (\<lambda>a info. \<exists>c. rr_clients t a = Some c \<and> fresh_client bid info c) (m_Proxys (rr_pool t)) (List.map_filter up names)"
    using Init_rebuilds [of Z ?u dir node names up "[]" H sp] steady children nodes env some heap(2) zero
    by (auto simp: with_world_def simp del: polled.simps)
  have "pool_keeps bid st x ?t" using heap(1) by (simp add: pool_keeps_def same_db_def x_def)
  from keepsD [OF keeps_zk_connect [OF apart lib] this c [unfolded i]] have "pool_keeps bid st x t" by simp
  from rebuilt_serves [OF t(1) _ this lib t(3), of "2 ^ 31" "Some a" db] t(2)
  have "facade_rel H st srv db bid (db x |` (- range (ns_key bid))) (2 ^ 31) \<lparr>m_Pool = Some a, bfd_rr = t\<rparr> (db x \<circ> ns_key bid)"
    by simp
  moreover have "BfdCodis_new H Z sp a zaddr dir bid s = (Ret (), \<lparr>m_Pool = Some a, bfd_rr = t\<rparr>)"
    using c i by (cases s) (simp add: BfdCodis_new_def RoundRobinCodisPool_new_def rr_simps prog_simps bnd_def)
  ultimately show ?thesis by blast
qed

lemma startup_over:
  assumes "zk_init Z (c_str zaddr) (world (rr_sys (bfd_rr s))) = (zh, w)"
      "k < 10000" "state_at Z zh k w = zoo_connected Z" "\<forall>j < k. state_at Z zh j w \<noteq> zoo_connected Z"
    and "steady Z zh dir node" and "\<And>w. zk_children Z zh (c_str dir) w = ((ZOK, names), w)"
    and "\<And>name. name \<in> set names \<Longrightarrow> case up name of Some info \<Rightarrow> online_node Z (node name) info
             | None \<Rightarrow> offline_node Z (node name)"
    and "\<not> (\<forall>name \<in> set names. terminated Z (polled Z zh (Suc k) w) (node name))"
  shows "\<exists>s'. BfdCodis_new H Z sp a zaddr dir bid s = (Abrupt (Undef OutOfBounds), s')"
proof -
  let ?p = "\<lparr>m_Proxys = [], proxyIndex = - 1, m_ProxyInfos = [], m_Zh = None, m_ZookeeperAddr = zaddr,
    m_ProxyPath = dir, m_BusinessID = bid, m_Mutex = False\<rparr>"
  let ?t = "(bfd_rr s)\<lparr>rr_pool := ?p\<rparr>"
  let ?u = "with_world (polled Z zh (Suc k) w) (?t\<lparr>rr_pool := ?p\<lparr>m_Zh := zh\<rparr>\<rparr>)"
  have c: "zk_connect H Z sp ?t = Init H Z sp dir ?u"
    using zk_connect_at [of Z ?t, OF _ assms(2-4), of H sp] assms(1) by (simp del: polled.simps)
  have "\<exists>name \<in> set names. \<not> terminated Z (world (rr_sys ?u)) (node name)" using assms(8) by (simp del: polled.simps)
  from Init_over [of Z ?u dir node names up, OF _ _ assms(7) this, of H sp] assms(5,6) obtain t where
    "Init H Z sp dir ?u = (Abrupt (Undef OutOfBounds), t)" by (auto simp del: polled.simps)
  with c show ?thesis
    by (cases s) (simp add: BfdCodis_new_def RoundRobinCodisPool_new_def rr_simps prog_simps bnd_def)
qed

end
