(* ===== verification/Test_Suite.thy ===== *)
theory Test_Suite
  imports Redis_Server Facade_Refinement
begin

text \<open>
  The tests of the repository (\<open>cpp/test/CodisClientTest.cpp\<close>): each test calls the client and checks the values. All
  of them use one client, in the order of the file, and build on what the tests before them left. Left out are
  \<open>mget2\<close>, which is asynchronous, \<open>codis\<close>, which prints only, and \<open>zrangebyscore\<close>, which hands numbers to a method that
  takes strings and does not compile. Strings are compared as a whole here, where \<open>EXPECT_STREQ\<close> stops at a zero byte.
\<close>

section \<open>The tests\<close>

text \<open>A call and the expectation on its value; \<open>ignored\<close> where the test drops the value.\<close>

type_synonym check = "client_call \<times> (api_value \<Rightarrow> bool)"

definition ignored :: "api_value \<Rightarrow> bool" where
  "ignored v = True"

definition expect :: "api_value \<Rightarrow> api_value \<Rightarrow> bool" where
  "expect x v = (v = x)"

definition expect_size :: "nat \<Rightarrow> api_value \<Rightarrow> bool" where
  "expect_size n v = (case v of Strs_v xs \<Rightarrow> length xs = n | _ \<Rightarrow> False)"

definition expect_str :: "string \<Rightarrow> api_value \<Rightarrow> bool" where
  "expect_str s v = (case v of Reply_v r \<Rightarrow> rep_str r = s | Replies_v rs \<Rightarrow> map rep_str rs = [s] | _ \<Rightarrow> False)"

definition command_tests :: "check list" where
  "command_tests =
     [(OnCommand (call_RedisCommand [''set'', ''kk'', ''vv''] 0), expect_str ''OK''),
      (OnCommand (call_RedisCommand_cmd (Command_calls (Command_new ''SET'') [''kk'', ''vv'']) 0), expect_str ''OK''),
      (OnCommand (call_RedisCommand [''get'', ''kk''] 0), expect_str ''vv''),
      (OnCommand (call_RedisCommands [Command_calls (Command_new ''get'') [''kk'']]), expect_str ''vv''),
      (OnCommand (call_RedisCommand_cmd (Command_calls (Command_new ''GET'') [''kk'']) 0), expect_str ''vv'')]"

definition key_tests :: "check list" where
  "key_tests =
     [(OnKey (call_type ''kk'' 0), expect (Str_v ''string'')),
      (OnKey (call_expire ''kk'' 100 0), expect (Bool_v True)),
      (OnKey (call_del ''kk'' 0), expect (Int_v 1))]"

text \<open>The maps and vectors that the loops of \<open>mset\<close> and \<open>mget\<close> build.\<close>

definition test_keys :: "string list" where
  "test_keys = map (\<lambda>i. ''aa'' @ int2string i) [1, 2, 3, 4]"

definition test_values :: "string list" where
  "test_values = map (\<lambda>i. ''bb'' @ int2string i) [1, 2, 3, 4]"

definition string_tests :: "check list" where
  "string_tests =
     [(OnString (call_set ''kk'' ''vv'' 0), expect (Bool_v True)),
      (OnString (call_setnx ''kk'' ''vv'' 0), expect (Bool_v False)),
      (OnKey (call_del ''aaa'' 0), ignored),
      (OnString (call_setnx ''aaa'' ''bbb'' 0), expect (Bool_v True)),
      (OnKey (call_del ''aaa'' 0), ignored),
      (OnString (call_setex ''aaa'' ''bbb'' 100 0), expect (Bool_v True)),
      (OnString (call_get ''kk'' 0), expect (Str_v ''vv'')),
      (OnString (call_getset ''kk'' ''vvv'' 0), expect (Str_v ''vv'')),
      (OnString (call_mset (zip test_keys test_values) 0), expect (Bool_v True)),
      (OnString (call_mget test_keys 0), expect (Strs_v test_values)),
      (OnKey (call_exists ''kk'' 0), expect (Bool_v True))]"

definition number_tests :: "check list" where
  "number_tests =
     [(OnKey (call_del ''num'' 0), ignored),
      (OnString (call_incr ''num'' 0), expect (Int_v 1)),
      (OnString (call_decr ''num'' 0), expect (Int_v 0)),
      (OnString (call_incrby ''num'' 1 0), expect (Int_v 1)),
      (OnString (call_decrby ''num'' 1 0), expect (Int_v 0)),
      (OnString (call_append ''kk'' ''vv'' 0), expect (Long_v 5))]"

definition list_tests :: "check list" where
  "list_tests =
     [(OnKey (call_del ''list'' 0), ignored),
      (OnList (call_lpush ''list'' ''lv'' 0), expect (Int_v 1)),
      (OnList (call_rpush ''list'' ''rv'' 0), expect (Int_v 2)),
      (OnList (call_llen ''list'' 0), expect (Int_v 2)),
      (OnList (call_lrange ''list'' 0 1 0), expect (Strs_v [''lv'', ''rv''])),
      (OnList (call_ltrim ''list'' 0 1 0), expect (Bool_v True)),
      (OnList (call_lset ''list'' 0 ''lv'' 0), expect (Bool_v True)),
      (OnList (call_lrem ''list'' 1 ''lv'' 0), expect (Bool_v True)),
      (OnList (call_lpop ''list'' 0), expect (Str_v ''rv'')),
      (OnList (call_lpush ''list'' ''rv'' 0), ignored),
      (OnList (call_rpop ''list'' 0), expect (Str_v ''rv''))]"

definition set_tests :: "check list" where
  "set_tests =
     [(OnSet (call_srem ''sadd'' ''saddv'' 0), ignored),
      (OnSet (call_sadd ''sadd'' ''saddv'' 0), expect (Bool_v True)),
      (OnSet (call_srem ''sadd'' ''saddv'' 0), expect (Bool_v True)),
      (OnSet (call_sadd ''sadd'' ''saddv'' 0), ignored),
      (OnSet (call_spop ''sadd'' 0), expect (Str_v ''saddv'')),
      (OnSet (call_sadd ''sadd'' ''saddv'' 0), ignored),
      (OnSet (call_srandmember ''sadd'' 0), expect (Str_v ''saddv'')),
      (OnSet (call_scard ''sadd'' 0), expect (Int_v 1)),
      (OnSet (call_sismember ''sadd'' ''saddv'' 0), expect (Bool_v True)),
      (OnSet (call_smembers ''sadd'' 0), expect (Strs_v [''saddv'']))]"

definition zset_tests :: "check list" where
  "zset_tests =
     [(OnZset (call_zrem ''zadd'' ''zaddv'' 0), ignored),
      (OnZset (call_zadd ''zadd'' 1 ''zaddv'' 0), expect (Bool_v True)),
      (OnZset (call_zrem ''zadd'' ''zaddv'' 0), expect (Bool_v True)),
      (OnZset (call_zadd ''zadd'' 1 ''zaddv'' 0), ignored),
      (OnZset (call_zincrby ''zadd'' 2 ''zaddv'' 0), expect (Int_v 3)),
      (OnZset (call_zadd ''zadd'' 2 ''zaddv2'' 0), ignored),
      (OnZset (call_zrank ''zadd'' ''zaddv2'' 0), expect (Int_v 0)),
      (OnZset (call_zrevrank ''zadd'' ''zaddv2'' 0), expect (Int_v 1)),
      (OnZset (call_zrange ''zadd'' 0 1 default_withscores 0), expect_size 2),
      (OnZset (call_zrevrange ''zadd'' 0 1 default_withscores 0), expect_size 2),
      (OnZset (call_zcount ''zadd'' 2 3 0), expect (Int_v 2)),
      (OnZset (call_zcard ''zadd'' 0), expect (Int_v 2)),
      (OnZset (call_zscore ''zadd'' ''zaddv2'' 0), expect (Int_v 2)),
      (OnZset (call_zremrangebyrank ''zadd'' 0 1 0), expect (Int_v 2)),
      (OnZset (call_zadd ''zadd'' 2 ''zaddv2'' 0), ignored),
      (OnZset (call_zadd ''zadd'' 3 ''zaddv3'' 0), ignored),
      (OnZset (call_zremrangebyscore ''zadd'' 2 3 0), expect (Int_v 2))]"

definition hash_tests :: "check list" where
  "hash_tests =
     [(OnHash (call_hset ''hset'' ''field1'' ''value1'' 0), expect (Bool_v True)),
      (OnHash (call_hget ''hset'' ''field1'' 0), expect (Str_v ''value1'')),
      (OnHash (call_hmget ''hset'' [''field1''] 0), expect (Strs_v [''value1''])),
      (OnHash (call_hset ''hset'' ''field2'' ''11'' 0), ignored),
      (OnHash (call_hincrby ''hset'' ''field2'' 2 0), expect (Int_v 13)),
      (OnHash (call_hexists ''hset'' ''field1'' 0), expect (Bool_v True)),
      (OnHash (call_hdel ''hset'' ''field1'' 0), expect (Bool_v True)),
      (OnHash (call_hlen ''hset'' 0), expect (Int_v 1)),
      (OnHash (call_hkeys ''hset'' 0), expect (Strs_v [''field2''])),
      (OnHash (call_hvals ''hset'' 0), expect (Strs_v [''13''])),
      (OnHash (call_hgetall ''hset'' [] [] 0), expect (Pairs_v (True, [''field2''], [''13''])))]"

definition test_suite :: "check list" where
  "test_suite = command_tests @ key_tests @ string_tests @ number_tests @ list_tests @ set_tests @ zset_tests @ hash_tests"

section \<open>Passing\<close>

text \<open>The calls ran to the end and every expectation holds.\<close>

definition passes :: "check list \<Rightarrow> api_value list outcome \<Rightarrow> bool" where
  "passes tests out = (case out of Ret vs \<Rightarrow> list_all2 (\<lambda>(c, e) v. e v) tests vs | Abrupt e \<Rightarrow> False)"

section \<open>Lemmas: one check after the other\<close>

definition runs :: "check list \<Rightarrow> db \<Rightarrow> (db \<Rightarrow> bool) \<Rightarrow> bool" where
  "runs tests m Q \<longleftrightarrow> (\<forall>out m'. in_turn redis_spec (map fst tests) m out m' \<longrightarrow> passes tests out \<and> Q m')"

lemma runs_Nil: "Q m \<Longrightarrow> runs [] m Q"
  by (simp add: runs_def passes_def)

lemma runs_Cons:
  assumes "\<And>out m'. redis_spec c m out m' \<Longrightarrow> \<exists>v. out = Ret v \<and> e v \<and> runs tests m' Q"
  shows "runs ((c, e) # tests) m Q"
  unfolding runs_def
proof (intro allI impI)
  fix out m'
  assume "in_turn redis_spec (map fst ((c, e) # tests)) m out m'"
  then consider (stop) err where "redis_spec c m (Abrupt err) m'"
    | (go) v u out2 where "redis_spec c m (Ret v) u" "in_turn redis_spec (map fst tests) u out2 m'"
        "out = (case out2 of Ret vs \<Rightarrow> Ret (v # vs) | Abrupt err \<Rightarrow> Abrupt err)" by auto
  then show "passes ((c, e) # tests) out \<and> Q m'"
  proof cases
    case stop
    with assms show ?thesis by blast
  next
    case go
    from assms [OF go(1)] go(2) have "e v" "passes tests out2" "Q m'" by (auto simp: runs_def)
    with go(3) show ?thesis by (simp add: passes_def split: outcome.splits)
  qed
qed

lemma runs_step: "redis_spec c m = gives v n \<Longrightarrow> e v \<Longrightarrow> runs tests n Q \<Longrightarrow> runs ((c, e) # tests) m Q"
  by (rule runs_Cons) (simp add: gives_def)

lemma runs_append:
  assumes "runs xs m (\<lambda>n. runs ys n Q)"
  shows "runs (xs @ ys) m Q"
  unfolding runs_def
proof (intro allI impI)
  fix out m'
  assume "in_turn redis_spec (map fst (xs @ ys)) m out m'"
  then have "in_turn redis_spec (map fst xs @ map fst ys) m out m'" by simp
  then show "passes (xs @ ys) out \<and> Q m'"
  proof (cases rule: in_turn_append)
    case (first e)
    with assms have "passes xs (Abrupt e)" unfolding runs_def by blast
    then show ?thesis by (simp add: passes_def)
  next
    case (second vs u e)
    with assms have "passes ys (Abrupt e)" unfolding runs_def by blast
    then show ?thesis by (simp add: passes_def)
  next
    case (both vs u ws)
    with assms have "passes xs (Ret vs)" "passes ys (Ret ws) \<and> Q m'" unfolding runs_def by blast+
    with both(3) show ?thesis by (simp add: passes_def list_all2_appendI)
  qed
qed

lemmas check_simps = fits_def expect_def ignored_def expect_size_def Let_def too_big_def push_spec_def put_list_def
  from_end_def slice_def list_remove_def put_set_def put_hash_def put_zset_def zremove_spec_def zput_def zdel_def
  zsum_def zwithin_def exact_score_def default_withscores_def with_scores_def zlist_def or_empty_def
  string2int_int_to_dec in_64_def count_spec_def count_on_def number_in_def

lemma redis_int_to_dec [simp]: "in_64 i \<Longrightarrow> redis_int (int_to_dec i) = Some i"
  using strtol10_int_to_dec [of "[]" i] by (simp add: redis_int_def in_64_def Let_def)

lemma list_tests_pass: "m ''list'' = None \<Longrightarrow> runs list_tests m (\<lambda>n. n = m(''list'' := None))"
  unfolding list_tests_def
  by (rule runs_step, simp add: check_simps, simp add: check_simps)+ (rule runs_Nil, simp add: check_simps)

lemma zset_tests_pass: "m ''zadd'' = None \<Longrightarrow> runs zset_tests m (\<lambda>n. n = m(''zadd'' := None))"
  unfolding zset_tests_def
  by (rule runs_step, simp add: check_simps, simp add: check_simps)+ (rule runs_Nil, simp add: check_simps)

lemma key_tests_pass: "m ''kk'' = Some (Str_val s) \<Longrightarrow> runs key_tests m (\<lambda>n. n = m(''kk'' := None))"
  unfolding key_tests_def
  by (rule runs_step, simp add: check_simps, simp add: check_simps)+ (rule runs_Nil, simp add: check_simps)

lemma number_tests_pass:
  "m ''kk'' = Some (Str_val ''vvv'') \<Longrightarrow>
     runs number_tests m (\<lambda>n. n = m(''num'' \<mapsto> Str_val (int_to_dec 0), ''kk'' \<mapsto> Str_val ''vvvvv''))"
  unfolding number_tests_def
  by (rule runs_step, simp add: check_simps, simp add: check_simps)+ (rule runs_Nil, simp add: check_simps)

lemma one_member [simp]: "(\<exists>xs. distinct xs \<and> set xs = {a} \<and> P xs) \<longleftrightarrow> P [a]"
proof
  assume "\<exists>xs. distinct xs \<and> set xs = {a} \<and> P xs"
  then obtain xs where xs: "distinct xs" "set xs = {a}" "P xs" by blast
  from distinct_card [OF xs(1)] xs(2) have "length xs = 1" by simp
  then obtain b where "xs = [b]" by (auto simp: length_Suc_conv)
  with xs show "P [a]" by simp
qed (auto intro!: exI [of _ "[a]"])

lemma set_tests_pass: "m ''sadd'' = None \<Longrightarrow> runs set_tests m (\<lambda>n. n = m(''sadd'' \<mapsto> Set_val {''saddv''}))"
  unfolding set_tests_def
  by (rule runs_step, simp add: check_simps, simp add: check_simps)+ (rule runs_Nil, simp add: check_simps)

lemma hincrby_numbers: "redis_int ''11'' = Some 11" "int_to_dec 13 = ''13''"
  by code_simp+

lemma hash_tests_pass: "m ''hset'' = None \<Longrightarrow> runs hash_tests m (\<lambda>n. n = m(''hset'' \<mapsto> Hash_val [''field2'' \<mapsto> ''13'']))"
  unfolding hash_tests_def
  by (rule runs_step, simp add: check_simps hincrby_numbers, simp add: check_simps)+ (rule runs_Nil, simp add: check_simps)

lemma test_data:
  "test_keys = [''aa1'', ''aa2'', ''aa3'', ''aa4'']" "test_values = [''bb1'', ''bb2'', ''bb3'', ''bb4'']"
  by code_simp+

lemma string_tests_pass:
  "runs string_tests m (\<lambda>n. n ''kk'' = Some (Str_val ''vvv'') \<and>
     (\<forall>k. k \<notin> set (''kk'' # ''aaa'' # test_keys) \<longrightarrow> n k = m k))"
  unfolding string_tests_def test_data
  by (rule runs_step, simp add: check_simps, simp add: check_simps)+ (rule runs_Nil, simp add: check_simps)

lemma words_read:
  assumes "reads_as (c # k # args) cmd k'"
  shows "k' = k \<and> parse (map upper c) args = Some cmd"
  using assms parse_wire [of cmd k'] by (auto simp: reads_as_def)

lemma words_outcome:
  assumes "words_spec (c # k # args) m out m'" and "parse (map upper c) args = Some cmd"
  shows "\<exists>r v'. served cmd (m k) r v' \<and> out = Ret (Reply_of r) \<and> m' = m(k := v')"
proof -
  obtain cmd' k' r v' where w: "reads_as (c # k # args) cmd' k'" "served cmd' (m k') r v'" "out = Ret (Reply_of r)"
    "m' = m(k' := v')" using assms(1) by (auto simp: words_spec_def)
  from words_read [OF w(1)] assms(2) have "k' = k" "cmd' = cmd" by simp_all
  with w show ?thesis by blast
qed

lemma SET_words:
  assumes "words_spec [c, k, x] m (Ret rep) m'" and "map upper c = ''SET''"
  shows "rep_str rep = ''OK'' \<and> m' = m(k \<mapsto> Str_val x)"
proof -
  have "parse ''SET'' [x] = Some (String_cmd (SET x))" by (simp add: parse_def parse_string_def)
  from words_outcome [OF assms(1), unfolded assms(2), OF this] show ?thesis by (auto simp: answered_def)
qed

lemma GET_words:
  assumes "words_spec [c, k] m (Ret rep) m'" and "map upper c = ''GET''" and "m k = Some (Str_val x)"
  shows "rep_str rep = x \<and> m' = m"
proof -
  have "parse ''GET'' [] = Some (String_cmd GET)" by (simp add: parse_def parse_string_def)
  from words_outcome [OF assms(1), unfolded assms(2), OF this] assms(3) show ?thesis
    by (auto simp: answered_def fits_def or_empty_def)
qed

lemma spelled: "map upper ''set'' = ''SET''" "map upper ''SET'' = ''SET''" "map upper ''get'' = ''GET''"
  "map upper ''GET'' = ''GET''"
  by code_simp+

lemma runs_words:
  assumes "\<And>rep n. words_spec ws m (Ret rep) n \<Longrightarrow> rep_str rep = x \<and> n = u" and "runs tests u Q"
  shows "runs ((OnCommand (call_RedisCommand ws tt), expect_str x) # tests) m Q"
    and "cmd_args comm = ws \<Longrightarrow> runs ((OnCommand (call_RedisCommand_cmd comm tt), expect_str x) # tests) m Q"
    and "cmd_args comm = ws \<Longrightarrow> runs ((OnCommand (call_RedisCommands [comm]), expect_str x) # tests) m Q"
  using assms by (auto intro!: runs_Cons simp: expect_str_def)

lemma command_tests_pass: "runs command_tests m (\<lambda>n. n = m(''kk'' \<mapsto> Str_val ''vv''))"
proof -
  let ?m = "m(''kk'' \<mapsto> Str_val ''vv'')"
  have get: "words_spec [c, ''kk''] ?m (Ret rep) n \<Longrightarrow> map upper c = ''GET'' \<Longrightarrow> rep_str rep = ''vv'' \<and> n = ?m" for c rep n
    by (rule GET_words, assumption, assumption) simp
  have set: "words_spec [c, ''kk'', ''vv''] n (Ret rep) n' \<Longrightarrow> map upper c = ''SET'' \<Longrightarrow>
      rep_str rep = ''OK'' \<and> n' = n(''kk'' \<mapsto> Str_val ''vv'')" for c n rep n'
    by (rule SET_words)
  note set1 = set [OF _ spelled(1)] and set2 = set [OF _ spelled(2), of ?m, unfolded fun_upd_upd]
    and get1 = get [OF _ spelled(3)] and get2 = get [OF _ spelled(4)]
  have final: "runs [] ?m (\<lambda>n. n = ?m)" by (simp add: runs_Nil)
  show ?thesis
    unfolding command_tests_def
    by (rule runs_words(1) [OF set1 runs_words(2) [OF set2 runs_words(1) [OF get1 runs_words(3) [OF get1
          runs_words(2) [OF get2 final]]]]])
      (simp_all add: command_simps)
qed

section \<open>Lemmas: one group after the other\<close>

lemma runs_then: "runs xs m P \<Longrightarrow> (\<And>n. P n \<Longrightarrow> runs ys n Q) \<Longrightarrow> runs (xs @ ys) m Q"
  by (rule runs_append) (unfold runs_def, blast)

lemma runs_done: "runs xs m P \<Longrightarrow> runs xs m (\<lambda>_. True)"
  by (simp add: runs_def)

lemma later_tests_run:
  assumes "m ''kk'' = Some (Str_val ''vvv'')" and "m ''list'' = None" "m ''sadd'' = None" "m ''zadd'' = None" "m ''hset'' = None"
  shows "runs (number_tests @ list_tests @ set_tests @ zset_tests @ hash_tests) m (\<lambda>_. True)"
  by (rule runs_then [OF number_tests_pass [of m, OF assms(1)]], rule runs_then [OF list_tests_pass], simp add: assms,
    rule runs_then [OF set_tests_pass], simp add: assms, rule runs_then [OF zset_tests_pass], simp add: assms,
    rule runs_done [OF hash_tests_pass], simp add: assms)

lemma test_suite_runs: "runs test_suite Map.empty (\<lambda>_. True)"
  unfolding test_suite_def
  by (rule runs_then [OF command_tests_pass], rule runs_then [OF key_tests_pass], simp,
    rule runs_then [OF string_tests_pass], rule later_tests_run) (simp_all add: test_data)

text \<open>All of them are calls that the specification covers.\<close>

lemma words_readable: "readable [''set'', k, x]" "readable [''SET'', k, x]" "readable [''get'', k]" "readable [''GET'', k]"
  unfolding readable_def reads_as_def
  using spelled by (auto intro: exI [of _ "String_cmd (SET x)"] exI [of _ "String_cmd GET"])

lemma test_suite_specified: "list_all specified (map fst test_suite)"
  by (simp add: test_suite_def command_tests_def key_tests_def string_tests_def number_tests_def list_tests_def
      set_tests_def zset_tests_def hash_tests_def words_readable command_simps)

text \<open>Whoever stands for an empty database passes them.\<close>

context redis_service begin

lemma tests_pass:
  assumes "stands (length test_suite) s Map.empty" and "mapM_prog run (map fst test_suite) s = (r, s')"
  shows "passes test_suite r"
proof -
  have "stands (length (map fst test_suite) + 0) s Map.empty" using assms(1) by simp
  from calls [OF test_suite_specified this assms(2)] test_suite_runs show ?thesis unfolding runs_def by blast
qed

end

end
