(* ===== verification/Ae.thy ===== *)
theory Ae
  imports Utils
begin

unbundle bit_operations_syntax

text \<open>
  The event loop (\<open>cpp/src/ae.c\<close> and \<open>ae.h\<close> in the include directory of hiredis): file events
  registered per descriptor, time events in a linked list, one round of processing, and the main
  loop. The multiplexer below it, the clock, the allocator and the handlers above it are fields of
  the record \<open>ae_env\<close>; handlers get the whole loop and may change it.
\<close>

section \<open>Constants\<close>

definition AE_OK :: c_int where "AE_OK = 0"
definition AE_ERR :: c_int where "AE_ERR = - 1"
definition AE_NONE :: c_int where "AE_NONE = 0"
definition AE_READABLE :: c_int where "AE_READABLE = 1"
definition AE_WRITABLE :: c_int where "AE_WRITABLE = 2"
definition AE_FILE_EVENTS :: c_int where "AE_FILE_EVENTS = 1"
definition AE_TIME_EVENTS :: c_int where "AE_TIME_EVENTS = 2"
definition AE_ALL_EVENTS :: c_int where "AE_ALL_EVENTS = AE_FILE_EVENTS OR AE_TIME_EVENTS"
definition AE_DONT_WAIT :: c_int where "AE_DONT_WAIT = 4"
definition AE_NOMORE :: c_int where "AE_NOMORE = - 1"

section \<open>State\<close>

text \<open>
  Procedures and client data are code and data addresses. The procedures of a file event are
  uninitialised (\<open>None\<close>) until one is registered; a NULL finalizer is \<open>None\<close>. Descriptors, \<open>maxfd\<close>
  and times stay far from the limits of their C types and are integers; the identifiers of time events
  are 64-bit words.
\<close>

record aeFileEvent =
  fe_mask :: c_int
  fe_rfileProc :: "nat option"
  fe_wfileProc :: "nat option"
  fe_clientData :: nat

record aeTimeEvent =
  te_id :: c_llong
  te_when_sec :: int
  te_when_ms :: int
  te_timeProc :: nat
  te_finalizerProc :: "nat option"
  te_clientData :: nat

text \<open>\<open>timeEvents\<close> is the list that starts at \<open>timeEventHead\<close>.\<close>

record 'a aeEventLoop =
  maxfd :: int
  setsize :: int
  timeEventNextId :: c_llong
  lastTime :: int
  events :: "aeFileEvent list"
  fired :: "(int \<times> c_int) list"
  timeEvents :: "aeTimeEvent list"
  el_stop :: bool
  apidata :: 'a
  beforesleep :: "nat option"

type_synonym ('a, 'w) lst = "'a aeEventLoop \<times> 'w"

record ('a, 'w) ae_env =
  api_create :: "int \<Rightarrow> 'w \<Rightarrow> 'a option \<times> 'w"
  api_free :: "'a \<Rightarrow> 'w \<Rightarrow> 'w"
  api_add :: "int \<Rightarrow> c_int \<Rightarrow> (('a, 'w) lst, c_int) prog"
  api_del :: "int \<Rightarrow> c_int \<Rightarrow> (('a, 'w) lst, unit) prog"
  api_poll :: "timeval option \<Rightarrow> (('a, 'w) lst, nat) prog"
  os_time :: "'w \<Rightarrow> int \<times> 'w"
  os_gettimeofday :: "'w \<Rightarrow> timeval \<times> 'w"
  os_malloc :: "'w \<Rightarrow> bool \<times> 'w"
  call_file :: "nat \<Rightarrow> int \<Rightarrow> nat \<Rightarrow> c_int \<Rightarrow> (('a, 'w) lst, unit) prog"
  call_time :: "nat \<Rightarrow> c_llong \<Rightarrow> nat \<Rightarrow> (('a, 'w) lst, c_int) prog"
  call_final :: "nat \<Rightarrow> nat \<Rightarrow> (('a, 'w) lst, unit) prog"
  call_sleep :: "nat \<Rightarrow> (('a, 'w) lst, unit) prog"

definition getel :: "('a aeEventLoop \<Rightarrow> 'b) \<Rightarrow> (('a, 'w) lst, 'b) prog" where
  "getel f = getst (\<lambda>(el, w). f el)"

definition updel :: "('a aeEventLoop \<Rightarrow> 'a aeEventLoop) \<Rightarrow> (('a, 'w) lst, unit) prog" where
  "updel f = updst (\<lambda>(el, w). (f el, w))"

definition onworld :: "('w \<Rightarrow> 'b \<times> 'w) \<Rightarrow> (('a, 'w) lst, 'b) prog" where
  "onworld f = (\<lambda>(el, w). case f w of (x, w') \<Rightarrow> (Ret x, (el, w')))"

section \<open>Creation\<close>

text \<open>
  Three allocations, the second and third made in any case; then the multiplexer. On failure
  everything is freed and NULL is returned. \<open>raw_events\<close> and \<open>raw_fired\<close> are the fresh arrays.
\<close>

definition aeCreateEventLoop ::
  "('a, 'w) ae_env \<Rightarrow> int \<Rightarrow> aeFileEvent list \<Rightarrow> (int \<times> c_int) list \<Rightarrow> 'w \<Rightarrow> 'a aeEventLoop option \<times> 'w" where
  "aeCreateEventLoop E n raw_events raw_fired w =
     (case os_malloc E w of
        (False, w) \<Rightarrow> (None, w)
      | (True, w) \<Rightarrow>
          (case os_malloc E w of (ok1, w) \<Rightarrow> case os_malloc E w of (ok2, w) \<Rightarrow>
             if \<not> ok1 \<or> \<not> ok2 then (None, w)
             else case os_time E w of (now, w) \<Rightarrow>
               (case api_create E n w of
                  (None, w) \<Rightarrow> (None, w)
                | (Some d, w) \<Rightarrow>
                    (Some \<lparr>maxfd = - 1, setsize = n, timeEventNextId = 0, lastTime = now,
                       events = map (\<lambda>fe. fe\<lparr>fe_mask := AE_NONE\<rparr>) raw_events, fired = raw_fired,
                       timeEvents = [], el_stop = False, apidata = d, beforesleep = None\<rparr>, w))))"

definition aeDeleteEventLoop :: "('a, 'w) ae_env \<Rightarrow> ('a, 'w) lst \<Rightarrow> 'w" where
  "aeDeleteEventLoop E = (\<lambda>(el, w). api_free E (apidata el) w)"

definition aeStop :: "(('a, 'w) lst, unit) prog" where
  "aeStop = updel (\<lambda>el. el\<lparr>el_stop := True\<rparr>)"

definition aeSetBeforeSleepProc :: "nat option \<Rightarrow> (('a, 'w) lst, unit) prog" where
  "aeSetBeforeSleepProc p = updel (\<lambda>el. el\<lparr>beforesleep := p\<rparr>)"

section \<open>File events\<close>

text \<open>The element \<open>events[fd]\<close>; the code checks the upper bound only.\<close>

definition file_event :: "int \<Rightarrow> (('a, 'w) lst, aeFileEvent) prog" where
  "file_event fd =
     bnd (getel events) (\<lambda>evs.
       if fd < 0 \<or> length evs \<le> nat fd then abort (Undef OutOfBounds) else ret (evs ! nat fd))"

definition set_file_event :: "int \<Rightarrow> (aeFileEvent \<Rightarrow> aeFileEvent) \<Rightarrow> (('a, 'w) lst, unit) prog" where
  "set_file_event fd f = updel (\<lambda>el. el\<lparr>events := (events el)[nat fd := f (events el ! nat fd)]\<rparr>)"

definition aeCreateFileEvent ::
  "('a, 'w) ae_env \<Rightarrow> int \<Rightarrow> c_int \<Rightarrow> nat \<Rightarrow> nat \<Rightarrow> (('a, 'w) lst, c_int) prog" where
  "aeCreateFileEvent E fd msk proc clientData =
     bnd (getel setsize) (\<lambda>n.
     if fd \<ge> n then ret AE_ERR
     else
       bnd (file_event fd) (\<lambda>_.
       bnd (api_add E fd msk) (\<lambda>r.
       if r = - 1 then ret AE_ERR
       else
         andthen (set_file_event fd (\<lambda>fe. fe\<lparr>fe_mask := fe_mask fe OR msk\<rparr>))
        (andthen (if msk AND AE_READABLE \<noteq> 0
                  then set_file_event fd (\<lambda>fe. fe\<lparr>fe_rfileProc := Some proc\<rparr>) else ret ())
        (andthen (if msk AND AE_WRITABLE \<noteq> 0
                  then set_file_event fd (\<lambda>fe. fe\<lparr>fe_wfileProc := Some proc\<rparr>) else ret ())
        (andthen (set_file_event fd (\<lambda>fe. fe\<lparr>fe_clientData := clientData\<rparr>))
        (andthen (updel (\<lambda>el. if fd > maxfd el then el\<lparr>maxfd := fd\<rparr> else el))
                 (ret AE_OK))))))))"

text \<open>
  The search for the next descriptor in use, from \<open>j\<close> down; its argument is \<open>j + 1\<close>.
\<close>

fun find_maxfd :: "aeFileEvent list \<Rightarrow> nat \<Rightarrow> int" where
  "find_maxfd evs 0 = - 1"
| "find_maxfd evs (Suc j) = (if fe_mask (evs ! j) \<noteq> AE_NONE then int j else find_maxfd evs j)"

definition aeDeleteFileEvent :: "('a, 'w) ae_env \<Rightarrow> int \<Rightarrow> c_int \<Rightarrow> (('a, 'w) lst, unit) prog" where
  "aeDeleteFileEvent E fd msk =
     bnd (getel setsize) (\<lambda>n.
     if fd \<ge> n then ret ()
     else
       bnd (file_event fd) (\<lambda>fe.
       if fe_mask fe = AE_NONE then ret ()
       else
         andthen (set_file_event fd (\<lambda>fe. fe\<lparr>fe_mask := fe_mask fe AND NOT msk\<rparr>))
        (andthen (updel (\<lambda>el.
           if fd = maxfd el \<and> fe_mask (events el ! nat fd) = AE_NONE
           then el\<lparr>maxfd := find_maxfd (events el) (nat (maxfd el))\<rparr> else el))
           (api_del E fd msk))))"

definition aeGetFileEvents :: "int \<Rightarrow> (('a, 'w) lst, c_int) prog" where
  "aeGetFileEvents fd =
     bnd (getel setsize) (\<lambda>n.
     if fd \<ge> n then ret 0 else bnd (file_event fd) (\<lambda>fe. ret (fe_mask fe)))"

section \<open>Time events\<close>

definition aeGetTime :: "('a, 'w) ae_env \<Rightarrow> (('a, 'w) lst, int \<times> int) prog" where
  "aeGetTime E = bnd (onworld (os_gettimeofday E)) (\<lambda>tv. ret (tv_sec tv, tv_usec tv sdiv 1000))"

definition add_ms :: "int \<Rightarrow> int \<times> int \<Rightarrow> int \<times> int" where
  "add_ms milliseconds = (\<lambda>(cur_sec, cur_ms).
     let when_sec = cur_sec + milliseconds sdiv 1000;
         when_ms = cur_ms + milliseconds smod 1000
     in if when_ms \<ge> 1000 then (when_sec + 1, when_ms - 1000) else (when_sec, when_ms))"

definition aeAddMillisecondsToNow :: "('a, 'w) ae_env \<Rightarrow> int \<Rightarrow> (('a, 'w) lst, int \<times> int) prog" where
  "aeAddMillisecondsToNow E milliseconds = bnd (aeGetTime E) (\<lambda>now. ret (add_ms milliseconds now))"

text \<open>The identifier is used up even where the allocation fails.\<close>

definition aeCreateTimeEvent ::
  "('a, 'w) ae_env \<Rightarrow> int \<Rightarrow> nat \<Rightarrow> nat \<Rightarrow> nat option \<Rightarrow> (('a, 'w) lst, c_llong) prog" where
  "aeCreateTimeEvent E milliseconds proc clientData finalizerProc =
     bnd (getel timeEventNextId) (\<lambda>i.
     andthen (updel (\<lambda>el. el\<lparr>timeEventNextId := i + 1\<rparr>))
     (bnd (onworld (os_malloc E)) (\<lambda>ok.
      if \<not> ok then ret (- 1)
      else
        bnd (aeAddMillisecondsToNow E milliseconds) (\<lambda>(when_sec, when_ms).
        andthen (updel (\<lambda>el. el\<lparr>timeEvents :=
            \<lparr>te_id = i, te_when_sec = when_sec, te_when_ms = when_ms, te_timeProc = proc,
             te_finalizerProc = finalizerProc, te_clientData = clientData\<rparr> # timeEvents el\<rparr>))
                (ret i)))))"

text \<open>Unlinking the first event with an identifier.\<close>

fun unlink :: "c_llong \<Rightarrow> aeTimeEvent list \<Rightarrow> (aeTimeEvent \<times> aeTimeEvent list) option" where
  "unlink i [] = None"
| "unlink i (te # tes) =
     (if te_id te = i then Some (te, tes)
      else case unlink i tes of None \<Rightarrow> None | Some (x, r) \<Rightarrow> Some (x, te # r))"

definition aeDeleteTimeEvent :: "('a, 'w) ae_env \<Rightarrow> c_llong \<Rightarrow> (('a, 'w) lst, c_int) prog" where
  "aeDeleteTimeEvent E i =
     bnd (getel timeEvents) (\<lambda>tes.
     case unlink i tes of
       None \<Rightarrow> ret AE_ERR
     | Some (te, r) \<Rightarrow>
         andthen (updel (\<lambda>el. el\<lparr>timeEvents := r\<rparr>))
        (andthen (case te_finalizerProc te of
                    None \<Rightarrow> ret () | Some f \<Rightarrow> call_final E f (te_clientData te))
                 (ret AE_OK)))"

fun nearest_loop :: "aeTimeEvent list \<Rightarrow> aeTimeEvent option \<Rightarrow> aeTimeEvent option" where
  "nearest_loop [] nearest = nearest"
| "nearest_loop (te # tes) nearest =
     nearest_loop tes
       (case nearest of
          None \<Rightarrow> Some te
        | Some n \<Rightarrow>
            if te_when_sec te < te_when_sec n \<or>
               (te_when_sec te = te_when_sec n \<and> te_when_ms te < te_when_ms n)
            then Some te else Some n)"

definition aeSearchNearestTimer :: "aeTimeEvent list \<Rightarrow> aeTimeEvent option" where
  "aeSearchNearestTimer tes = nearest_loop tes None"

text \<open>
  The walk over the list: \<open>rest\<close> is the list from \<open>te\<close> on, which only a handler can change, and after
  a handler the walk starts again at the head. A handler may return 0 for ever, so the walk has fuel;
  \<open>None\<close> is running out of it. Where the handler deleted its own event and asks for it again, the code
  writes to freed memory.
\<close>

fun process_loop ::
  "('a, 'w) ae_env \<Rightarrow> nat \<Rightarrow> c_llong \<Rightarrow> aeTimeEvent list \<Rightarrow> nat \<Rightarrow> (('a, 'w) lst, nat option) prog" where
  "process_loop E fuel maxId [] processed = ret (Some processed)"
| "process_loop E 0 maxId (te # rest) processed = ret None"
| "process_loop E (Suc fuel) maxId (te # rest) processed =
     (if sint (te_id te) > sint maxId then process_loop E fuel maxId rest processed
      else
        bnd (aeGetTime E) (\<lambda>(now_sec, now_ms).
        if now_sec > te_when_sec te \<or> (now_sec = te_when_sec te \<and> now_ms \<ge> te_when_ms te) then
          bnd (call_time E (te_timeProc te) (te_id te) (te_clientData te)) (\<lambda>retval.
          andthen
            (if retval \<noteq> AE_NOMORE then
               bnd (getel (\<lambda>el. \<exists>x \<in> set (timeEvents el). te_id x = te_id te)) (\<lambda>alive.
               bnd (aeAddMillisecondsToNow E (sint retval)) (\<lambda>(s, ms).
               if \<not> alive then abort (Undef UseAfterFree)
               else updel (\<lambda>el. el\<lparr>timeEvents := map (\<lambda>x.
                 if te_id x = te_id te then x\<lparr>te_when_sec := s, te_when_ms := ms\<rparr> else x) (timeEvents el)\<rparr>)))
             else bnd (aeDeleteTimeEvent E (te_id te)) (\<lambda>_. ret ()))
            (bnd (getel timeEvents) (\<lambda>tes. process_loop E fuel maxId tes (Suc processed))))
        else process_loop E fuel maxId rest processed))"

definition processTimeEvents :: "('a, 'w) ae_env \<Rightarrow> nat \<Rightarrow> (('a, 'w) lst, nat option) prog" where
  "processTimeEvents E fuel =
     bnd (onworld (os_time E)) (\<lambda>now.
     andthen (updel (\<lambda>el.
       if now < lastTime el
       then el\<lparr>timeEvents := map (\<lambda>te. te\<lparr>te_when_sec := 0\<rparr>) (timeEvents el)\<rparr> else el))
    (andthen (updel (\<lambda>el. el\<lparr>lastTime := now\<rparr>))
    (bnd (getel (\<lambda>el. (timeEvents el, timeEventNextId el - 1))) (\<lambda>(tes, maxId).
       process_loop E fuel maxId tes 0))))"

section \<open>One round\<close>

text \<open>The time to sleep until a timer is due.\<close>

definition timer_wait :: "aeTimeEvent \<Rightarrow> int \<times> int \<Rightarrow> timeval" where
  "timer_wait shortest = (\<lambda>(now_sec, now_ms).
     let sec = te_when_sec shortest - now_sec;
         (sec, usec) =
           (if te_when_ms shortest < now_ms
            then (sec - 1, ((te_when_ms shortest + 1000) - now_ms) * 1000)
            else (sec, (te_when_ms shortest - now_ms) * 1000));
         sec = (if sec < 0 then 0 else sec);
         usec = (if usec < 0 then 0 else usec)
     in \<lparr>tv_sec = sec, tv_usec = usec\<rparr>)"

definition poll_timeout :: "('a, 'w) ae_env \<Rightarrow> c_int \<Rightarrow> (('a, 'w) lst, timeval option) prog" where
  "poll_timeout E flags =
     bnd (getel timeEvents) (\<lambda>tes.
     case (if flags AND AE_TIME_EVENTS \<noteq> 0 \<and> \<not> (flags AND AE_DONT_WAIT \<noteq> 0)
           then aeSearchNearestTimer tes else None) of
       Some shortest \<Rightarrow> bnd (aeGetTime E) (\<lambda>now. ret (Some (timer_wait shortest now)))
     | None \<Rightarrow> ret (if flags AND AE_DONT_WAIT \<noteq> 0 then Some timeval0 else None))"

definition run_proc ::
  "('a, 'w) ae_env \<Rightarrow> nat option \<Rightarrow> int \<Rightarrow> nat \<Rightarrow> c_int \<Rightarrow> (('a, 'w) lst, unit) prog" where
  "run_proc E p fd clientData msk =
     (case p of None \<Rightarrow> abort (Undef Uninitialised) | Some f \<Rightarrow> call_file E f fd clientData msk)"

text \<open>One fired entry: the event's fields are read again after the first handler.\<close>

definition fire :: "('a, 'w) ae_env \<Rightarrow> nat \<Rightarrow> (('a, 'w) lst, unit) prog" where
  "fire E j =
     bnd (getel (\<lambda>el. fired el ! j)) (\<lambda>(fd, msk).
     bnd (file_event fd) (\<lambda>fe.
     let rfired = (fe_mask fe AND msk AND AE_READABLE \<noteq> 0) in
     andthen (if rfired then run_proc E (fe_rfileProc fe) fd (fe_clientData fe) msk else ret ())
     (bnd (file_event fd) (\<lambda>fe.
      if fe_mask fe AND msk AND AE_WRITABLE \<noteq> 0 \<and> (\<not> rfired \<or> fe_wfileProc fe \<noteq> fe_rfileProc fe)
      then run_proc E (fe_wfileProc fe) fd (fe_clientData fe) msk else ret ()))))"

definition aeProcessEvents :: "('a, 'w) ae_env \<Rightarrow> nat \<Rightarrow> c_int \<Rightarrow> (('a, 'w) lst, nat option) prog" where
  "aeProcessEvents E fuel flags =
     (if flags AND AE_TIME_EVENTS = 0 \<and> flags AND AE_FILE_EVENTS = 0 then ret (Some 0)
      else
        bnd (getel maxfd) (\<lambda>m.
        bnd (if m \<noteq> - 1 \<or> (flags AND AE_TIME_EVENTS \<noteq> 0 \<and> flags AND AE_DONT_WAIT = 0)
             then
               bnd (poll_timeout E flags) (\<lambda>tvp.
               bnd (api_poll E tvp) (\<lambda>numevents.
               andthen (mapM_prog (fire E) [0..<numevents]) (ret numevents)))
             else ret 0) (\<lambda>processed.
        if flags AND AE_TIME_EVENTS \<noteq> 0 then
          bnd (processTimeEvents E fuel) (\<lambda>n. ret (map_option ((+) processed) n))
        else ret (Some processed))))"

text \<open>The main loop, with fuel for its rounds and for the timers of each; \<open>False\<close> is running out.\<close>

fun main_loop :: "('a, 'w) ae_env \<Rightarrow> nat \<Rightarrow> (('a, 'w) lst, bool) prog" where
  "main_loop E 0 = bnd (getel el_stop) ret"
| "main_loop E (Suc fuel) =
     bnd (getel el_stop) (\<lambda>stop.
     if stop then ret True
     else
       bnd (getel beforesleep) (\<lambda>bs.
       andthen (case bs of None \<Rightarrow> ret () | Some f \<Rightarrow> call_sleep E f)
       (bnd (aeProcessEvents E fuel AE_ALL_EVENTS) (\<lambda>n.
        if n = None then ret False else main_loop E fuel))))"

definition aeMain :: "('a, 'w) ae_env \<Rightarrow> nat \<Rightarrow> (('a, 'w) lst, bool) prog" where
  "aeMain E fuel = andthen (updel (\<lambda>el. el\<lparr>el_stop := False\<rparr>)) (main_loop E fuel)"

section \<open>Waiting for one descriptor\<close>

definition POLLIN :: c_int where "POLLIN = 1"
definition POLLOUT :: c_int where "POLLOUT = 4"
definition POLLERR :: c_int where "POLLERR = 8"
definition POLLHUP :: c_int where "POLLHUP = 16"

text \<open>\<open>poll\<close> is given by its return value and the events it sets; its timeout is an \<open>int\<close>.\<close>

definition aeWait ::
  "(int \<Rightarrow> c_int \<Rightarrow> c_int \<Rightarrow> 'w \<Rightarrow> (c_int \<times> c_int) \<times> 'w) \<Rightarrow> int \<Rightarrow> c_int \<Rightarrow> c_llong \<Rightarrow> 'w \<Rightarrow> c_int \<times> 'w" where
  "aeWait poll fd msk milliseconds w =
     (let evs = (if msk AND AE_READABLE \<noteq> 0 then POLLIN else 0)
                OR (if msk AND AE_WRITABLE \<noteq> 0 then POLLOUT else 0)
      in case poll fd evs (llong_to_int milliseconds) w of
           ((retval, revents), w') \<Rightarrow>
             if retval = 1 then
               ((if revents AND POLLIN \<noteq> 0 then AE_READABLE else 0)
                OR (if revents AND POLLOUT \<noteq> 0 then AE_WRITABLE else 0)
                OR (if revents AND POLLERR \<noteq> 0 then AE_WRITABLE else 0)
                OR (if revents AND POLLHUP \<noteq> 0 then AE_WRITABLE else 0), w')
             else (retval, w'))"

section \<open>Lemmas: running the operations\<close>

named_theorems ae_simps

lemma getel_apply [ae_simps]: "getel f (el, w) = (Ret (f el), (el, w))"
  by (simp add: getel_def getst_def)

lemma bnd_getel [ae_simps]: "bnd (getel g) f (el, w) = f (g el) (el, w)"
  by (simp add: bnd_def ae_simps)

lemma updel_apply [ae_simps]: "updel f (el, w) = (Ret (), (f el, w))"
  by (simp add: updel_def updst_def)

lemma bnd_updel [ae_simps]: "bnd (updel g) f (el, w) = f () (g el, w)"
  by (simp add: bnd_def ae_simps)

lemma onworld_apply [ae_simps]: "onworld f (el, w) = (case f w of (x, w') \<Rightarrow> (Ret x, (el, w')))"
  by (simp add: onworld_def)

section \<open>Lemmas: the nearest timer\<close>

text \<open>The order in which timers are due.\<close>

datatype due = Due (due_sec: int) (due_ms: int)

instantiation due :: linorder
begin

definition less_eq_due :: "due \<Rightarrow> due \<Rightarrow> bool" where
  "less_eq_due a b \<longleftrightarrow> due_sec a < due_sec b \<or> (due_sec a = due_sec b \<and> due_ms a \<le> due_ms b)"

definition less_due :: "due \<Rightarrow> due \<Rightarrow> bool" where
  "less_due a b \<longleftrightarrow> due_sec a < due_sec b \<or> (due_sec a = due_sec b \<and> due_ms a < due_ms b)"

instance
  by standard (auto simp: less_eq_due_def less_due_def intro: due.expand)

end

definition due_of :: "aeTimeEvent \<Rightarrow> due" where
  "due_of te = Due (te_when_sec te) (te_when_ms te)"

lemma nearest_loop_Some:
  "\<exists>n. nearest_loop tes (Some x) = Some n \<and> n \<in> insert x (set tes) \<and> due_of n \<le> due_of x \<and>
       (\<forall>te \<in> set tes. due_of n \<le> due_of te)"
proof (induction tes arbitrary: x)
  case Nil
  then show ?case by simp
next
  case (Cons te tes)
  let ?y = "if te_when_sec te < te_when_sec x \<or> (te_when_sec te = te_when_sec x \<and> te_when_ms te < te_when_ms x)
            then te else x"
  have y: "due_of ?y \<le> due_of te" "due_of ?y \<le> due_of x" "?y \<in> {te, x}"
    by (auto simp: due_of_def less_eq_due_def)
  from Cons.IH [of ?y] obtain n where "nearest_loop tes (Some ?y) = Some n"
    and "n \<in> insert ?y (set tes)" and "due_of n \<le> due_of ?y" and "\<forall>te \<in> set tes. due_of n \<le> due_of te"
    by blast
  with y show ?case by (auto split: if_splits intro: order.trans)
qed

lemma nearest_None: "aeSearchNearestTimer tes = None \<longleftrightarrow> tes = []"
proof (cases tes)
  case (Cons te r)
  with nearest_loop_Some [of r te] show ?thesis by (auto simp: aeSearchNearestTimer_def)
qed (simp add: aeSearchNearestTimer_def)

lemma nearest_Some:
  "aeSearchNearestTimer tes = Some n \<Longrightarrow> n \<in> set tes \<and> (\<forall>te \<in> set tes. due_of n \<le> due_of te)"
proof (cases tes)
  case (Cons te r)
  assume "aeSearchNearestTimer tes = Some n"
  with Cons nearest_loop_Some [of r te] show ?thesis by (auto simp: aeSearchNearestTimer_def)
qed (simp add: aeSearchNearestTimer_def)

text \<open>The wait in milliseconds, as the multiplexer is asked for it.\<close>

definition ms_of :: "timeval \<Rightarrow> int" where
  "ms_of tv = tv_sec tv * 1000 + tv_usec tv sdiv 1000"

lemma sdiv_ms: "0 \<le> x \<Longrightarrow> (x * 1000) sdiv 1000 = (x :: int)"
  by (auto simp: signed_divide_int_def sgn_if)

lemma timer_wait_exact:
  assumes "0 \<le> te_when_ms te" "te_when_ms te < 1000" "0 \<le> ms" "ms < 1000"
    and "Due s ms \<le> due_of te"
  shows "s * 1000 + ms + ms_of (timer_wait te (s, ms)) = te_when_sec te * 1000 + te_when_ms te"
proof -
  have le: "s < te_when_sec te \<or> (s = te_when_sec te \<and> ms \<le> te_when_ms te)"
    using assms(5) by (simp add: less_eq_due_def due_of_def)
  show ?thesis
  proof (cases "te_when_ms te < ms")
    case True
    then have "ms_of (timer_wait te (s, ms)) =
        (te_when_sec te - s - 1) * 1000 + (te_when_ms te + 1000 - ms)"
      using le assms sdiv_ms [of "te_when_ms te + 1000 - ms"] by (simp add: timer_wait_def ms_of_def Let_def)
    then show ?thesis by (simp add: algebra_simps)
  next
    case False
    moreover have "\<not> te_when_sec te < s" using le by auto
    ultimately have "ms_of (timer_wait te (s, ms)) = (te_when_sec te - s) * 1000 + (te_when_ms te - ms)"
      using assms sdiv_ms [of "te_when_ms te - ms"] by (simp add: timer_wait_def ms_of_def Let_def)
    then show ?thesis by (simp add: algebra_simps)
  qed
qed

text \<open>A timer overdue within its second makes the loop sleep for most of a second.\<close>

lemma timer_wait_overdue:
  assumes "0 \<le> te_when_ms te" "te_when_ms te < ms" "ms < 1000" "te_when_sec te \<le> s"
  shows "ms_of (timer_wait te (s, ms)) = te_when_ms te + 1000 - ms"
  using assms sdiv_ms [of "te_when_ms te + 1000 - ms"] by (simp add: timer_wait_def ms_of_def Let_def)

lemma add_ms_sum:
  assumes "0 \<le> m" and "0 \<le> ms" "ms < 1000"
  shows "fst (add_ms m (s, ms)) * 1000 + snd (add_ms m (s, ms)) = s * 1000 + ms + m"
    and "0 \<le> snd (add_ms m (s, ms))" and "snd (add_ms m (s, ms)) < 1000"
proof -
  have d: "m sdiv 1000 = m div 1000" "m smod 1000 = m mod 1000"
    using assms(1) by (auto simp: signed_divide_int_def signed_modulo_int_def sgn_if)
  have "m div 1000 * 1000 + m mod 1000 = m" by simp
  moreover have "0 \<le> m mod 1000" "m mod 1000 < 1000" by simp_all
  ultimately show "fst (add_ms m (s, ms)) * 1000 + snd (add_ms m (s, ms)) = s * 1000 + ms + m"
    and "0 \<le> snd (add_ms m (s, ms))" and "snd (add_ms m (s, ms)) < 1000"
    using assms by (auto simp: add_ms_def d Let_def algebra_simps)
qed

end
