(* ===== verification/Ae_Timers.thy ===== *)
theory Ae_Timers
  imports Ae
begin

text \<open>
  How the walk over the time events ends: with one-shot handlers every due event fires once and is
  gone, within a bound on the steps; with a handler that asks to run again in 0 milliseconds the walk
  never ends.
\<close>

section \<open>The clock\<close>

definition now_of :: "('a, 'w) ae_env \<Rightarrow> 'w \<Rightarrow> due" where
  "now_of E w = Due (tv_sec (fst (os_gettimeofday E w))) (tv_usec (fst (os_gettimeofday E w)) sdiv 1000)"

lemma aeGetTime_apply:
  "aeGetTime E (el, w) =
     (Ret (due_sec (now_of E w), due_ms (now_of E w)), (el, snd (os_gettimeofday E w)))"
  by (simp add: aeGetTime_def now_of_def bnd_def ae_simps prog_simps split: prod.splits)

lemma due_cond:
  "(s > te_when_sec te \<or> (s = te_when_sec te \<and> ms \<ge> te_when_ms te)) \<longleftrightarrow> due_of te \<le> Due s ms"
  by (auto simp: due_of_def less_eq_due_def)

text \<open>One step of the walk, by whether the event is one of this round and due.\<close>

lemma process_loop_skip:
  "sint (te_id te) > sint maxId \<Longrightarrow>
     process_loop E (Suc fuel) maxId (te # rest) n (el, w) = process_loop E fuel maxId rest n (el, w)"
  by simp

lemma process_loop_not_due:
  "\<not> sint (te_id te) > sint maxId \<Longrightarrow> \<not> due_of te \<le> now_of E w \<Longrightarrow>
     process_loop E (Suc fuel) maxId (te # rest) n (el, w) =
       process_loop E fuel maxId rest n (el, snd (os_gettimeofday E w))"
  by (simp add: bnd_def aeGetTime_apply due_cond)

lemma process_loop_due:
  assumes "\<not> sint (te_id te) > sint maxId" and "due_of te \<le> now_of E w"
  shows "process_loop E (Suc fuel) maxId (te # rest) n (el, w) =
    bnd (call_time E (te_timeProc te) (te_id te) (te_clientData te)) (\<lambda>retval.
      andthen
        (if retval \<noteq> AE_NOMORE then
           bnd (getel (\<lambda>el. \<exists>x \<in> set (timeEvents el). te_id x = te_id te)) (\<lambda>alive.
           bnd (aeAddMillisecondsToNow E (sint retval)) (\<lambda>(s, ms).
           if \<not> alive then abort (Undef UseAfterFree)
           else updel (\<lambda>el. el\<lparr>timeEvents := map (\<lambda>x.
             if te_id x = te_id te then x\<lparr>te_when_sec := s, te_when_ms := ms\<rparr> else x) (timeEvents el)\<rparr>)))
         else bnd (aeDeleteTimeEvent E (te_id te)) (\<lambda>_. ret ()))
        (bnd (getel timeEvents) (\<lambda>tes. process_loop E fuel maxId tes (Suc n))))
      (el, snd (os_gettimeofday E w))"
  using assms by (simp add: bnd_def [of "aeGetTime E"] aeGetTime_apply due_cond)

section \<open>One-shot events\<close>

text \<open>
  The clock shows one time for the whole round, and handlers and finalizers leave the loop alone: \<open>seen\<close> is
  what a handler does to the world before it says that its event is done, \<open>fin\<close> what a finalizer does.
\<close>

definition one_shot ::
  "('a, 'w) ae_env \<Rightarrow> (nat \<Rightarrow> c_llong \<Rightarrow> nat \<Rightarrow> 'w \<Rightarrow> 'w) \<Rightarrow> (nat \<Rightarrow> nat \<Rightarrow> 'w \<Rightarrow> 'w) \<Rightarrow> bool" where
  "one_shot E seen fin \<longleftrightarrow>
     (\<forall>w. snd (os_gettimeofday E w) = w) \<and>
     (\<forall>p i d el w. call_time E p i d (el, w) = (Ret AE_NOMORE, (el, seen p i d w)) \<and>
        now_of E (seen p i d w) = now_of E w) \<and>
     (\<forall>f d el w. call_final E f d (el, w) = (Ret (), (el, fin f d w)) \<and> now_of E (fin f d w) = now_of E w)"

lemma one_shotD:
  assumes "one_shot E seen fin"
  shows "snd (os_gettimeofday E w) = w" and "call_time E p i d (el, w) = (Ret AE_NOMORE, (el, seen p i d w))"
    and "now_of E (seen p i d w) = now_of E w" and "call_final E f d (el, w) = (Ret (), (el, fin f d w))"
    and "now_of E (fin f d w) = now_of E w"
  using assms unfolding one_shot_def by blast+

text \<open>What one due event does to the world: its handler, then its finalizer if it has one.\<close>

definition final_effect :: "(nat \<Rightarrow> nat \<Rightarrow> 'w \<Rightarrow> 'w) \<Rightarrow> aeTimeEvent \<Rightarrow> 'w \<Rightarrow> 'w" where
  "final_effect fin te = (case te_finalizerProc te of None \<Rightarrow> id | Some f \<Rightarrow> fin f (te_clientData te))"

definition timer_effect ::
  "(nat \<Rightarrow> c_llong \<Rightarrow> nat \<Rightarrow> 'w \<Rightarrow> 'w) \<Rightarrow> (nat \<Rightarrow> nat \<Rightarrow> 'w \<Rightarrow> 'w) \<Rightarrow> aeTimeEvent \<Rightarrow> 'w \<Rightarrow> 'w" where
  "timer_effect seen fin te w = final_effect fin te (seen (te_timeProc te) (te_id te) (te_clientData te) w)"

lemma timer_effect_now: "one_shot E seen fin \<Longrightarrow> now_of E (timer_effect seen fin te w) = now_of E w"
  by (simp add: timer_effect_def final_effect_def one_shotD split: option.splits)

definition fires :: "('a, 'w) ae_env \<Rightarrow> 'w \<Rightarrow> c_llong \<Rightarrow> aeTimeEvent \<Rightarrow> bool" where
  "fires E w maxId te \<longleftrightarrow> sint (te_id te) \<le> sint maxId \<and> due_of te \<le> now_of E w"

lemma fires_cong: "now_of E v = now_of E w \<Longrightarrow> fires E v = fires E w"
  by (simp add: fun_eq_iff fires_def)

lemma process_loop_prefix:
  "one_shot E seen fin \<Longrightarrow> \<forall>te \<in> set pre. \<not> fires E w maxId te \<Longrightarrow>
     process_loop E (length pre + f) maxId (pre @ rest) n (el, w) = process_loop E f maxId rest n (el, w)"
proof (induction pre)
  case (Cons te pre)
  then have "\<not> fires E w maxId te" by simp
  then consider "sint (te_id te) > sint maxId" | "\<not> sint (te_id te) > sint maxId" "\<not> due_of te \<le> now_of E w"
    by (auto simp: fires_def)
  then show ?case
    using Cons by cases (simp_all add: process_loop_not_due one_shotD del: process_loop.simps(3),
      simp_all add: process_loop_not_due one_shotD)
qed simp

lemma unlink_split:
  "te_id te \<notin> te_id ` set pre \<Longrightarrow> unlink (te_id te) (pre @ te # post) = Some (te, pre @ post)"
  by (induction pre) auto

lemma aeDeleteTimeEvent_one_shot:
  assumes "one_shot E seen fin" and "te_id te \<notin> te_id ` set pre" and "timeEvents el = pre @ te # post"
  shows "aeDeleteTimeEvent E (te_id te) (el, w) = (Ret AE_OK, (el\<lparr>timeEvents := pre @ post\<rparr>, final_effect fin te w))"
  by (simp add: aeDeleteTimeEvent_def ae_simps prog_simps assms(3) unlink_split [OF assms(2)]
      bnd_def one_shotD [OF assms(1)] final_effect_def split: option.splits)

lemma one_shot_walk:
  assumes E: "one_shot E seen fin"
  shows "distinct (map te_id (timeEvents el)) \<Longrightarrow> k = length (filter (fires E w maxId) (timeEvents el)) \<Longrightarrow>
     (k + 1) * length (timeEvents el) \<le> fuel \<Longrightarrow>
     process_loop E fuel maxId (timeEvents el) n (el, w) =
       (Ret (Some (n + k)), (el\<lparr>timeEvents := filter (\<lambda>te. \<not> fires E w maxId te) (timeEvents el)\<rparr>,
          fold (timer_effect seen fin) (filter (fires E w maxId) (timeEvents el)) w))"
proof (induction k arbitrary: el fuel n w)
  case 0
  then have none: "\<forall>te \<in> set (timeEvents el). \<not> fires E w maxId te"
    by (simp add: filter_empty_conv)
  then have "filter (\<lambda>te. \<not> fires E w maxId te) (timeEvents el) = timeEvents el" by (simp add: filter_id_conv)
  moreover obtain f where "fuel = length (timeEvents el) + f" using 0 by (auto simp: le_iff_add)
  ultimately show ?case using process_loop_prefix [OF E none, of f "[]" n el] none by (simp add: prog_simps filter_False)
next
  case (Suc k)
  then have "filter (fires E w maxId) (timeEvents el) \<noteq> []" by auto
  then obtain x where "x \<in> set (timeEvents el)" and "fires E w maxId x" by (auto simp: filter_empty_conv)
  then obtain pre te post where l: "timeEvents el = pre @ te # post" and te: "fires E w maxId te"
    and pre: "\<forall>y \<in> set pre. \<not> fires E w maxId y" by (metis split_list_first_prop)
  let ?el = "el\<lparr>timeEvents := pre @ post\<rparr>"
  have id: "te_id te \<notin> te_id ` set pre" using Suc.prems(1) by (simp add: l)
  let ?f = "fuel - Suc (length pre)"
  have "length pre + Suc ((k + 1) * length (pre @ post)) \<le> fuel"
    using Suc.prems(3) by (simp add: l algebra_simps)
  then have fuel: "fuel = length pre + Suc ?f" and f: "(k + 1) * length (pre @ post) \<le> ?f"
    by linarith+
  have f0: "filter (fires E w maxId) pre = []" using pre by (simp add: filter_empty_conv)
  let ?v = "timer_effect seen fin te w"
  have v: "fires E ?v = fires E w" by (rule fires_cong [OF timer_effect_now [OF E]])
  have "k = length (filter (fires E ?v maxId) (timeEvents ?el))" using Suc.prems(2) te by (simp add: l f0 v)
  moreover have "distinct (map te_id (timeEvents ?el))" using Suc.prems(1) by (auto simp: l)
  ultimately have IH: "process_loop E ?f maxId (pre @ post) (Suc n) (?el, ?v) =
      (Ret (Some (Suc n + k)), (?el\<lparr>timeEvents := filter (\<lambda>te. \<not> fires E w maxId te) (pre @ post)\<rparr>,
         fold (timer_effect seen fin) (filter (fires E w maxId) (pre @ post)) ?v))"
    using Suc.IH [of ?el ?v ?f "Suc n"] f by (simp add: v)
  have "process_loop E fuel maxId (timeEvents el) n (el, w) = process_loop E (Suc ?f) maxId (te # post) n (el, w)"
    by (subst fuel) (simp only: l process_loop_prefix [OF E pre])
  also have "\<dots> = process_loop E ?f maxId (pre @ post) (Suc n) (?el, ?v)"
    using te aeDeleteTimeEvent_one_shot [OF E id l]
    by (subst process_loop_due) (simp_all add: fires_def one_shotD [OF E] bnd_def ae_simps prog_simps timer_effect_def)
  finally show ?case using te by (simp add: IH l f0)
qed

section \<open>An event that repeats at once\<close>

text \<open>The clock does not run backwards, and every handler asks to be called again in 0 milliseconds.\<close>

definition repeats_at_once :: "('a, 'w) ae_env \<Rightarrow> bool" where
  "repeats_at_once E \<longleftrightarrow>
     (\<forall>w. now_of E w \<le> now_of E (snd (os_gettimeofday E w))) \<and>
     (\<forall>w. 0 \<le> due_ms (now_of E w) \<and> due_ms (now_of E w) < 1000) \<and>
     (\<forall>p i d el w. \<exists>w'. call_time E p i d (el, w) = (Ret 0, (el, w')) \<and> now_of E w \<le> now_of E w')"

lemma repeating_walk:
  assumes E: "repeats_at_once E"
  shows "timeEvents el = [te] \<Longrightarrow> sint (te_id te) \<le> sint maxId \<Longrightarrow> due_of te \<le> now_of E w \<Longrightarrow>
     fst (process_loop E fuel maxId [te] n (el, w)) = Ret None"
proof (induction fuel arbitrary: el te w n)
  case 0
  then show ?case by (simp add: prog_simps)
next
  case (Suc fuel)
  let ?w1 = "snd (os_gettimeofday E w)"
  from E obtain w2 where c: "call_time E (te_timeProc te) (te_id te) (te_clientData te) (el, ?w1) = (Ret 0, (el, w2))"
    and "now_of E ?w1 \<le> now_of E w2" by (meson repeats_at_once_def)
  let ?now = "now_of E w2" and ?w3 = "snd (os_gettimeofday E w2)"
  let ?te = "te\<lparr>te_when_sec := due_sec ?now, te_when_ms := due_ms ?now\<rparr>"
  have "\<not> 1000 \<le> due_ms ?now" using E by (meson repeats_at_once_def not_le)
  then have a: "add_ms 0 (due_sec ?now, due_ms ?now) = (due_sec ?now, due_ms ?now)" by (simp add: add_ms_def Let_def)
  have "due_of ?te = ?now" by (simp add: due_of_def)
  moreover have "?now \<le> now_of E ?w3" using E by (simp add: repeats_at_once_def)
  ultimately have "due_of ?te \<le> now_of E ?w3" by simp
  from Suc.IH [of "el\<lparr>timeEvents := [?te]\<rparr>" ?te ?w3 "Suc n", OF _ _ this] Suc.prems
  have IH: "fst (process_loop E fuel maxId [?te] (Suc n) (el\<lparr>timeEvents := [?te]\<rparr>, ?w3)) = Ret None" by simp
  have nm: "(0 :: c_int) \<noteq> AE_NOMORE" by (simp add: AE_NOMORE_def)
  have "process_loop E (Suc fuel) maxId [te] n (el, w) =
      process_loop E fuel maxId [?te] (Suc n) (el\<lparr>timeEvents := [?te]\<rparr>, ?w3)"
    using Suc.prems
    by (subst process_loop_due)
       (simp_all add: c nm bnd_def ae_simps prog_simps aeAddMillisecondsToNow_def aeGetTime_apply a)
  with IH show ?case by simp
qed

end
