(* ===== verification/Ae_Dispatch.thy ===== *)
theory Ae_Dispatch
  imports Ae
begin

unbundle bit_operations_syntax

text \<open>
  How a round of the event loop calls the handlers of the file events that fired (the middle of
  \<open>aeProcessEvents\<close> in \<open>cpp/src/ae.c\<close>): only while they are registered, whatever the handlers before them did
  to the loop; and, where handlers leave the loop alone, exactly those the table asks for, in order.
\<close>

section \<open>Handlers are registered when they are called\<close>

text \<open>A handler may be called for a fired event when it is the one registered for a direction that is both
  watched and fired, with the data registered with it.\<close>

definition registered :: "nat \<Rightarrow> int \<Rightarrow> nat \<Rightarrow> c_int \<Rightarrow> 'a aeEventLoop \<Rightarrow> bool" where
  "registered f fd cd m el \<longleftrightarrow> 0 \<le> fd \<and> nat fd < length (events el) \<and>
     (let fe = events el ! nat fd in fe_clientData fe = cd \<and>
       (fe_mask fe AND m AND AE_READABLE \<noteq> 0 \<and> fe_rfileProc fe = Some f \<or>
        fe_mask fe AND m AND AE_WRITABLE \<noteq> 0 \<and> fe_wfileProc fe = Some f))"

text \<open>The environment whose handlers fail unless they are registered at the moment of the call, and called for an
  event that \<open>P\<close> allows.\<close>

definition guarded :: "(int \<times> c_int \<Rightarrow> bool) \<Rightarrow> ('a, 'w) ae_env \<Rightarrow> ('a, 'w) ae_env" where
  "guarded P E = E\<lparr>call_file := (\<lambda>f fd cd m s.
     if P (fd, m) \<and> registered f fd cd m (fst s) then call_file E f fd cd m s else (Abrupt (Undef UseAfterFree), s))\<rparr>"

lemma guarded_fields [simp]:
  "api_poll (guarded P E) = api_poll E" "call_sleep (guarded P E) = call_sleep E" "call_time (guarded P E) = call_time E"
  "call_final (guarded P E) = call_final E" "os_time (guarded P E) = os_time E"
  "os_gettimeofday (guarded P E) = os_gettimeofday E"
  by (simp_all add: guarded_def)

text \<open>What the timers need of an environment.\<close>

definition same_timers :: "('a, 'w) ae_env \<Rightarrow> ('a, 'w) ae_env \<Rightarrow> bool" where
  "same_timers E E' \<longleftrightarrow> call_time E = call_time E' \<and> call_final E = call_final E' \<and> os_time E = os_time E' \<and>
     os_gettimeofday E = os_gettimeofday E'"

lemma same_timers_ops:
  assumes "same_timers E E'"
  shows "aeGetTime E = aeGetTime E'" "aeAddMillisecondsToNow E = aeAddMillisecondsToNow E'"
    "aeDeleteTimeEvent E = aeDeleteTimeEvent E'" "poll_timeout E = poll_timeout E'"
proof -
  have eqs: "call_final E = call_final E'" "os_gettimeofday E = os_gettimeofday E'"
    using assms by (simp_all add: same_timers_def)
  show t: "aeGetTime E = aeGetTime E'" by (simp add: aeGetTime_def eqs)
  show "aeAddMillisecondsToNow E = aeAddMillisecondsToNow E'" by (rule ext) (simp only: aeAddMillisecondsToNow_def t)
  show "aeDeleteTimeEvent E = aeDeleteTimeEvent E'" by (rule ext) (simp only: aeDeleteTimeEvent_def eqs)
  show "poll_timeout E = poll_timeout E'" by (rule ext) (simp only: poll_timeout_def t)
qed

lemma same_timers_loop: "same_timers E E' \<Longrightarrow> process_loop E fuel i tes n = process_loop E' fuel i tes n"
proof (induction fuel arbitrary: tes n)
  case 0
  then show ?case by (cases tes) simp_all
next
  case (Suc fuel)
  then have "call_time E = call_time E'" by (simp add: same_timers_def)
  with Suc show ?case by (cases tes) (simp_all only: process_loop.simps same_timers_ops [OF Suc.prems])
qed

lemma same_timers_round: "same_timers E E' \<Longrightarrow> processTimeEvents E = processTimeEvents E'"
  by (simp add: fun_eq_iff processTimeEvents_def same_timers_loop) (simp add: same_timers_def)

lemma guarded_same_timers: "same_timers (guarded P E) E"
  by (simp add: same_timers_def)

lemma file_event_cases:
  obtains "fd < 0 \<or> length (events el) \<le> nat fd" and "file_event fd (el, w) = (Abrupt (Undef OutOfBounds), (el, w))"
  | "0 \<le> fd" and "nat fd < length (events el)" and "file_event fd (el, w) = (Ret (events el ! nat fd), (el, w))"
  by (cases "fd < 0 \<or> length (events el) \<le> nat fd") (auto simp: file_event_def ae_simps prog_simps)

lemma run_proc_guarded:
  assumes "\<And>f. p = Some f \<Longrightarrow> registered f fd cd m el"
    and "P (fd, m)"
  shows "run_proc (guarded P E) p fd cd m (el, w) = run_proc E p fd cd m (el, w)"
  using assms by (cases p) (simp_all add: run_proc_def guarded_def)

lemma fire_guarded:
  fixes E :: "('a, 'w) ae_env"
  assumes "P (fired el ! j)"
  shows "fire (guarded P E) j (el, w) = fire E j (el, w)"
proof -
  obtain fd m where j: "fired el ! j = (fd, m)" by fastforce
  with assms have P: "P (fd, m)" by simp
  let ?second = "\<lambda>E :: ('a, 'w) ae_env. \<lambda>b. bnd (file_event fd) (\<lambda>fe.
      if fe_mask fe AND m AND AE_WRITABLE \<noteq> 0 \<and> (\<not> b \<or> fe_wfileProc fe \<noteq> fe_rfileProc fe)
      then run_proc E (fe_wfileProc fe) fd (fe_clientData fe) m else ret ())"
  have second: "?second (guarded P E) b = ?second E b" for b
  proof (rule ext, clarify)
    fix el :: "'a aeEventLoop" and w :: 'w
    show "?second (guarded P E) b (el, w) = ?second E b (el, w)"
      by (rule file_event_cases [of fd el w]) (auto simp: bnd_def registered_def Let_def P intro!: run_proc_guarded)
  qed
  show ?thesis
  proof (rule file_event_cases [of fd el w])
    assume r: "0 \<le> fd" "nat fd < length (events el)" and e: "file_event fd (el, w) = (Ret (events el ! nat fd), (el, w))"
    let ?fe = "events el ! nat fd"
    have "run_proc (guarded P E) (fe_rfileProc ?fe) fd (fe_clientData ?fe) m (el, w) =
        run_proc E (fe_rfileProc ?fe) fd (fe_clientData ?fe) m (el, w)" if "fe_mask ?fe AND m AND AE_READABLE \<noteq> 0"
      using r that by (intro run_proc_guarded) (simp_all add: registered_def P)
    then show ?thesis
      using second [of True] second [of False]
      by (auto simp: fire_def bnd_getel j bnd_def [of "file_event fd"] e andthen_def Let_def intro!: bnd_at_cong)
  qed (simp add: fire_def bnd_getel j bnd_def [of "file_event fd"])
qed

lemma aeProcessEvents_guarded: "aeProcessEvents (guarded (\<lambda>e. True) E) = aeProcessEvents E"
proof -
  have "fire (guarded (\<lambda>e. True) E) = fire E" by (intro ext) (auto simp: fire_guarded)
  then show ?thesis
    by (intro ext) (simp only: aeProcessEvents_def guarded_fields same_timers_ops [OF guarded_same_timers]
        same_timers_round [OF guarded_same_timers])
qed

lemma main_loop_guarded: "main_loop (guarded (\<lambda>e. True) E) fuel = main_loop E fuel"
  by (induction fuel) (simp_all only: main_loop.simps aeProcessEvents_guarded guarded_fields)

section \<open>The calls of a round\<close>

text \<open>What a fired event asks for: every handler registered for a direction that is watched and fired, the
  one for reading first, and once where one handler serves both.\<close>

definition due_calls :: "aeFileEvent list \<Rightarrow> int \<times> c_int \<Rightarrow> (nat \<times> int \<times> nat \<times> c_int) list" where
  "due_calls evs = (\<lambda>(fd, m).
     let fe = evs ! nat fd;
         on = (\<lambda>b p. if fe_mask fe AND m AND b \<noteq> 0 then [p] else [])
     in map (\<lambda>p. (the p, fd, fe_clientData fe, m))
          (remdups (on AE_READABLE (fe_rfileProc fe) @ on AE_WRITABLE (fe_wfileProc fe))))"

text \<open>An event for a descriptor of the table whose handlers are there for what it watches.\<close>

definition ready :: "aeFileEvent list \<Rightarrow> int \<Rightarrow> bool" where
  "ready evs fd \<longleftrightarrow> 0 \<le> fd \<and> nat fd < length evs \<and>
     (fe_mask (evs ! nat fd) AND AE_READABLE \<noteq> 0 \<longrightarrow> fe_rfileProc (evs ! nat fd) \<noteq> None) \<and>
     (fe_mask (evs ! nat fd) AND AE_WRITABLE \<noteq> 0 \<longrightarrow> fe_wfileProc (evs ! nat fd) \<noteq> None)"

lemma mask_part: "a AND m AND b \<noteq> 0 \<Longrightarrow> a AND b \<noteq> (0 :: c_int)"
  by (auto simp: and.left_commute [of a])

text \<open>Handlers that leave the table and the array of fired events as they are; \<open>h\<close> is what they do.\<close>

definition table_kept :: "('a, 'w) ae_env \<Rightarrow> (nat \<Rightarrow> int \<Rightarrow> nat \<Rightarrow> c_int \<Rightarrow> ('a, 'w) lst \<Rightarrow> ('a, 'w) lst) \<Rightarrow> bool" where
  "table_kept E h \<longleftrightarrow> (\<forall>f fd cd m s. call_file E f fd cd m s = (Ret (), h f fd cd m s) \<and>
     events (fst (h f fd cd m s)) = events (fst s) \<and> fired (fst (h f fd cd m s)) = fired (fst s))"

lemma table_keptD:
  assumes "table_kept E h"
  shows "call_file E f fd cd m s = (Ret (), h f fd cd m s)"
    and "events (fst (h f fd cd m s)) = events (fst s)" and "fired (fst (h f fd cd m s)) = fired (fst s)"
  using assms unfolding table_kept_def by blast+

text \<open>The effect of a list of calls, one after the other.\<close>

definition calls_effect ::
  "(nat \<Rightarrow> int \<Rightarrow> nat \<Rightarrow> c_int \<Rightarrow> ('a, 'w) lst \<Rightarrow> ('a, 'w) lst) \<Rightarrow> (nat \<times> int \<times> nat \<times> c_int) list \<Rightarrow>
   ('a, 'w) lst \<Rightarrow> ('a, 'w) lst" where
  "calls_effect h = fold (\<lambda>(f, fd, cd, m). h f fd cd m)"

lemma calls_effect_simps [simp]:
  "calls_effect h [] s = s" "calls_effect h ((f, fd, cd, m) # cs) s = calls_effect h cs (h f fd cd m s)"
  "calls_effect h (cs @ ds) s = calls_effect h ds (calls_effect h cs s)"
  by (simp_all add: calls_effect_def)

lemma calls_effect_kept:
  assumes "table_kept E h"
  shows "events (fst (calls_effect h cs s)) = events (fst s) \<and> fired (fst (calls_effect h cs s)) = fired (fst s)"
proof (induction cs arbitrary: s)
  case (Cons c cs)
  obtain f fd cd m where c: "c = (f, fd, cd, m)" by (cases c)
  from Cons.IH [of "h f fd cd m s"] table_keptD(2,3) [OF assms, of f fd cd m s] show ?case by (simp add: c)
qed simp

lemma fire_observed:
  assumes h: "table_kept E h" and j: "fired (fst s) ! j = (fd, m)" and "ready (events (fst s)) fd"
  shows "fire E j s = (Ret (), calls_effect h (due_calls (events (fst s)) (fd, m)) s)"
proof -
  let ?evs = "events (fst s)" and ?fe = "events (fst s) ! nat fd"
  have fe: "file_event fd t = (Ret ?fe, t)" if "events (fst t) = ?evs" for t
    using assms(3) that by (cases t) (auto simp: file_event_def ae_simps prog_simps ready_def)
  have run: "run_proc E p fd cd m t = (Ret (), h (the p) fd cd m t)" if "p \<noteq> None" for p cd t
    using that by (auto simp: run_proc_def table_keptD(1) [OF h])
  note kept = table_keptD(2) [OF h]
  have "fe_mask ?fe AND m AND AE_READABLE \<noteq> 0 \<Longrightarrow> fe_rfileProc ?fe \<noteq> None"
    "fe_mask ?fe AND m AND AE_WRITABLE \<noteq> 0 \<Longrightarrow> fe_wfileProc ?fe \<noteq> None"
    using assms(3) mask_part by (auto simp: ready_def)
  note procs = this [THEN run]
  have j': "bnd (getel (\<lambda>el. fired el ! j)) g s = g (fd, m) s" for g :: "_ \<Rightarrow> (_, unit) prog"
    using j by (cases s) (simp add: bnd_getel)
  show ?thesis
  proof (cases "fe_mask ?fe AND m AND AE_READABLE \<noteq> 0")
    case True
    have r: "fire E j s = (if fe_mask ?fe AND m AND AE_WRITABLE \<noteq> 0 \<and> fe_wfileProc ?fe \<noteq> fe_rfileProc ?fe
        then run_proc E (fe_wfileProc ?fe) fd (fe_clientData ?fe) m else ret ())
        (h (the (fe_rfileProc ?fe)) fd (fe_clientData ?fe) m s)"
      using True by (simp add: fire_def j' andthen_def Let_def bnd_def [of "file_event fd"] fe kept
          bnd_def [of "run_proc E p a c d" for p a c d] procs(1) [OF True])
    show ?thesis using True procs(2) by (auto simp: r due_calls_def Let_def prog_simps)
  next
    case False
    have r: "fire E j s = (if fe_mask ?fe AND m AND AE_WRITABLE \<noteq> 0
        then run_proc E (fe_wfileProc ?fe) fd (fe_clientData ?fe) m else ret ()) s"
      using False by (simp add: fire_def j' andthen_def Let_def bnd_def [of "file_event fd"] fe
          bnd_def [of "ret ()"] prog_simps)
    show ?thesis using False procs(2) by (auto simp: r due_calls_def Let_def prog_simps)
  qed
qed

lemma fires_observed:
  assumes h: "table_kept E h" and "\<forall>j \<in> set js. ready (events (fst s)) (fst (fired (fst s) ! j))"
  shows "\<exists>us. mapM_prog (fire E) js s =
    (Ret us, calls_effect h (concat (map (\<lambda>j. due_calls (events (fst s)) (fired (fst s) ! j)) js)) s)"
  using assms(2)
proof (induction js arbitrary: s)
  case Nil
  then show ?case by (simp add: prog_simps)
next
  case (Cons j js)
  obtain fd m where j: "fired (fst s) ! j = (fd, m)" by fastforce
  with Cons.prems have "ready (events (fst s)) fd" by simp
  note one = fire_observed [OF h j this]
  let ?s = "calls_effect h (due_calls (events (fst s)) (fd, m)) s"
  note k = calls_effect_kept [OF h, of "due_calls (events (fst s)) (fd, m)" s]
  from Cons.IH [of ?s] Cons.prems k obtain us where
    "mapM_prog (fire E) js ?s =
      (Ret us, calls_effect h (concat (map (\<lambda>j. due_calls (events (fst s)) (fired (fst s) ! j)) js)) ?s)" by auto
  with one show ?case by (simp add: bnd_def prog_simps j)
qed

end
