(* ===== verification/Ae_Backends.thy ===== *)
theory Ae_Backends
  imports Ae
begin

unbundle bit_operations_syntax

text \<open>
  The contract between the event loop and the multiplexer below it, as the locale \<open>ae_backend\<close>: what
  the multiplexer watches is what the loop's table says. The two multiplexers of the repository,
  \<open>cpp/src/ae_epoll.c\<close> and \<open>cpp/src/ae_select.c\<close>, provide it.
\<close>

section \<open>The invariant of the table\<close>

definition valid_mask :: "c_int \<Rightarrow> bool" where
  "valid_mask m \<longleftrightarrow> m AND (AE_READABLE OR AE_WRITABLE) = m"

text \<open>\<open>maxfd\<close> is the highest descriptor in use, and the masks have no other bits.\<close>

definition loop_ok :: "'a aeEventLoop \<Rightarrow> bool" where
  "loop_ok el \<longleftrightarrow>
     0 \<le> setsize el \<and> length (events el) = nat (setsize el) \<and>
     (\<forall>fe \<in> set (events el). valid_mask (fe_mask fe)) \<and>
     maxfd el = find_maxfd (events el) (length (events el))"

definition fd_mask :: "'a aeEventLoop \<Rightarrow> int \<Rightarrow> c_int" where
  "fd_mask el fd = (if 0 \<le> fd \<and> fd < setsize el then fe_mask (events el ! nat fd) else AE_NONE)"

lemma apidata_frame [simp]:
  "fd_mask (el\<lparr>apidata := d\<rparr>) = fd_mask el" "loop_ok (el\<lparr>apidata := d\<rparr>) = loop_ok el"
  by (auto simp: fd_mask_def loop_ok_def)

lemma find_maxfd_bounds: "- 1 \<le> find_maxfd evs n" "find_maxfd evs n < int n"
  by (induction n) auto

lemma find_maxfd_used: "find_maxfd evs n = int j \<Longrightarrow> fe_mask (evs ! j) \<noteq> AE_NONE"
  by (induction n) (auto split: if_splits)

lemma find_maxfd_above: "j < n \<Longrightarrow> find_maxfd evs n < int j \<Longrightarrow> fe_mask (evs ! j) = AE_NONE"
  by (induction n) (auto split: if_splits simp: less_Suc_eq)

lemma find_maxfd_unique:
  assumes "- 1 \<le> m" and "m < int n" and "\<And>j. j < n \<Longrightarrow> m < int j \<Longrightarrow> fe_mask (evs ! j) = AE_NONE"
    and "0 \<le> m \<Longrightarrow> fe_mask (evs ! nat m) \<noteq> AE_NONE"
  shows "find_maxfd evs n = m"
proof -
  let ?f = "find_maxfd evs n"
  have "\<not> ?f < m"
  proof
    assume "?f < m"
    then have "0 \<le> m" using find_maxfd_bounds(1) [of evs n] by linarith
    moreover from this have "nat m < n" using assms(2) by linarith
    ultimately show False using \<open>?f < m\<close> find_maxfd_above [of "nat m" n evs] assms(4) by auto
  qed
  moreover have "\<not> m < ?f"
  proof
    assume "m < ?f"
    then have "?f = int (nat ?f)" "nat ?f < n" using assms(1) find_maxfd_bounds(2) [of evs n] by linarith+
    with assms(3) [of "nat ?f"] find_maxfd_used [of evs n "nat ?f"] \<open>m < ?f\<close> show False by auto
  qed
  ultimately show ?thesis by linarith
qed

lemma find_maxfd_cong:
  "(\<And>j. j < n \<Longrightarrow> fe_mask (evs ! j) = fe_mask (evs' ! j)) \<Longrightarrow> find_maxfd evs n = find_maxfd evs' n"
  by (induction n) auto

text \<open>Adding and removing one descriptor's events.\<close>

lemma find_maxfd_add:
  assumes "k < length evs" and "fe_mask fe \<noteq> AE_NONE"
  shows "find_maxfd (evs[k := fe]) (length evs) = max (int k) (find_maxfd evs (length evs))"
proof (rule find_maxfd_unique)
  let ?f = "find_maxfd evs (length evs)"
  show "- 1 \<le> max (int k) ?f" and "max (int k) ?f < int (length evs)"
    using assms(1) find_maxfd_bounds [of evs "length evs"] by auto
  show "fe_mask (evs[k := fe] ! j) = AE_NONE" if "j < length evs" "max (int k) ?f < int j" for j
    using that find_maxfd_above [of j "length evs" evs] by simp
  show "fe_mask (evs[k := fe] ! nat (max (int k) ?f)) \<noteq> AE_NONE"
    using assms find_maxfd_used [of evs "length evs" "nat ?f"]
    by (cases "?f \<le> int k") (auto simp: max_def nth_list_update)
qed

lemma find_maxfd_remove:
  assumes "k < length evs" and m: "find_maxfd evs (length evs) = int k" and n: "fe_mask fe = AE_NONE"
  shows "find_maxfd (evs[k := fe]) (length evs) = find_maxfd (evs[k := fe]) k"
proof (rule find_maxfd_unique)
  let ?e = "evs[k := fe]"
  show "- 1 \<le> find_maxfd ?e k" and "find_maxfd ?e k < int (length evs)"
    using assms(1) find_maxfd_bounds [of ?e k] by auto
  show "fe_mask (?e ! j) = AE_NONE" if "j < length evs" "find_maxfd ?e k < int j" for j
  proof -
    consider "j < k" | "j = k" | "k < j" by linarith
    then show ?thesis
    proof cases
      case 1
      with that(2) show ?thesis by (intro find_maxfd_above)
    next
      case 2
      with assms show ?thesis by simp
    next
      case 3
      with that(1) m find_maxfd_above [of j "length evs" evs] show ?thesis by simp
    qed
  qed
  show "fe_mask (?e ! nat (find_maxfd ?e k)) \<noteq> AE_NONE" if "0 \<le> find_maxfd ?e k"
    using that find_maxfd_used [of ?e k "nat (find_maxfd ?e k)"] by simp
qed

lemma find_maxfd_keep:
  assumes "k < length evs" and "fe_mask fe = AE_NONE \<Longrightarrow> find_maxfd evs (length evs) \<noteq> int k"
    and "fe_mask (evs ! k) \<noteq> AE_NONE"
  shows "find_maxfd (evs[k := fe]) (length evs) = find_maxfd evs (length evs)"
proof (rule find_maxfd_unique)
  let ?f = "find_maxfd evs (length evs)"
  show "- 1 \<le> ?f" and "?f < int (length evs)" using find_maxfd_bounds [of evs "length evs"] by auto
  have "int k \<le> ?f" using find_maxfd_above [OF assms(1)] assms(3) by force
  then show "fe_mask (evs[k := fe] ! j) = AE_NONE" if "j < length evs" "?f < int j" for j
    using that find_maxfd_above [of j "length evs" evs] by simp
  show "fe_mask (evs[k := fe] ! nat ?f) \<noteq> AE_NONE" if "0 \<le> ?f"
    using that assms find_maxfd_used [of evs "length evs" "nat ?f"] find_maxfd_bounds(2) [of evs "length evs"]
    by (cases "nat ?f = k") auto
qed

section \<open>Lemmas: masks and single operations\<close>

lemma valid_mask_or: "valid_mask a \<Longrightarrow> valid_mask b \<Longrightarrow> valid_mask (a OR b)"
  by (simp add: valid_mask_def bit.conj_disj_distrib2)

lemma valid_mask_and: "valid_mask a \<Longrightarrow> valid_mask (a AND b)"
  unfolding valid_mask_def by (metis and.assoc and.commute)

lemma or_not_none: "b \<noteq> AE_NONE \<Longrightarrow> a OR b \<noteq> (AE_NONE :: c_int)"
  by (auto simp: AE_NONE_def or_eq_0_iff)


text \<open>The table entry after an addition.\<close>

definition registered :: "c_int \<Rightarrow> nat \<Rightarrow> nat \<Rightarrow> aeFileEvent \<Rightarrow> aeFileEvent" where
  "registered m proc cd fe =
     \<lparr>fe_mask = fe_mask fe OR m,
      fe_rfileProc = (if m AND AE_READABLE \<noteq> 0 then Some proc else fe_rfileProc fe),
      fe_wfileProc = (if m AND AE_WRITABLE \<noteq> 0 then Some proc else fe_wfileProc fe),
      fe_clientData = cd\<rparr>"

lemma aeCreateFileEvent_out_of_range:
  "setsize el \<le> fd \<Longrightarrow> aeCreateFileEvent E fd m proc cd (el, w) = (Ret AE_ERR, (el, w))"
  by (simp add: aeCreateFileEvent_def ae_simps prog_simps)

lemma aeCreateFileEvent_refused:
  assumes "0 \<le> fd" "fd < setsize el" "length (events el) = nat (setsize el)"
    and "api_add E fd m (el, w) = (Ret (- 1), s')"
  shows "aeCreateFileEvent E fd m proc cd (el, w) = (Ret AE_ERR, s')"
  using assms by (simp add: aeCreateFileEvent_def file_event_def ae_simps prog_simps bnd_def [of "api_add x y z" for x y z])

lemma aeCreateFileEvent_done:
  assumes "0 \<le> fd" "fd < setsize el" "length (events el) = nat (setsize el)"
    and "api_add E fd m (el, w) = (Ret r, (el\<lparr>apidata := d\<rparr>, w'))" and "r \<noteq> - 1"
  shows "aeCreateFileEvent E fd m proc cd (el, w) =
    (Ret AE_OK, (el\<lparr>apidata := d, events := (events el)[nat fd := registered m proc cd (events el ! nat fd)],
                   maxfd := max fd (maxfd el)\<rparr>, w'))"
proof -
  have "nat fd < length (events el)" using assms(1-3) by simp
  then show ?thesis
    using assms by (cases "events el ! nat fd")
      (auto simp: aeCreateFileEvent_def file_event_def ae_simps prog_simps set_file_event_def registered_def
        bnd_def [of "api_add x y z" for x y z] max_def)
qed

text \<open>The loop a removal leaves to the multiplexer.\<close>

definition unregistered :: "int \<Rightarrow> c_int \<Rightarrow> 'a aeEventLoop \<Rightarrow> 'a aeEventLoop" where
  "unregistered fd m el =
     (let fe = events el ! nat fd; fe' = fe\<lparr>fe_mask := fe_mask fe AND NOT m\<rparr>;
          evs = (events el)[nat fd := fe']
      in el\<lparr>events := evs,
            maxfd := (if fd = maxfd el \<and> fe_mask fe' = AE_NONE then find_maxfd evs (nat fd) else maxfd el)\<rparr>)"

lemma aeDeleteFileEvent_unused:
  assumes "setsize el \<le> fd \<or> (0 \<le> fd \<and> length (events el) = nat (setsize el) \<and> fd_mask el fd = AE_NONE)"
  shows "aeDeleteFileEvent E fd m (el, w) = (Ret (), (el, w))"
  using assms by (auto simp: aeDeleteFileEvent_def file_event_def ae_simps prog_simps fd_mask_def)

lemma aeDeleteFileEvent_used:
  assumes "0 \<le> fd" "fd < setsize el" "length (events el) = nat (setsize el)" "fd_mask el fd \<noteq> AE_NONE"
  shows "aeDeleteFileEvent E fd m (el, w) = api_del E fd m (unregistered fd m el, w)"
proof -
  have "nat fd < length (events el)" using assms(1-3) by simp
  then show ?thesis
    using assms by (auto simp: aeDeleteFileEvent_def file_event_def ae_simps prog_simps set_file_event_def
        unregistered_def fd_mask_def Let_def)
qed

lemma loop_ok_registered:
  fixes el :: "'a aeEventLoop" and d :: 'a and proc cd :: nat
  assumes ok: "loop_ok el" and fd: "0 \<le> fd" "fd < setsize el" and m: "valid_mask m" "m \<noteq> AE_NONE"
  defines "el' \<equiv> el\<lparr>apidata := d, events := (events el)[nat fd := registered m proc cd (events el ! nat fd)],
                    maxfd := max fd (maxfd el)\<rparr>"
  shows "loop_ok el'" and "fd_mask el' x = (if x = fd then fd_mask el fd OR m else fd_mask el x)"
proof -
  let ?fe = "registered m proc cd (events el ! nat fd)"
  have len: "length (events el) = nat (setsize el)" and k: "nat fd < length (events el)"
    using ok fd by (auto simp: loop_ok_def)
  have "fe_mask ?fe \<noteq> AE_NONE" using m(2) by (simp add: registered_def or_not_none)
  from find_maxfd_add [OF k this] have "maxfd el' = find_maxfd (events el') (length (events el'))"
    using ok fd by (simp add: el'_def loop_ok_def)
  moreover have "valid_mask (fe_mask ?fe)"
    using ok k m(1) by (simp add: registered_def loop_ok_def valid_mask_or)
  then have "\<forall>fe \<in> set (events el'). valid_mask (fe_mask fe)"
    using ok set_update_subset_insert [of "events el" "nat fd" ?fe] by (auto simp: el'_def loop_ok_def)
  ultimately show "loop_ok el'" using ok by (simp add: loop_ok_def el'_def)
  show "fd_mask el' x = (if x = fd then fd_mask el fd OR m else fd_mask el x)"
    using fd k by (auto simp: fd_mask_def el'_def registered_def nth_list_update eq_nat_nat_iff)
qed

lemma loop_ok_unregistered:
  assumes ok: "loop_ok el" and fd: "0 \<le> fd" "fd < setsize el" and used: "fd_mask el fd \<noteq> AE_NONE"
  shows "loop_ok (unregistered fd m el)"
    and "fd_mask (unregistered fd m el) x = (if x = fd then fd_mask el fd AND NOT m else fd_mask el x)"
proof -
  let ?fe = "events el ! nat fd" and ?el = "unregistered fd m el"
  let ?fe' = "?fe\<lparr>fe_mask := fe_mask ?fe AND NOT m\<rparr>"
  have len: "length (events el) = nat (setsize el)" and k: "nat fd < length (events el)"
    and mx: "maxfd el = find_maxfd (events el) (length (events el))"
    using ok fd by (auto simp: loop_ok_def)
  have u: "fe_mask ?fe \<noteq> AE_NONE" using used fd by (simp add: fd_mask_def)
  have "maxfd ?el = find_maxfd (events ?el) (length (events ?el))"
  proof (cases "fd = maxfd el \<and> fe_mask ?fe' = AE_NONE")
    case True
    then have "find_maxfd (events el) (length (events el)) = int (nat fd)" using fd mx by simp
    from find_maxfd_remove [OF k this conjunct2 [OF True]]
    show ?thesis unfolding unregistered_def Let_def if_P [OF True] by simp
  next
    case False
    with fd mx have "fe_mask ?fe' = AE_NONE \<Longrightarrow> find_maxfd (events el) (length (events el)) \<noteq> int (nat fd)"
      by auto
    from find_maxfd_keep [where fe = ?fe', OF k this u] mx
    show ?thesis unfolding unregistered_def Let_def if_not_P [OF False] by simp
  qed
  moreover have "valid_mask (fe_mask ?fe')" using ok k by (simp add: loop_ok_def valid_mask_and)
  then have "\<forall>fe \<in> set (events ?el). valid_mask (fe_mask fe)"
    using ok set_update_subset_insert [of "events el" "nat fd" ?fe']
    by (auto simp: unregistered_def Let_def loop_ok_def)
  ultimately show "loop_ok ?el" using ok by (simp add: loop_ok_def unregistered_def Let_def)
  show "fd_mask ?el x = (if x = fd then fd_mask el fd AND NOT m else fd_mask el x)"
    using fd k by (auto simp: fd_mask_def unregistered_def Let_def nth_list_update eq_nat_nat_iff)
qed

lemma fd_mask_valid: "loop_ok el \<Longrightarrow> valid_mask (fd_mask el fd)"
  by (auto simp: loop_ok_def fd_mask_def valid_mask_def AE_NONE_def)

section \<open>The interface\<close>

text \<open>
  \<open>watched d w fd\<close>: the mask the multiplexer with data \<open>d\<close> watches \<open>fd\<close> for. \<open>lim\<close> bounds the table
  size it can serve, and \<open>env_ok\<close> says what it needs of the system. An addition may be refused; a removal, called when the table is already updated,
  is not.
\<close>

definition in_step :: "('a \<Rightarrow> 'w \<Rightarrow> int \<Rightarrow> c_int) \<Rightarrow> ('a, 'w) lst \<Rightarrow> bool" where
  "in_step watched = (\<lambda>(el, w). \<forall>fd. 0 \<le> fd \<and> fd < setsize el \<longrightarrow> watched (apidata el) w fd = fd_mask el fd)"

locale ae_backend =
  fixes E :: "('a, 'w) ae_env"
    and watched :: "'a \<Rightarrow> 'w \<Rightarrow> int \<Rightarrow> c_int"
    and lim :: int
    and env_ok :: bool
  assumes add_law: "env_ok \<Longrightarrow> loop_ok el \<Longrightarrow> setsize el \<le> lim \<Longrightarrow> in_step watched (el, w) \<Longrightarrow> 0 \<le> fd \<Longrightarrow> fd < setsize el \<Longrightarrow>
      valid_mask m \<Longrightarrow> m \<noteq> AE_NONE \<Longrightarrow>
      \<exists>r d w'. api_add E fd m (el, w) = (Ret r, (el\<lparr>apidata := d\<rparr>, w')) \<and>
        (if r = - 1 then (\<forall>x. watched d w' x = watched (apidata el) w x)
         else watched d w' fd = watched (apidata el) w fd OR m \<and>
              (\<forall>x. x \<noteq> fd \<longrightarrow> watched d w' x = watched (apidata el) w x))"
    and del_law: "env_ok \<Longrightarrow> setsize el \<le> lim \<Longrightarrow> length (events el) = nat (setsize el) \<Longrightarrow> 0 \<le> fd \<Longrightarrow> fd < setsize el \<Longrightarrow>
      valid_mask (watched (apidata el) w fd) \<Longrightarrow> watched (apidata el) w fd \<noteq> AE_NONE \<Longrightarrow>
      fd_mask el fd = watched (apidata el) w fd AND NOT m \<Longrightarrow>
      \<exists>d w'. api_del E fd m (el, w) = (Ret (), (el\<lparr>apidata := d\<rparr>, w')) \<and>
        watched d w' fd = watched (apidata el) w fd AND NOT m \<and>
        (\<forall>x. x \<noteq> fd \<longrightarrow> watched d w' x = watched (apidata el) w x)"
begin

definition served :: "('a, 'w) lst \<Rightarrow> bool" where
  "served s \<longleftrightarrow> env_ok \<and> loop_ok (fst s) \<and> setsize (fst s) \<le> lim \<and> in_step watched s"

text \<open>Registering: it works and takes effect, or fails and changes nothing.\<close>

lemma create_served:
  assumes S: "served (el, w)" and fd: "0 \<le> fd" and m: "valid_mask m" "m \<noteq> AE_NONE"
  shows "\<exists>r el' w'. aeCreateFileEvent E fd m proc cd (el, w) = (Ret r, (el', w')) \<and> served (el', w') \<and>
    setsize el' = setsize el \<and> (r = AE_OK \<and> fd < setsize el \<and> (\<forall>x. fd_mask el' x = (if x = fd then fd_mask el fd OR m else fd_mask el x)) \<or>
     r = AE_ERR \<and> (\<forall>x. fd_mask el' x = fd_mask el x))"
proof (cases "fd < setsize el")
  case False
  then show ?thesis using S by (simp add: aeCreateFileEvent_out_of_range)
next
  case True
  from S have env: env_ok and ok: "loop_ok el" and lim: "setsize el \<le> lim" and st: "in_step watched (el, w)"
    and len: "length (events el) = nat (setsize el)" by (auto simp: served_def loop_ok_def)
  from add_law [OF env ok lim st fd True m] obtain r d w' where
    a: "api_add E fd m (el, w) = (Ret r, (el\<lparr>apidata := d\<rparr>, w'))"
    and refused: "r = - 1 \<Longrightarrow> \<forall>x. watched d w' x = watched (apidata el) w x"
    and added: "r \<noteq> - 1 \<Longrightarrow> watched d w' fd = watched (apidata el) w fd OR m \<and>
              (\<forall>x. x \<noteq> fd \<longrightarrow> watched d w' x = watched (apidata el) w x)" by metis
  show ?thesis
  proof (cases "r = - 1")
    case r: True
    with aeCreateFileEvent_refused [OF fd True len] a
    have "aeCreateFileEvent E fd m proc cd (el, w) = (Ret AE_ERR, (el\<lparr>apidata := d\<rparr>, w'))" by simp
    moreover have "served (el\<lparr>apidata := d\<rparr>, w')"
      unfolding served_def using env ok lim st refused [OF r] by (simp add: in_step_def)
    ultimately show ?thesis by auto
  next
    case r: False
    let ?el = "el\<lparr>apidata := d, events := (events el)[nat fd := registered m proc cd (events el ! nat fd)],
                  maxfd := max fd (maxfd el)\<rparr>"
    note reg = loop_ok_registered [OF ok fd True m, where d = d and proc = proc and cd = cd]
    have "served (?el, w')"
      unfolding served_def using env reg added [OF r] lim st fd True by (simp add: in_step_def)
    moreover have "setsize ?el = setsize el" by simp
    ultimately show ?thesis using aeCreateFileEvent_done [OF fd True len a r] reg(2) True by blast
  qed
qed

text \<open>Removing takes effect.\<close>

lemma delete_served:
  assumes S: "served (el, w)" and fd: "0 \<le> fd"
  shows "\<exists>el' w'. aeDeleteFileEvent E fd m (el, w) = (Ret (), (el', w')) \<and> served (el', w') \<and>
    setsize el' = setsize el \<and> el_stop el' = el_stop el \<and>
    (\<forall>x. fd_mask el' x = (if x = fd then fd_mask el fd AND NOT m else fd_mask el x))"
proof -
  from S have env: env_ok and ok: "loop_ok el" and lim: "setsize el \<le> lim" and st: "in_step watched (el, w)"
    and len: "length (events el) = nat (setsize el)" by (auto simp: served_def loop_ok_def)
  show ?thesis
  proof (cases "setsize el \<le> fd \<or> fd_mask el fd = AE_NONE")
    case True
    then have "fd_mask el fd = AE_NONE" by (auto simp: fd_mask_def)
    with S aeDeleteFileEvent_unused [of el fd E m w] True fd len show ?thesis
      by (auto simp: AE_NONE_def)
  next
    case False
    then have lt: "fd < setsize el" and used: "fd_mask el fd \<noteq> AE_NONE" by auto
    let ?el = "unregistered fd m el"
    note un = loop_ok_unregistered [OF ok fd lt used, of m]
    have frame: "setsize ?el = setsize el" "apidata ?el = apidata el" "el_stop ?el = el_stop el" by (simp_all add: unregistered_def Let_def)
    have wf: "watched (apidata el) w fd = fd_mask el fd" using st fd lt by (simp add: in_step_def)
    have "valid_mask (watched (apidata el) w fd)" using ok by (simp add: wf fd_mask_valid)
    then obtain d w' where
      a: "api_del E fd m (?el, w) = (Ret (), (?el\<lparr>apidata := d\<rparr>, w'))"
      and d: "watched d w' fd = watched (apidata el) w fd AND NOT m"
        "\<forall>x. x \<noteq> fd \<longrightarrow> watched d w' x = watched (apidata el) w x"
      using del_law [OF env, of ?el fd w m] un(1) frame lim fd lt used un(2) [of fd] wf by (auto simp: loop_ok_def)
    have "served (?el\<lparr>apidata := d\<rparr>, w')"
      unfolding served_def using env un d st frame lim wf by (auto simp: in_step_def)
    with aeDeleteFileEvent_used [OF fd lt len used, of E m w] a un(2) frame(1,3) show ?thesis by auto
  qed
qed

end


end
