(* ===== verification/Ae_Multiplexers.thy ===== *)
theory Ae_Multiplexers
  imports Ae_Backends
begin

unbundle bit_operations_syntax

text \<open>
  The two multiplexers of the event loop: \<open>cpp/src/ae_epoll.c\<close>, over the kernel's interest list, and
  \<open>cpp/src/ae_select.c\<close>, over two descriptor sets of its own. The system calls are parameters; for
  \<open>epoll_ctl\<close> the laws used are those of its manual page.
\<close>

section \<open>Bits of a mask\<close>

lemma bit_READABLE: "m AND AE_READABLE \<noteq> 0 \<longleftrightarrow> bit m 0"
  using and_exp_eq_0_iff_not_bit [of m 0] by (simp add: AE_READABLE_def)

lemma bit_WRITABLE: "m AND AE_WRITABLE \<noteq> 0 \<longleftrightarrow> bit m 1"
  using and_exp_eq_0_iff_not_bit [of m 1] by (simp add: AE_WRITABLE_def)

definition mask_of :: "bool \<Rightarrow> bool \<Rightarrow> c_int" where
  "mask_of r w = (if r then AE_READABLE else 0) OR (if w then AE_WRITABLE else 0)"

lemma bit_mask_of: "bit (mask_of r w) n \<longleftrightarrow> (n = 0 \<and> r) \<or> (n = 1 \<and> w)"
proof -
  have "bit (2 :: c_int) n \<longleftrightarrow> n = 1" using bit_exp_iff [of 1 n, where ?'a = c_int] by auto
  then show ?thesis by (auto simp: mask_of_def AE_READABLE_def AE_WRITABLE_def bit_or_iff bit_1_iff)
qed

lemma valid_bits: "valid_mask m \<Longrightarrow> bit m n \<Longrightarrow> n = 0 \<or> n = 1"
proof -
  assume "valid_mask m" and "bit m n"
  then have "bit (mask_of True True) n" by (simp add: valid_mask_def mask_of_def) (metis bit_and_iff)
  then show ?thesis by (simp add: bit_mask_of)
qed

lemma mask_of_valid: "valid_mask m \<Longrightarrow> mask_of (bit m 0) (bit m 1) = m"
  by (rule bit_word_eqI) (auto simp: bit_mask_of dest: valid_bits)

lemma mask_of_or: "valid_mask m \<Longrightarrow> mask_of r w OR m = mask_of (r \<or> bit m 0) (w \<or> bit m 1)"
  by (rule bit_word_eqI) (auto simp: bit_mask_of bit_or_iff dest: valid_bits)

lemma mask_of_and_not: "mask_of r w AND NOT m = mask_of (r \<and> \<not> bit m 0) (w \<and> \<not> bit m 1)"
  by (rule bit_word_eqI) (auto simp: bit_mask_of bit_and_iff bit_not_iff)

section \<open>epoll\<close>

datatype ep_op = EPOLL_CTL_ADD | EPOLL_CTL_MOD | EPOLL_CTL_DEL

definition EPOLLIN :: c_int where "EPOLLIN = 1"
definition EPOLLOUT :: c_int where "EPOLLOUT = 4"
definition EPOLLERR :: c_int where "EPOLLERR = 8"
definition EPOLLHUP :: c_int where "EPOLLHUP = 16"

text \<open>\<open>ep_wait\<close> returns the entries it filled in: none on a timeout or an error.\<close>

record 'w epoll_lib =
  ep_malloc :: "'w \<Rightarrow> bool \<times> 'w"
  ep_create :: "'w \<Rightarrow> int \<times> 'w"
  ep_close :: "int \<Rightarrow> 'w \<Rightarrow> 'w"
  ep_ctl :: "int \<Rightarrow> ep_op \<Rightarrow> int \<Rightarrow> c_int \<Rightarrow> 'w \<Rightarrow> int \<times> 'w"
  ep_wait :: "int \<Rightarrow> int \<Rightarrow> c_int \<Rightarrow> 'w \<Rightarrow> (int \<times> c_int) list \<times> 'w"

record epoll_state =
  epfd :: int

definition epoll_create_state :: "'w epoll_lib \<Rightarrow> int \<Rightarrow> 'w \<Rightarrow> epoll_state option \<times> 'w" where
  "epoll_create_state L n w =
     (case ep_malloc L w of
        (False, w) \<Rightarrow> (None, w)
      | (True, w) \<Rightarrow>
          (case ep_malloc L w of
             (False, w) \<Rightarrow> (None, w)
           | (True, w) \<Rightarrow>
               (case ep_create L w of (fd, w) \<Rightarrow> if fd = - 1 then (None, w) else (Some \<lparr>epfd = fd\<rparr>, w))))"

definition epoll_free :: "'w epoll_lib \<Rightarrow> epoll_state \<Rightarrow> 'w \<Rightarrow> 'w" where
  "epoll_free L d w = ep_close L (epfd d) w"

definition ep_events :: "c_int \<Rightarrow> c_int" where
  "ep_events m = (if m AND AE_READABLE \<noteq> 0 then EPOLLIN else 0) OR
                 (if m AND AE_WRITABLE \<noteq> 0 then EPOLLOUT else 0)"

definition epoll_add :: "'w epoll_lib \<Rightarrow> int \<Rightarrow> c_int \<Rightarrow> ((epoll_state, 'w) lst, c_int) prog" where
  "epoll_add L fd m =
     bnd (getel apidata) (\<lambda>d.
     bnd (file_event fd) (\<lambda>fe.
     let op = (if fe_mask fe = AE_NONE then EPOLL_CTL_ADD else EPOLL_CTL_MOD);
         m' = m OR fe_mask fe
     in bnd (onworld (ep_ctl L (epfd d) op fd (ep_events m'))) (\<lambda>r.
        if r = - 1 then ret (- 1) else ret 0)))"

definition epoll_del :: "'w epoll_lib \<Rightarrow> int \<Rightarrow> c_int \<Rightarrow> ((epoll_state, 'w) lst, unit) prog" where
  "epoll_del L fd delmask =
     bnd (getel apidata) (\<lambda>d.
     bnd (file_event fd) (\<lambda>fe.
     let m = fe_mask fe AND NOT delmask in
     if m \<noteq> AE_NONE
     then bnd (onworld (ep_ctl L (epfd d) EPOLL_CTL_MOD fd (ep_events m))) (\<lambda>_. ret ())
     else bnd (onworld (ep_ctl L (epfd d) EPOLL_CTL_DEL fd (ep_events m))) (\<lambda>_. ret ())))"

definition ep_mask :: "c_int \<Rightarrow> c_int" where
  "ep_mask e = (if e AND EPOLLIN \<noteq> 0 then AE_READABLE else 0)
            OR (if e AND EPOLLOUT \<noteq> 0 then AE_WRITABLE else 0)
            OR (if e AND EPOLLERR \<noteq> 0 then AE_WRITABLE else 0)
            OR (if e AND EPOLLHUP \<noteq> 0 then AE_WRITABLE else 0)"

text \<open>
  \<open>epoll_wait\<close> takes an \<open>int\<close>: the \<open>long\<close> of milliseconds keeps its low 32 bits, and -1, or any negative value, blocks.
\<close>

definition epoll_timeout :: "timeval option \<Rightarrow> c_int" where
  "epoll_timeout tvp =
     (case tvp of None \<Rightarrow> - 1 | Some tv \<Rightarrow> word_of_int (tv_sec tv * 1000 + tv_usec tv sdiv 1000))"

definition epoll_poll :: "'w epoll_lib \<Rightarrow> timeval option \<Rightarrow> ((epoll_state, 'w) lst, nat) prog" where
  "epoll_poll L tvp =
     bnd (getel (\<lambda>el. (apidata el, setsize el))) (\<lambda>(d, n).
     bnd (onworld (ep_wait L (epfd d) n (epoll_timeout tvp))) (\<lambda>evs.
     andthen (updel (\<lambda>el. el\<lparr>fired := map (\<lambda>(fd, e). (fd, ep_mask e)) evs @ drop (length evs) (fired el)\<rparr>))
             (ret (length evs))))"

text \<open>
  The interest list of a kernel instance. Adding may fail; changing or removing an entry that is there
  does not; each fails, without effect, on an entry that is there (adding) or is not (the others).
\<close>

definition epoll_lawful :: "'w epoll_lib \<Rightarrow> ('w \<Rightarrow> int \<Rightarrow> int \<Rightarrow> c_int option) \<Rightarrow> bool" where
  "epoll_lawful L interest \<longleftrightarrow> (\<forall>w ep fd e.
     (case ep_ctl L ep EPOLL_CTL_ADD fd e w of (r, w') \<Rightarrow>
        if r = - 1 then interest w' = interest w
        else interest w ep fd = None \<and> interest w' = (interest w)(ep := (interest w ep)(fd := Some e))) \<and>
     (case ep_ctl L ep EPOLL_CTL_MOD fd e w of (r, w') \<Rightarrow>
        if interest w ep fd = None then r = - 1 \<and> interest w' = interest w
        else r = 0 \<and> interest w' = (interest w)(ep := (interest w ep)(fd := Some e))) \<and>
     (case ep_ctl L ep EPOLL_CTL_DEL fd e w of (r, w') \<Rightarrow>
        if interest w ep fd = None then r = - 1 \<and> interest w' = interest w
        else r = 0 \<and> interest w' = (interest w)(ep := (interest w ep)(fd := None))))"

definition epoll_watched :: "('w \<Rightarrow> int \<Rightarrow> int \<Rightarrow> c_int option) \<Rightarrow> epoll_state \<Rightarrow> 'w \<Rightarrow> int \<Rightarrow> c_int" where
  "epoll_watched interest d w fd =
     (case interest w (epfd d) fd of
        None \<Rightarrow> AE_NONE | Some e \<Rightarrow> mask_of (e AND EPOLLIN \<noteq> 0) (e AND EPOLLOUT \<noteq> 0))"

lemma ep_events_bits:
  "ep_events m AND EPOLLIN \<noteq> 0 \<longleftrightarrow> bit m 0" "ep_events m AND EPOLLOUT \<noteq> 0 \<longleftrightarrow> bit m 1"
  unfolding ep_events_def bit_READABLE bit_WRITABLE EPOLLIN_def EPOLLOUT_def by auto

lemma mask_of_events: "valid_mask m \<Longrightarrow> mask_of (ep_events m AND EPOLLIN \<noteq> 0) (ep_events m AND EPOLLOUT \<noteq> 0) = m"
  by (simp only: ep_events_bits mask_of_valid)

section \<open>select\<close>

text \<open>\<open>FD_SET\<close> and \<open>FD_CLR\<close> beyond \<open>FD_SETSIZE\<close> write past the set.\<close>

definition FD_SETSIZE :: int where "FD_SETSIZE = 1024"

record select_state =
  s_rfds :: "int \<Rightarrow> bool"
  s_wfds :: "int \<Rightarrow> bool"

type_synonym 'w select_call =
  "int \<Rightarrow> (int \<Rightarrow> bool) \<Rightarrow> (int \<Rightarrow> bool) \<Rightarrow> timeval option \<Rightarrow> 'w \<Rightarrow>
   (c_int \<times> (int \<Rightarrow> bool) \<times> (int \<Rightarrow> bool)) \<times> 'w"

definition select_create_state :: "('w \<Rightarrow> bool \<times> 'w) \<Rightarrow> int \<Rightarrow> 'w \<Rightarrow> select_state option \<times> 'w" where
  "select_create_state malloc n w =
     (case malloc w of
        (False, w) \<Rightarrow> (None, w)
      | (True, w) \<Rightarrow> (Some \<lparr>s_rfds = (\<lambda>_. False), s_wfds = (\<lambda>_. False)\<rparr>, w))"

text \<open>Freeing the state is freeing memory.\<close>

definition select_free :: "select_state \<Rightarrow> 'w \<Rightarrow> 'w" where
  "select_free d w = w"

text \<open>One bit of a set.\<close>

definition fd_op :: "int \<Rightarrow> (select_state \<Rightarrow> select_state) \<Rightarrow> ((select_state, 'w) lst, unit) prog" where
  "fd_op fd f =
     (if fd < 0 \<or> FD_SETSIZE \<le> fd then abort (Undef OutOfBounds)
      else updel (\<lambda>el. el\<lparr>apidata := f (apidata el)\<rparr>))"

definition select_add :: "int \<Rightarrow> c_int \<Rightarrow> ((select_state, 'w) lst, c_int) prog" where
  "select_add fd m =
     andthen (if m AND AE_READABLE \<noteq> 0 then fd_op fd (\<lambda>d. d\<lparr>s_rfds := (s_rfds d)(fd := True)\<rparr>) else ret ())
    (andthen (if m AND AE_WRITABLE \<noteq> 0 then fd_op fd (\<lambda>d. d\<lparr>s_wfds := (s_wfds d)(fd := True)\<rparr>) else ret ())
             (ret 0))"

definition select_del :: "int \<Rightarrow> c_int \<Rightarrow> ((select_state, 'w) lst, unit) prog" where
  "select_del fd m =
     andthen (if m AND AE_READABLE \<noteq> 0 then fd_op fd (\<lambda>d. d\<lparr>s_rfds := (s_rfds d)(fd := False)\<rparr>) else ret ())
             (if m AND AE_WRITABLE \<noteq> 0 then fd_op fd (\<lambda>d. d\<lparr>s_wfds := (s_wfds d)(fd := False)\<rparr>) else ret ())"

text \<open>Every registered descriptor is reported, one that is not ready with an empty mask.\<close>

definition select_fired ::
  "aeFileEvent list \<Rightarrow> (int \<Rightarrow> bool) \<Rightarrow> (int \<Rightarrow> bool) \<Rightarrow> nat list \<Rightarrow> (int \<times> c_int) list" where
  "select_fired evs r w js =
     foldl (\<lambda>acc j.
       if fe_mask (evs ! j) = AE_NONE then acc
       else acc @ [(int j,
              (if fe_mask (evs ! j) AND AE_READABLE \<noteq> 0 \<and> r (int j) then AE_READABLE else 0)
              OR (if fe_mask (evs ! j) AND AE_WRITABLE \<noteq> 0 \<and> w (int j) then AE_WRITABLE else 0))]) [] js"

definition select_poll :: "'w select_call \<Rightarrow> timeval option \<Rightarrow> ((select_state, 'w) lst, nat) prog" where
  "select_poll sel tvp =
     bnd (getel (\<lambda>el. (apidata el, maxfd el, events el))) (\<lambda>(d, m, evs).
     bnd (onworld (sel (m + 1) (s_rfds d) (s_wfds d) tvp)) (\<lambda>(retval, r, w).
     let out = (if sint retval > 0 then select_fired evs r w [0..<nat (m + 1)] else [])
     in andthen (updel (\<lambda>el. el\<lparr>fired := out @ drop (length out) (fired el)\<rparr>)) (ret (length out))))"

definition select_watched :: "select_state \<Rightarrow> 'w \<Rightarrow> int \<Rightarrow> c_int" where
  "select_watched d w fd = mask_of (s_rfds d fd) (s_wfds d fd)"

section \<open>Both provide the interface\<close>

definition epoll_env :: "'w epoll_lib \<Rightarrow> (epoll_state, 'w) ae_env \<Rightarrow> (epoll_state, 'w) ae_env" where
  "epoll_env L E = E\<lparr>api_create := epoll_create_state L, api_free := epoll_free L,
     api_add := epoll_add L, api_del := epoll_del L, api_poll := epoll_poll L\<rparr>"

definition select_env ::
  "('w \<Rightarrow> bool \<times> 'w) \<Rightarrow> 'w select_call \<Rightarrow> (select_state, 'w) ae_env \<Rightarrow> (select_state, 'w) ae_env" where
  "select_env malloc sel E = E\<lparr>api_create := select_create_state malloc, api_free := select_free,
     api_add := select_add, api_del := select_del, api_poll := select_poll sel\<rparr>"

lemma file_event_in:
  "0 \<le> fd \<Longrightarrow> fd < setsize el \<Longrightarrow> length (events el) = nat (setsize el) \<Longrightarrow>
     file_event fd (el, w) = (Ret (events el ! nat fd), (el, w))"
  by (simp add: file_event_def ae_simps prog_simps)

lemma epoll_add_apply:
  assumes "0 \<le> fd" "fd < setsize el" "length (events el) = nat (setsize el)"
  shows "epoll_add L fd m (el, w) =
    (case ep_ctl L (epfd (apidata el)) (if fd_mask el fd = AE_NONE then EPOLL_CTL_ADD else EPOLL_CTL_MOD) fd
            (ep_events (m OR fd_mask el fd)) w of
       (r, w') \<Rightarrow> (Ret (if r = - 1 then - 1 else 0), (el, w')))"
  using assms file_event_in [OF assms, of w]
  by (simp add: epoll_add_def ae_simps prog_simps bnd_def Let_def fd_mask_def split: prod.splits)

lemma epoll_del_apply:
  assumes "0 \<le> fd" "fd < setsize el" "length (events el) = nat (setsize el)"
  shows "epoll_del L fd m (el, w) =
    (case ep_ctl L (epfd (apidata el))
            (if fd_mask el fd AND NOT m \<noteq> AE_NONE then EPOLL_CTL_MOD else EPOLL_CTL_DEL) fd
            (ep_events (fd_mask el fd AND NOT m)) w of
       (r, w') \<Rightarrow> (Ret (), (el, w')))"
  using assms file_event_in [OF assms, of w]
  by (simp add: epoll_del_def ae_simps prog_simps bnd_def Let_def fd_mask_def split: prod.splits)

lemma epoll_watched_None: "epoll_watched interest d w fd \<noteq> AE_NONE \<Longrightarrow> interest w (epfd d) fd \<noteq> None"
  by (auto simp: epoll_watched_def split: option.splits)

lemma epoll_watched_upd:
  "interest w' = (interest w)(epfd d := (interest w (epfd d))(fd := Some (ep_events m))) \<Longrightarrow> valid_mask m \<Longrightarrow>
     epoll_watched interest d w' x = (if x = fd then m else epoll_watched interest d w x)"
  by (simp add: epoll_watched_def mask_of_events)

lemma epoll_law:
  assumes "epoll_lawful L interest" and "ep_ctl L ep op fd e w = (r, w')"
  shows "op = EPOLL_CTL_ADD \<Longrightarrow> r = - 1 \<and> interest w' = interest w \<or>
           r \<noteq> - 1 \<and> interest w' = (interest w)(ep := (interest w ep)(fd := Some e))"
    and "op = EPOLL_CTL_MOD \<Longrightarrow> interest w ep fd \<noteq> None \<Longrightarrow>
           r = 0 \<and> interest w' = (interest w)(ep := (interest w ep)(fd := Some e))"
    and "op = EPOLL_CTL_DEL \<Longrightarrow> interest w ep fd \<noteq> None \<Longrightarrow>
           r = 0 \<and> interest w' = (interest w)(ep := (interest w ep)(fd := None))"
  using assms(1) [unfolded epoll_lawful_def, THEN spec, of w, THEN spec, of ep, THEN spec, of fd, THEN spec, of e]
    assms(2) by (auto split: if_splits)

interpretation epoll: ae_backend "epoll_env L E" "epoll_watched interest" lim "epoll_lawful L interest"
  for L :: "'w epoll_lib" and E and interest and lim
proof
  fix el :: "epoll_state aeEventLoop" and w :: 'w and fd :: int and m :: c_int
  assume law: "epoll_lawful L interest" and ok: "loop_ok el" and st: "in_step (epoll_watched interest) (el, w)"
    and fd: "0 \<le> fd" "fd < setsize el" and m: "valid_mask m" "m \<noteq> AE_NONE"
  have len: "length (events el) = nat (setsize el)" using ok by (simp add: loop_ok_def)
  let ?d = "apidata el" and ?old = "fd_mask el fd"
  let ?op = "if ?old = AE_NONE then EPOLL_CTL_ADD else EPOLL_CTL_MOD"
  obtain r w' where c: "ep_ctl L (epfd ?d) ?op fd (ep_events (m OR ?old)) w = (r, w')" by fastforce
  have old: "epoll_watched interest ?d w fd = ?old" using st fd by (simp add: in_step_def)
  have some: "?old \<noteq> AE_NONE \<Longrightarrow> interest w (epfd ?d) fd \<noteq> None"
    using epoll_watched_None [of interest ?d w fd] by (simp add: old)
  have "r = - 1 \<and> interest w' = interest w \<or>
      r \<noteq> - 1 \<and> interest w' = (interest w)(epfd ?d := (interest w (epfd ?d))(fd := Some (ep_events (m OR ?old))))"
    using epoll_law(1,2) [OF law c] some by (cases "?old = AE_NONE") auto
  then have eq: "r = - 1 \<Longrightarrow> interest w' = interest w"
    and ne: "r \<noteq> - 1 \<Longrightarrow> interest w' = (interest w)(epfd ?d := (interest w (epfd ?d))(fd := Some (ep_events (m OR ?old))))"
    by auto
  have "valid_mask (m OR ?old)" using m(1) ok by (simp add: valid_mask_or fd_mask_valid)
  from epoll_watched_upd [OF ne this] eq old
  show "\<exists>r d w'. api_add (epoll_env L E) fd m (el, w) = (Ret r, (el\<lparr>apidata := d\<rparr>, w')) \<and>
        (if r = - 1 then (\<forall>x. epoll_watched interest d w' x = epoll_watched interest (apidata el) w x)
         else epoll_watched interest d w' fd = epoll_watched interest (apidata el) w fd OR m \<and>
              (\<forall>x. x \<noteq> fd \<longrightarrow> epoll_watched interest d w' x = epoll_watched interest (apidata el) w x))"
    by (intro exI [of _ "if r = - 1 then - 1 else 0"] exI [of _ ?d] exI [of _ w'])
       (auto simp: epoll_env_def epoll_add_apply [OF fd len] c epoll_watched_def or.commute)
next
  fix el :: "epoll_state aeEventLoop" and w :: 'w and fd :: int and m :: c_int
  assume law: "epoll_lawful L interest" and len: "length (events el) = nat (setsize el)"
    and fd: "0 \<le> fd" "fd < setsize el"
    and v: "valid_mask (epoll_watched interest (apidata el) w fd)"
    and used: "epoll_watched interest (apidata el) w fd \<noteq> AE_NONE"
    and fm: "fd_mask el fd = epoll_watched interest (apidata el) w fd AND NOT m"
  let ?d = "apidata el" and ?m = "fd_mask el fd AND NOT m"
  let ?op = "if ?m \<noteq> AE_NONE then EPOLL_CTL_MOD else EPOLL_CTL_DEL"
  have mm: "?m = fd_mask el fd" by (simp add: fm and.assoc)
  obtain r w' where c: "ep_ctl L (epfd ?d) ?op fd (ep_events ?m) w = (r, w')" by fastforce
  have "interest w (epfd ?d) fd \<noteq> None" using used by (rule epoll_watched_None)
  then have "interest w' = (interest w)(epfd ?d := (interest w (epfd ?d))
      (fd := (if ?m \<noteq> AE_NONE then Some (ep_events ?m) else None)))"
    using epoll_law(2,3) [OF law c] by (cases "?m = AE_NONE") auto
  moreover have "valid_mask ?m" using v by (simp add: fm valid_mask_and)
  ultimately have "epoll_watched interest ?d w' x = (if x = fd then ?m else epoll_watched interest ?d w x)" for x
    by (simp add: epoll_watched_def mask_of_events)
  moreover have "epoll_del L fd m (el, w) = (Ret (), (el, w'))"
    unfolding epoll_del_apply [OF fd len] c by simp
  ultimately show "\<exists>d w'. api_del (epoll_env L E) fd m (el, w) = (Ret (), (el\<lparr>apidata := d\<rparr>, w')) \<and>
        epoll_watched interest d w' fd = epoll_watched interest (apidata el) w fd AND NOT m \<and>
        (\<forall>x. x \<noteq> fd \<longrightarrow> epoll_watched interest d w' x = epoll_watched interest (apidata el) w x)"
    by (intro exI [of _ ?d] exI [of _ w'])
       (simp add: epoll_env_def mm fm [symmetric])
qed

interpretation select: ae_backend "select_env malloc sel E" "select_watched :: select_state \<Rightarrow> 'w \<Rightarrow> int \<Rightarrow> c_int"
    FD_SETSIZE True
  for malloc and sel :: "'w select_call" and E
proof
  fix el :: "select_state aeEventLoop" and w :: 'w and fd :: int and m :: c_int
  assume lim: "setsize el \<le> FD_SETSIZE" and fd: "0 \<le> fd" "fd < setsize el" and m: "valid_mask m"
  let ?d = "apidata el"
  let ?d' = "\<lparr>s_rfds = (s_rfds ?d)(fd := s_rfds ?d fd \<or> bit m 0), s_wfds = (s_wfds ?d)(fd := s_wfds ?d fd \<or> bit m 1)\<rparr>"
  have "select_add fd m (el, w) = (Ret 0, (el\<lparr>apidata := ?d'\<rparr>, w))"
    using lim fd by (cases ?d) (auto simp: select_add_def fd_op_def ae_simps prog_simps bit_READABLE bit_WRITABLE fun_upd_idem)
  then show "\<exists>r d w'. api_add (select_env malloc sel E) fd m (el, w) = (Ret r, (el\<lparr>apidata := d\<rparr>, w')) \<and>
        (if r = - 1 then (\<forall>x. select_watched d w' x = select_watched (apidata el) w x)
         else select_watched d w' fd = select_watched (apidata el) w fd OR m \<and>
              (\<forall>x. x \<noteq> fd \<longrightarrow> select_watched d w' x = select_watched (apidata el) w x))"
    by (auto simp: select_env_def select_watched_def mask_of_or [OF m])
next
  fix el :: "select_state aeEventLoop" and w :: 'w and fd :: int and m :: c_int
  assume lim: "setsize el \<le> FD_SETSIZE" and fd: "0 \<le> fd" "fd < setsize el"
  let ?d = "apidata el"
  let ?d' = "\<lparr>s_rfds = (s_rfds ?d)(fd := s_rfds ?d fd \<and> \<not> bit m 0), s_wfds = (s_wfds ?d)(fd := s_wfds ?d fd \<and> \<not> bit m 1)\<rparr>"
  have "select_del fd m (el, w) = (Ret (), (el\<lparr>apidata := ?d'\<rparr>, w))"
    using lim fd by (cases ?d) (auto simp: select_del_def fd_op_def ae_simps prog_simps bit_READABLE bit_WRITABLE fun_upd_idem)
  then show "\<exists>d w'. api_del (select_env malloc sel E) fd m (el, w) = (Ret (), (el\<lparr>apidata := d\<rparr>, w')) \<and>
        select_watched d w' fd = select_watched (apidata el) w fd AND NOT m \<and>
        (\<forall>x. x \<noteq> fd \<longrightarrow> select_watched d w' x = select_watched (apidata el) w x)"
    by (auto simp: select_env_def select_watched_def mask_of_and_not)
qed

end
