(* ===== verification/Hiredis_Ae.thy ===== *)
theory Hiredis_Ae
  imports Ae_Multiplexers Redis_Env
begin

unbundle bit_operations_syntax

text \<open>
  The adapter between an asynchronous context and the event loop (\<open>hiredis_ae.h\<close> in the include
  directory of hiredis) and the thread that runs the loop (\<open>AEThread\<close> of \<open>cpp/src/CodisClient.cpp\<close>).
  The state is the loop an adapter belongs to, beside the adapters on the heap.
\<close>

section \<open>The adapter\<close>

type_synonym ('a, 'w) adst = "('a, 'w) lst \<times> (addr \<rightharpoonup> redisAeEvents)"

definition onloop :: "(('a, 'w) lst, 'b) prog \<Rightarrow> (('a, 'w) adst, 'b) prog" where
  "onloop = lift_prog fst (\<lambda>t s. (t, snd s))"

definition load_ev :: "addr \<Rightarrow> (('a, 'w) adst, redisAeEvents) prog" where
  "load_ev d = (\<lambda>(l, h). case h d of None \<Rightarrow> (Abrupt (Undef UseAfterFree), (l, h)) | Some e \<Rightarrow> (Ret e, (l, h)))"

definition store_ev :: "addr \<Rightarrow> redisAeEvents \<Rightarrow> (('a, 'w) adst, unit) prog" where
  "store_ev d e = updst (\<lambda>(l, h). (l, h(d \<mapsto> e)))"

text \<open>
  \<open>READ_PROC\<close> and \<open>WRITE_PROC\<close> are the addresses of the two event procedures below; what they call,
  \<open>redisAsyncHandleRead\<close> and \<open>redisAsyncHandleWrite\<close>, is the library's.
\<close>

definition READ_PROC :: nat where "READ_PROC = 1"
definition WRITE_PROC :: nat where "WRITE_PROC = 2"

definition redisAeReadEvent :: "(addr \<Rightarrow> (('a, 'w) adst, unit) prog) \<Rightarrow> addr \<Rightarrow> (('a, 'w) adst, unit) prog" where
  "redisAeReadEvent redisAsyncHandleRead privdata =
     bnd (load_ev privdata) (\<lambda>e. redisAsyncHandleRead (ev_context e))"

definition redisAeWriteEvent :: "(addr \<Rightarrow> (('a, 'w) adst, unit) prog) \<Rightarrow> addr \<Rightarrow> (('a, 'w) adst, unit) prog" where
  "redisAeWriteEvent redisAsyncHandleWrite privdata =
     bnd (load_ev privdata) (\<lambda>e. redisAsyncHandleWrite (ev_context e))"

text \<open>The status of \<open>aeCreateFileEvent\<close> is not looked at.\<close>

definition redisAeAddRead :: "('a, 'w) ae_env \<Rightarrow> addr \<Rightarrow> (('a, 'w) adst, unit) prog" where
  "redisAeAddRead E privdata =
     bnd (load_ev privdata) (\<lambda>e.
     if \<not> ev_reading e then
       andthen (store_ev privdata (e\<lparr>ev_reading := True\<rparr>))
       (bnd (onloop (aeCreateFileEvent E (sint (ev_fd e)) AE_READABLE READ_PROC privdata)) (\<lambda>_. ret ()))
     else ret ())"

definition redisAeDelRead :: "('a, 'w) ae_env \<Rightarrow> addr \<Rightarrow> (('a, 'w) adst, unit) prog" where
  "redisAeDelRead E privdata =
     bnd (load_ev privdata) (\<lambda>e.
     if ev_reading e then
       andthen (store_ev privdata (e\<lparr>ev_reading := False\<rparr>))
               (onloop (aeDeleteFileEvent E (sint (ev_fd e)) AE_READABLE))
     else ret ())"

definition redisAeAddWrite :: "('a, 'w) ae_env \<Rightarrow> addr \<Rightarrow> (('a, 'w) adst, unit) prog" where
  "redisAeAddWrite E privdata =
     bnd (load_ev privdata) (\<lambda>e.
     if \<not> ev_writing e then
       andthen (store_ev privdata (e\<lparr>ev_writing := True\<rparr>))
       (bnd (onloop (aeCreateFileEvent E (sint (ev_fd e)) AE_WRITABLE WRITE_PROC privdata)) (\<lambda>_. ret ()))
     else ret ())"

definition redisAeDelWrite :: "('a, 'w) ae_env \<Rightarrow> addr \<Rightarrow> (('a, 'w) adst, unit) prog" where
  "redisAeDelWrite E privdata =
     bnd (load_ev privdata) (\<lambda>e.
     if ev_writing e then
       andthen (store_ev privdata (e\<lparr>ev_writing := False\<rparr>))
               (onloop (aeDeleteFileEvent E (sint (ev_fd e)) AE_WRITABLE))
     else ret ())"

definition ae_cleanup :: "('a, 'w) ae_env \<Rightarrow> addr \<Rightarrow> (('a, 'w) adst, unit) prog" where
  "ae_cleanup E privdata =
     bnd (load_ev privdata) (\<lambda>e.
     andthen (onloop aeStop)
    (andthen (redisAeDelRead E privdata)
    (andthen (redisAeDelWrite E privdata)
             (updst (\<lambda>(l, h). (l, h(privdata := None)))))))"

text \<open>The thread: it runs the loop once, and ends when the loop ends.\<close>

definition AEThread :: "('a, 'w) ae_env \<Rightarrow> nat \<Rightarrow> (('a, 'w) lst, bool) prog" where
  "AEThread E fuel = aeMain E fuel"

section \<open>Lemmas\<close>

named_theorems ad_simps

lemma onloop_apply [ad_simps]: "onloop m (l, h) = (case m l of (r, l') \<Rightarrow> (r, (l', h)))"
  by (simp add: onloop_def lift_prog_def)

lemma load_ev_apply [ad_simps]: "h d = Some e \<Longrightarrow> load_ev d (l, h) = (Ret e, (l, h))"
  by (simp add: load_ev_def)

lemma store_ev_apply [ad_simps]: "store_ev d e (l, h) = (Ret (), (l, h(d \<mapsto> e)))"
  by (simp add: store_ev_def updst_def)

text \<open>A descriptor beyond the table is marked as read from and is not watched.\<close>

lemma redisAeAddRead_beyond:
  assumes "h d = Some e" and "\<not> ev_reading e" and "setsize el \<le> sint (ev_fd e)"
  shows "redisAeAddRead E d ((el, w), h) = (Ret (), ((el, w), h(d \<mapsto> e\<lparr>ev_reading := True\<rparr>)))"
  using assms by (simp add: redisAeAddRead_def ad_simps bnd_def prog_simps aeCreateFileEvent_out_of_range)

text \<open>A stopped loop runs no further round.\<close>

lemma main_loop_stopped: "el_stop el \<Longrightarrow> main_loop E fuel (el, w) = (Ret True, (el, w))"
  by (cases fuel) (simp_all add: ae_simps prog_simps bnd_def)

context ae_backend
begin

text \<open>Starting and ending to read, over a multiplexer in step with the table.\<close>

lemma add_read_served:
  assumes "served (el, w)" and e: "h d = Some e" and "\<not> ev_reading e" and "0 \<le> sint (ev_fd e)"
  shows "\<exists>el' w'. redisAeAddRead E d ((el, w), h) = (Ret (), ((el', w'), h(d \<mapsto> e\<lparr>ev_reading := True\<rparr>))) \<and>
           served (el', w')"
proof -
  have "valid_mask AE_READABLE" "AE_READABLE \<noteq> AE_NONE"
    by (simp_all add: valid_mask_def AE_READABLE_def AE_WRITABLE_def AE_NONE_def)
  from create_served [OF assms(1,4) this, of READ_PROC d] obtain r el' w' where
    "aeCreateFileEvent E (sint (ev_fd e)) AE_READABLE READ_PROC d (el, w) = (Ret r, (el', w'))"
    "served (el', w')" by blast
  with e assms(3) show ?thesis by (simp add: redisAeAddRead_def ad_simps bnd_def prog_simps)
qed

lemma del_read_served:
  assumes "served (el, w)" and e: "h d = Some e" and "0 \<le> sint (ev_fd e)"
  shows "\<exists>el' w'. redisAeDelRead E d ((el, w), h) =
            (Ret (), ((el', w'), if ev_reading e then h(d \<mapsto> e\<lparr>ev_reading := False\<rparr>) else h)) \<and>
          served (el', w') \<and> el_stop el' = el_stop el \<and> (\<forall>x. fd_mask el' x =
            (if x = sint (ev_fd e) \<and> ev_reading e then fd_mask el x AND NOT AE_READABLE else fd_mask el x))"
  using delete_served [OF assms(1,3), of AE_READABLE] e assms(1)
  by (cases "ev_reading e") (auto simp: redisAeDelRead_def ad_simps bnd_def prog_simps)

lemma del_write_served:
  assumes "served (el, w)" and e: "h d = Some e" and "0 \<le> sint (ev_fd e)"
  shows "\<exists>el' w'. redisAeDelWrite E d ((el, w), h) =
            (Ret (), ((el', w'), if ev_writing e then h(d \<mapsto> e\<lparr>ev_writing := False\<rparr>) else h)) \<and>
          served (el', w') \<and> el_stop el' = el_stop el \<and> (\<forall>x. fd_mask el' x =
            (if x = sint (ev_fd e) \<and> ev_writing e then fd_mask el x AND NOT AE_WRITABLE else fd_mask el x))"
  using delete_served [OF assms(1,3), of AE_WRITABLE] e assms(1)
  by (cases "ev_writing e") (auto simp: redisAeDelWrite_def ad_simps bnd_def prog_simps)

text \<open>The cleanup hook stops the loop, unregisters the descriptor and frees the adapter.\<close>

lemma cleanup_served:
  assumes S: "served (el, w)" and e: "h d = Some e" and fd: "0 \<le> sint (ev_fd e)"
  defines "clear \<equiv> mask_of (ev_reading e) (ev_writing e)"
  shows "\<exists>el' w'. ae_cleanup E d ((el, w), h) = (Ret (), ((el', w'), h(d := None))) \<and>
          served (el', w') \<and> el_stop el' \<and>
          (\<forall>x. fd_mask el' x = (if x = sint (ev_fd e) then fd_mask el x AND NOT clear else fd_mask el x))"
proof -
  let ?fd = "sint (ev_fd e)"
  let ?el = "el\<lparr>el_stop := True\<rparr>"
  have S0: "served (?el, w)"
    using S unfolding served_def by (simp add: loop_ok_def in_step_def fd_mask_def)
  from del_read_served [where e = e and h = h and d = d, OF S0 e fd] obtain el1 w1 where
    r: "redisAeDelRead E d ((?el, w), h) =
          (Ret (), ((el1, w1), if ev_reading e then h(d \<mapsto> e\<lparr>ev_reading := False\<rparr>) else h))"
    and S1: "served (el1, w1)" and st1: "el_stop el1"
    and m1: "\<forall>x. fd_mask el1 x = (if x = ?fd \<and> ev_reading e then fd_mask el x AND NOT AE_READABLE else fd_mask el x)"
    by (auto simp: fd_mask_def)
  let ?h = "if ev_reading e then h(d \<mapsto> e\<lparr>ev_reading := False\<rparr>) else h"
    and ?e = "if ev_reading e then e\<lparr>ev_reading := False\<rparr> else e"
  have e1: "?h d = Some ?e" and "0 \<le> sint (ev_fd ?e)" using e fd by auto
  from del_write_served [where e = ?e and h = ?h and d = d, OF S1 this] obtain el2 w2 where
    w: "redisAeDelWrite E d ((el1, w1), ?h) =
          (Ret (), ((el2, w2), if ev_writing e then ?h(d \<mapsto> ?e\<lparr>ev_writing := False\<rparr>) else ?h))"
    and S2: "served (el2, w2)" and st2: "el_stop el2"
    and m2: "\<forall>x. fd_mask el2 x = (if x = ?fd \<and> ev_writing e then fd_mask el1 x AND NOT AE_WRITABLE else fd_mask el1 x)"
    using st1 by (auto split: if_splits)
  have "ae_cleanup E d ((el, w), h) = (Ret (), ((el2, w2), h(d := None)))"
    using e r w by (auto simp: ae_cleanup_def ad_simps bnd_def prog_simps aeStop_def ae_simps)
  moreover have "fd_mask el2 x = (if x = ?fd then fd_mask el x AND NOT clear else fd_mask el x)" for x
    using m1 m2 by (simp add: clear_def mask_of_def and.assoc flip: bit.de_Morgan_disj)
  ultimately show ?thesis using S2 st2 by blast
qed

end

end
