(* ===== verification/Ae_Properties.thy ===== *)
theory Ae_Properties
  imports Ae_Timers Ae_Dispatch Hiredis_Ae
begin

unbundle bit_operations_syntax

text \<open>
  The properties of the event loop: its timers, and the agreement of its table with what the two
  multiplexers watch, over sequences of operations from the creation of the loop on. The witnesses run on
  an event loop with a constant clock and on a kernel that is its interest lists.
\<close>

section \<open>Sequences of file-event operations\<close>

datatype file_op = Register int c_int nat nat | Unregister int c_int

fun file_op_run :: "('a, 'w) ae_env \<Rightarrow> file_op \<Rightarrow> (('a, 'w) lst, c_int) prog" where
  "file_op_run E (Register fd m proc cd) = aeCreateFileEvent E fd m proc cd"
| "file_op_run E (Unregister fd m) = bnd (aeDeleteFileEvent E fd m) (\<lambda>_. ret AE_OK)"

text \<open>The abstract table: a mask per descriptor, changed where an operation reports success.\<close>

fun table_step :: "file_op \<times> c_int \<Rightarrow> (int \<Rightarrow> c_int) \<Rightarrow> (int \<Rightarrow> c_int)" where
  "table_step (Register fd m proc cd, r) t = (if r = AE_OK then t(fd := t fd OR m) else t)"
| "table_step (Unregister fd m, r) t = t(fd := t fd AND NOT m)"

fun file_op_ok :: "file_op \<Rightarrow> bool" where
  "file_op_ok (Register fd m proc cd) \<longleftrightarrow> 0 \<le> fd \<and> valid_mask m \<and> m \<noteq> AE_NONE"
| "file_op_ok (Unregister fd m) \<longleftrightarrow> 0 \<le> fd"

lemma OK_not_ERR: "AE_OK \<noteq> AE_ERR" "AE_ERR \<noteq> AE_OK"
  by (simp_all add: AE_OK_def AE_ERR_def)

context ae_backend
begin

lemma op_served:
  assumes "served (el, w)" and "file_op_ok op"
  shows "\<exists>r el' w'. file_op_run E op (el, w) = (Ret r, (el', w')) \<and> served (el', w') \<and>
           setsize el' = setsize el \<and> fd_mask el' = table_step (op, r) (fd_mask el)"
proof (cases op)
  case (Register fd m proc cd)
  with assms create_served [of el w fd m proc cd] show ?thesis by (fastforce simp: OK_not_ERR)
next
  case (Unregister fd m)
  with assms delete_served [of el w fd m] show ?thesis by (fastforce simp: bnd_def prog_simps)
qed

lemma ops_served:
  "served (el, w) \<Longrightarrow> \<forall>op \<in> set ops. file_op_ok op \<Longrightarrow>
     \<exists>rs el' w'. mapM_prog (file_op_run E) ops (el, w) = (Ret rs, (el', w')) \<and> served (el', w') \<and>
       setsize el' = setsize el \<and> length rs = length ops \<and> fd_mask el' = fold table_step (zip ops rs) (fd_mask el)"
proof (induction ops arbitrary: el w)
  case Nil
  then show ?case by (simp add: prog_simps)
next
  case (Cons op ops)
  from op_served [OF Cons.prems(1), of op] Cons.prems(2) obtain r el1 w1 where
    one: "file_op_run E op (el, w) = (Ret r, (el1, w1))" and S: "served (el1, w1)" and n: "setsize el1 = setsize el"
    and t: "fd_mask el1 = table_step (op, r) (fd_mask el)" by auto
  from Cons.IH [OF S] Cons.prems(2) obtain rs el' w' where
    m: "mapM_prog (file_op_run E) ops (el1, w1) = (Ret rs, (el', w'))" and "served (el', w')"
    "setsize el' = setsize el" "length rs = length ops" "fd_mask el' = fold table_step (zip ops rs) (fd_mask el1)" by (auto simp: n)
  with mapM_Cons_Ret [of "file_op_run E", OF one m] t show ?case
    by (intro exI [of _ "r # rs"] exI [of _ el'] exI [of _ w']) (simp del: mapM_prog.simps)
qed

end

section \<open>A new loop\<close>

lemma find_maxfd_none: "(\<And>j. j < n \<Longrightarrow> fe_mask (evs ! j) = AE_NONE) \<Longrightarrow> find_maxfd evs n = - 1"
  by (induction n) auto

lemma new_loop:
  assumes "aeCreateEventLoop E n raw fr w = (Some el, w')" and "length raw = nat n" and "0 \<le> n"
  shows "loop_ok el" and "setsize el = n" and "fd_mask el = (\<lambda>_. AE_NONE)"
    and "\<exists>v. api_create E n v = (Some (apidata el), w')"
proof -
  have e: "events el = map (\<lambda>fe. fe\<lparr>fe_mask := AE_NONE\<rparr>) raw" and n: "setsize el = n" and "maxfd el = - 1"
    and c: "\<exists>v. api_create E n v = (Some (apidata el), w')"
    using assms(1) by (auto simp: aeCreateEventLoop_def split: prod.splits bool.splits if_splits option.splits)
  moreover have "find_maxfd (events el) (length (events el)) = - 1" by (rule find_maxfd_none) (simp add: e)
  moreover have "valid_mask AE_NONE" by (simp add: valid_mask_def AE_NONE_def)
  ultimately show "loop_ok el" "setsize el = n" "\<exists>v. api_create E n v = (Some (apidata el), w')"
    using assms(2,3) by (auto simp: loop_ok_def)
  show "fd_mask el = (\<lambda>_. AE_NONE)" using assms(2) by (auto simp: fd_mask_def e n)
qed

text \<open>A new epoll instance has an empty interest list.\<close>

definition epoll_fresh :: "'w epoll_lib \<Rightarrow> ('w \<Rightarrow> int \<Rightarrow> int \<Rightarrow> c_int option) \<Rightarrow> bool" where
  "epoll_fresh L interest \<longleftrightarrow>
     (\<forall>w. case ep_create L w of (fd, w') \<Rightarrow> fd \<noteq> - 1 \<longrightarrow> interest w' fd = (\<lambda>_. None))"

lemma epoll_new_state:
  assumes "epoll_fresh L interest" and "epoll_create_state L n v = (Some d, w)"
  shows "interest w (epfd d) = (\<lambda>_. None)"
proof -
  from assms(2) obtain u where "ep_create L u = (epfd d, w)" and "epfd d \<noteq> - 1"
    by (auto simp: epoll_create_state_def split: prod.splits bool.splits if_splits)
  with assms(1) show ?thesis by (auto simp: epoll_fresh_def dest: spec [of _ u])
qed

lemma epoll_created:
  assumes "epoll_lawful L interest" and "epoll_fresh L interest"
    and c: "aeCreateEventLoop (epoll_env L E) n raw fr w = (Some el, w')" and n: "length raw = nat n" "0 \<le> n"
  shows "epoll.served interest n L (el, w')"
proof -
  note new = new_loop [OF c n]
  from new(4) obtain v where "epoll_create_state L n v = (Some (apidata el), w')" by (auto simp: epoll_env_def)
  from epoll_new_state [OF assms(2) this] new(3) have "in_step (epoll_watched interest) (el, w')"
    by (simp add: in_step_def epoll_watched_def)
  with new assms(1) show ?thesis unfolding epoll.served_def by simp
qed

lemma select_created:
  assumes c: "aeCreateEventLoop (select_env malloc sel E) n raw fr w = (Some el, w')"
    and n: "length raw = nat n" "0 \<le> n" "n \<le> FD_SETSIZE"
  shows "select.served (el, w')"
proof -
  note new = new_loop [OF c n(1,2)]
  from new(4) obtain v where v: "select_create_state malloc n v = (Some (apidata el), w')"
    by (auto simp: select_env_def)
  obtain b u where "malloc v = (b, u)" by fastforce
  with v have "apidata el = \<lparr>s_rfds = (\<lambda>_. False), s_wfds = (\<lambda>_. False)\<rparr>"
    by (cases b) (simp_all add: select_create_state_def)
  with new(3) have "in_step select_watched (el, w')"
    by (simp add: in_step_def select_watched_def mask_of_def AE_NONE_def)
  with new n(3) show ?thesis by (simp add: select.served_def)
qed

section \<open>A small kernel and a constant clock\<close>

text \<open>The kernel is its interest lists.\<close>

definition kernel_epoll :: "(int \<Rightarrow> int \<Rightarrow> c_int option) epoll_lib" where
  "kernel_epoll = \<lparr>ep_malloc = (\<lambda>w. (True, w)), ep_create = (\<lambda>w. (7, w(7 := (\<lambda>_. None)))),
     ep_close = (\<lambda>ep w. w(ep := (\<lambda>_. None))),
     ep_ctl = (\<lambda>ep op fd e w. case op of
        EPOLL_CTL_ADD \<Rightarrow> if w ep fd = None then (0, w(ep := (w ep)(fd := Some e))) else (- 1, w)
      | EPOLL_CTL_MOD \<Rightarrow> if w ep fd = None then (- 1, w) else (0, w(ep := (w ep)(fd := Some e)))
      | EPOLL_CTL_DEL \<Rightarrow> if w ep fd = None then (- 1, w) else (0, w(ep := (w ep)(fd := None)))),
     ep_wait = (\<lambda>ep n ms w. ([], w))\<rparr>"

lemma kernel_epoll_lawful: "epoll_lawful kernel_epoll (\<lambda>w. w)"
  by (simp add: epoll_lawful_def kernel_epoll_def)

lemma kernel_epoll_fresh: "epoll_fresh kernel_epoll (\<lambda>w. w)"
  by (simp add: epoll_fresh_def kernel_epoll_def)

text \<open>Ten seconds past the epoch for ever; every timer handler returns \<open>r\<close>.\<close>

definition still_env :: "c_int \<Rightarrow> 'a \<Rightarrow> ('a, 'w) ae_env" where
  "still_env r d = \<lparr>api_create = (\<lambda>n w. (Some d, w)), api_free = (\<lambda>d w. w),
     api_add = (\<lambda>fd m. ret 0), api_del = (\<lambda>fd m. ret ()), api_poll = (\<lambda>tv. ret 0),
     os_time = (\<lambda>w. (10, w)), os_gettimeofday = (\<lambda>w. (\<lparr>tv_sec = 10, tv_usec = 500000\<rparr>, w)),
     os_malloc = (\<lambda>w. (True, w)), call_file = (\<lambda>p fd d m. ret ()), call_time = (\<lambda>p i d. ret r),
     call_final = (\<lambda>f d. ret ()), call_sleep = (\<lambda>p. ret ())\<rparr>"

lemma still_now: "now_of (still_env r d) w = Due 10 500"
  by (simp add: now_of_def still_env_def)

definition blank_event :: aeFileEvent where
  "blank_event = \<lparr>fe_mask = 0, fe_rfileProc = None, fe_wfileProc = None, fe_clientData = 0\<rparr>"

definition timer_at :: "c_llong \<Rightarrow> int \<Rightarrow> int \<Rightarrow> aeTimeEvent" where
  "timer_at i sec ms = \<lparr>te_id = i, te_when_sec = sec, te_when_ms = ms, te_timeProc = 1,
     te_finalizerProc = None, te_clientData = 0\<rparr>"

definition small_loop :: "'a \<Rightarrow> c_llong \<Rightarrow> aeTimeEvent list \<Rightarrow> 'a aeEventLoop" where
  "small_loop d n tes = \<lparr>maxfd = - 1, setsize = 2, timeEventNextId = n, lastTime = 10,
     events = [blank_event, blank_event], fired = [(0, 0), (0, 0)], timeEvents = tes, el_stop = False,
     apidata = d, beforesleep = None\<rparr>"

text \<open>A kernel that reports the same events at every wait; handlers, timers that are done and finalizers that note
  that they were called; and a loop with two handlers at one descriptor and one for both directions at another.\<close>

definition reporting_epoll :: "(int \<times> c_int) list \<Rightarrow> 'w epoll_lib" where
  "reporting_epoll evs = \<lparr>ep_malloc = (\<lambda>w. (True, w)), ep_create = (\<lambda>w. (7, w)), ep_close = (\<lambda>ep w. w),
     ep_ctl = (\<lambda>ep op fd e w. (0, w)), ep_wait = (\<lambda>ep n ms w. (evs, w))\<rparr>"

text \<open>A kernel that reports nothing and notes how long it was asked to wait.\<close>

definition echo_epoll :: "int list epoll_lib" where
  "echo_epoll = (reporting_epoll [])\<lparr>ep_wait := (\<lambda>ep n ms w. ([], w @ [sint ms]))\<rparr>"

definition noting_env :: "'a \<Rightarrow> ('a, nat list) ae_env" where
  "noting_env d = (still_env 0 d)\<lparr>call_file := (\<lambda>f fd cd m (el, w). (Ret (), (el, w @ [f]))),
     call_time := (\<lambda>p i d (el, w). (Ret AE_NOMORE, (el, w @ [p]))),
     call_final := (\<lambda>f d (el, w). (Ret (), (el, w @ [f])))\<rparr>"

definition two_handlers :: "'a \<Rightarrow> 'a aeEventLoop" where
  "two_handlers d = (small_loop d 0 [])\<lparr>maxfd := 1, events :=
     [\<lparr>fe_mask = 3, fe_rfileProc = Some 5, fe_wfileProc = Some 6, fe_clientData = 0\<rparr>,
      \<lparr>fe_mask = 3, fe_rfileProc = Some 8, fe_wfileProc = Some 8, fe_clientData = 0\<rparr>]\<rparr>"

section \<open>Properties: the table and the multiplexer\<close>

text \<open>C24: From the creation of a loop over epoll on, after any sequence of registrations and removals the
  loop is in order, its table is what the operations that reported success say, and the kernel watches
  exactly the table.\<close>

theorem epoll_watches_table:
  assumes "epoll_lawful L interest" and "epoll_fresh L interest"
    and "aeCreateEventLoop (epoll_env L E) n raw fr w = (Some el, w1)" and "length raw = nat n" and "0 \<le> n"
    and "\<forall>op \<in> set ops. file_op_ok op"
  shows "\<exists>rs el' w'. mapM_prog (file_op_run (epoll_env L E)) ops (el, w1) = (Ret rs, (el', w')) \<and>
    loop_ok el' \<and> fd_mask el' = fold table_step (zip ops rs) (\<lambda>_. AE_NONE) \<and>
    (\<forall>fd. 0 \<le> fd \<and> fd < n \<longrightarrow> epoll_watched interest (apidata el') w' fd = fd_mask el' fd)"
proof -
  note new = new_loop(2,3) [OF assms(3-5)]
  from epoll.ops_served [OF epoll_created [OF assms(1-5)] assms(6)] obtain rs el' w' where
    m: "mapM_prog (file_op_run (epoll_env L E)) ops (el, w1) = (Ret rs, (el', w'))"
    and S: "epoll.served interest n L (el', w')" and n: "setsize el' = setsize el"
    and t: "fd_mask el' = fold table_step (zip ops rs) (fd_mask el)" by blast
  from S have ok: "loop_ok el'" and st: "in_step (epoll_watched interest) (el', w')"
    unfolding epoll.served_def by simp_all
  from st have "\<forall>fd. 0 \<le> fd \<and> fd < n \<longrightarrow> epoll_watched interest (apidata el') w' fd = fd_mask el' fd"
    by (simp add: in_step_def n new)
  with m ok t new(2) show ?thesis by auto
qed

theorem epoll_watches_table_witness:
  "\<exists>rs el' w'. mapM_prog (file_op_run (epoll_env kernel_epoll (still_env 0 \<lparr>epfd = 0\<rparr>)))
       [Register 1 AE_READABLE 5 0, Register 1 AE_WRITABLE 6 0, Unregister 1 AE_READABLE]
       ((small_loop \<lparr>epfd = 7\<rparr> 0 []), \<lambda>_ _. None) = (Ret rs, (el', w')) \<and>
     epoll_watched (\<lambda>w. w) (apidata el') w' 1 = fd_mask el' 1"
proof -
  let ?E = "epoll_env kernel_epoll (still_env 0 \<lparr>epfd = 0\<rparr>)"
  have c: "aeCreateEventLoop ?E 2 [blank_event, blank_event] [(0, 0), (0, 0)] (\<lambda>_ _. None) =
      (Some (small_loop \<lparr>epfd = 7\<rparr> 0 []), (\<lambda>_ _. None))"
    by (auto simp: aeCreateEventLoop_def still_env_def epoll_env_def epoll_create_state_def kernel_epoll_def
        small_loop_def blank_event_def AE_NONE_def)
  let ?ops = "[Register 1 AE_READABLE 5 0, Register 1 AE_WRITABLE 6 0, Unregister 1 AE_READABLE]"
  have "\<forall>op \<in> set ?ops. file_op_ok op"
    by (simp add: valid_mask_def AE_READABLE_def AE_WRITABLE_def AE_NONE_def)
  from epoll_watches_table [OF kernel_epoll_lawful kernel_epoll_fresh c _ _ this] obtain rs el' w' where
    "mapM_prog (file_op_run ?E) ?ops (small_loop \<lparr>epfd = 7\<rparr> 0 [], \<lambda>_ _. None) = (Ret rs, (el', w'))"
    "\<forall>fd. 0 \<le> fd \<and> fd < 2 \<longrightarrow> epoll_watched (\<lambda>w. w) (apidata el') w' fd = fd_mask el' fd"
    by auto
  then show ?thesis by (intro exI conjI) (assumption, simp)
qed

text \<open>C32: The same over select, whose two sets hold exactly the table, for a loop of at most \<open>FD_SETSIZE\<close>
  descriptors.\<close>

theorem select_watches_table:
  assumes "aeCreateEventLoop (select_env malloc sel E) n raw fr w = (Some el, w1)"
    and "length raw = nat n" and "0 \<le> n" and "n \<le> FD_SETSIZE" and "\<forall>op \<in> set ops. file_op_ok op"
  shows "\<exists>rs el' w'. mapM_prog (file_op_run (select_env malloc sel E)) ops (el, w1) = (Ret rs, (el', w')) \<and>
    loop_ok el' \<and> fd_mask el' = fold table_step (zip ops rs) (\<lambda>_. AE_NONE) \<and>
    (\<forall>fd. 0 \<le> fd \<and> fd < n \<longrightarrow> mask_of (s_rfds (apidata el') fd) (s_wfds (apidata el') fd) = fd_mask el' fd)"
proof -
  note new = new_loop(2,3) [OF assms(1-3)]
  from select.ops_served [OF select_created [OF assms(1-4)] assms(5)] obtain rs el' w' where
    m: "mapM_prog (file_op_run (select_env malloc sel E)) ops (el, w1) = (Ret rs, (el', w'))"
    and S: "select.served (el', w')" and n: "setsize el' = setsize el"
    and t: "fd_mask el' = fold table_step (zip ops rs) (fd_mask el)" by blast
  from S have ok: "loop_ok el'" and st: "in_step select_watched (el', w')"
    unfolding select.served_def by simp_all
  from st have "\<forall>fd. 0 \<le> fd \<and> fd < n \<longrightarrow> mask_of (s_rfds (apidata el') fd) (s_wfds (apidata el') fd) = fd_mask el' fd"
    by (simp add: in_step_def select_watched_def n new)
  with m ok t new(2) show ?thesis by auto
qed

theorem select_watches_table_witness:
  "\<exists>rs el' w'. mapM_prog (file_op_run (select_env (\<lambda>w. (True, w)) (\<lambda>n r w t u. ((0, r, w), u))
         (still_env 0 \<lparr>s_rfds = (\<lambda>_. False), s_wfds = (\<lambda>_. False)\<rparr>)))
       [Register 0 AE_READABLE 5 0, Register 9 AE_READABLE 5 0]
       ((small_loop \<lparr>s_rfds = (\<lambda>_. False), s_wfds = (\<lambda>_. False)\<rparr> 0 []), ()) = (Ret rs, (el', w')) \<and>
     mask_of (s_rfds (apidata el') 0) (s_wfds (apidata el') 0) = fd_mask el' 0"
proof -
  let ?d = "\<lparr>s_rfds = (\<lambda>_. False), s_wfds = (\<lambda>_. False)\<rparr>"
  let ?E = "select_env (\<lambda>w. (True, w)) (\<lambda>n r w t u. ((0, r, w), u)) (still_env 0 ?d)"
  have c: "aeCreateEventLoop ?E 2 [blank_event, blank_event] [(0, 0), (0, 0)] () =
      (Some (small_loop \<lparr>s_rfds = (\<lambda>_. False), s_wfds = (\<lambda>_. False)\<rparr> 0 []), ())"
    by (simp add: aeCreateEventLoop_def still_env_def select_env_def select_create_state_def
        small_loop_def blank_event_def AE_NONE_def)
  let ?ops = "[Register 0 AE_READABLE 5 0, Register 9 AE_READABLE 5 0]"
  have "\<forall>op \<in> set ?ops. file_op_ok op"
    by (simp add: valid_mask_def AE_READABLE_def AE_WRITABLE_def AE_NONE_def)
  from select_watches_table [OF c _ _ _ this] obtain rs el' w' where
    "mapM_prog (file_op_run ?E) ?ops (small_loop ?d 0 [], ()) = (Ret rs, (el', w'))"
    "\<forall>fd. 0 \<le> fd \<and> fd < 2 \<longrightarrow> mask_of (s_rfds (apidata el') fd) (s_wfds (apidata el') fd) = fd_mask el' fd"
    by (auto simp: FD_SETSIZE_def)
  then show ?thesis by (intro exI conjI) (assumption, simp)
qed

section \<open>A round over epoll\<close>

text \<open>What a round does once the kernel has reported \<open>evs\<close>: it stores them, fires them in order, and goes on to the timers.\<close>

definition after_wait ::
  "(epoll_state, 'w) ae_env \<Rightarrow> nat \<Rightarrow> c_int \<Rightarrow> (int \<times> c_int) list \<Rightarrow> ((epoll_state, 'w) lst, nat option) prog" where
  "after_wait E fuel flags evs =
     andthen (updel (\<lambda>el. el\<lparr>fired := map (\<lambda>(fd, e). (fd, ep_mask e)) evs @ drop (length evs) (fired el)\<rparr>))
    (andthen (mapM_prog (fire E) [0..<length evs])
       (if flags AND AE_TIME_EVENTS \<noteq> 0
        then bnd (processTimeEvents E fuel) (\<lambda>n. ret (map_option ((+) (length evs)) n))
        else ret (Some (length evs))))"

lemma epoll_same_timers: "same_timers (epoll_env L E) E"
  by (simp add: same_timers_def epoll_env_def)

lemma fire_over_epoll: "fire (epoll_env L E) = fire E"
proof -
  have "run_proc (epoll_env L E) = run_proc E"
    by (intro ext) (simp add: run_proc_def epoll_env_def split: option.split)
  then show ?thesis by (intro ext) (simp only: fire_def)
qed

lemma round_over_epoll:
  assumes "flags AND AE_FILE_EVENTS \<noteq> 0"
    and "maxfd el \<noteq> - 1 \<or> flags AND AE_TIME_EVENTS \<noteq> 0 \<and> flags AND AE_DONT_WAIT = 0"
    and "poll_timeout E flags (el, w) = (Ret tvp, (el, w0))"
  shows "aeProcessEvents (epoll_env L E) fuel flags (el, w) =
    (case ep_wait L (epfd (apidata el)) (setsize el) (epoll_timeout tvp) w0 of
       (evs, w1) \<Rightarrow> after_wait E fuel flags evs (el, w1))"
proof -
  obtain evs w1 where e: "ep_wait L (epfd (apidata el)) (setsize el) (epoll_timeout tvp) w0 = (evs, w1)" by fastforce
  let ?el = "el\<lparr>fired := map (\<lambda>(fd, e). (fd, ep_mask e)) evs @ drop (length evs) (fired el)\<rparr>"
  have t: "poll_timeout (epoll_env L E) flags (el, w) = (Ret tvp, (el, w0))"
    using assms(3) by (simp add: same_timers_ops [OF epoll_same_timers])
  have p: "api_poll (epoll_env L E) tvp (el, w0) = (Ret (length evs), (?el, w1))"
    by (simp add: epoll_env_def epoll_poll_def ae_simps bnd_def prog_simps e)
  show ?thesis
    using assms(1,2) t p
    by (simp add: aeProcessEvents_def after_wait_def ae_simps bnd_def prog_simps andthen_def e fire_over_epoll
        same_timers_round [OF epoll_same_timers] split: outcome.splits prod.splits)
qed

section \<open>Properties: timers\<close>

text \<open>The search for the nearest timer finds one exactly when there are timers, and no timer is due
  before the one it finds.\<close>

lemma nearest_is_earliest:
  shows "(aeSearchNearestTimer tes = None \<longleftrightarrow> tes = []) \<and>
    (\<forall>n. aeSearchNearestTimer tes = Some n \<longrightarrow> n \<in> set tes \<and> (\<forall>te \<in> set tes. due_of n \<le> due_of te))"
  by (meson nearest_None nearest_Some)

lemma timer_wait_past:
  assumes "0 \<le> te_when_ms te" "te_when_ms te < 1000" "0 \<le> ms" "ms < 1000" and "due_of te < Due s ms"
  shows "ms_of (timer_wait te (s, ms)) = (te_when_ms te - ms) mod 1000"
proof (cases "te_when_ms te < ms")
  case True
  then have "te_when_sec te \<le> s" using assms(5) by (auto simp: due_of_def less_due_def)
  from timer_wait_overdue [OF assms(1) True assms(4) this]
  have w: "ms_of (timer_wait te (s, ms)) = te_when_ms te - ms + 1000" by simp
  have "(te_when_ms te - ms) mod 1000 = (te_when_ms te - ms + 1000) mod 1000" by simp
  also have "\<dots> = te_when_ms te - ms + 1000" using True assms by (intro mod_pos_pos_trivial) auto
  finally show ?thesis using w by simp
next
  case False
  then have "te_when_sec te < s" using assms(5) by (auto simp: due_of_def less_due_def)
  then have "ms_of (timer_wait te (s, ms)) = te_when_ms te - ms"
    using False sdiv_ms [of "te_when_ms te - ms"] by (simp add: timer_wait_def ms_of_def Let_def)
  also have "\<dots> = (te_when_ms te - ms) mod 1000"
    using False assms by (intro mod_pos_pos_trivial [symmetric]) auto
  finally show ?thesis .
qed

lemma ms_word_small: "0 \<le> d \<Longrightarrow> d < 2 ^ 31 \<Longrightarrow> sint (word_of_int d :: c_int) = d"
  by (simp add: signed_of_int signed_take_bit_int_eq_self)

lemma ms_word_wraps:
  assumes "2 ^ 31 \<le> d" "d < 2 ^ 32"
  shows "sint (word_of_int d :: c_int) = d - 2 ^ 32"
proof -
  have "(d + 2 ^ 31) mod 2 ^ 32 = (d + 2 ^ 31 - 2 ^ 32) mod 2 ^ 32" by (rule minus_mod_self2 [symmetric])
  also have "\<dots> = d + 2 ^ 31 - 2 ^ 32" using assms by (intro mod_pos_pos_trivial) simp_all
  finally show ?thesis by (simp add: signed_of_int signed_take_bit_eq_take_bit_shift take_bit_eq_mod)
qed

text \<open>C33: A round over epoll that handles all events first asks the kernel (having read the clock where there are timers) to wait \<open>T\<close>
  milliseconds. Without timers \<open>T\<close> is -1: it waits until a descriptor is ready. When the nearest timer is due in
  \<open>d\<close> milliseconds, \<open>T\<close> is the low 32 bits of \<open>d\<close>: exactly \<open>d\<close> below \<open>2^31\<close>, and from there to \<open>2^32\<close> negative, so
  that the kernel blocks and the timer does not wake the loop. When the timer is overdue the round still
  waits, for the difference of the milliseconds modulo a second.\<close>

theorem sleeps_until_timer:
  fixes E :: "(epoll_state, 'w) ae_env"
  assumes "\<forall>te \<in> set (timeEvents el). 0 \<le> te_when_ms te \<and> te_when_ms te < 1000"
    and "now_of E w = Due s ms" and "0 \<le> ms" and "ms < 1000"
  shows "\<exists>T. (\<forall>L fuel. aeProcessEvents (epoll_env L E) fuel AE_ALL_EVENTS (el, w) =
      (case ep_wait L (epfd (apidata el)) (setsize el) T (if timeEvents el = [] then w else snd (os_gettimeofday E w)) of
         (evs, w1) \<Rightarrow> after_wait E fuel AE_ALL_EVENTS evs (el, w1))) \<and>
    (case aeSearchNearestTimer (timeEvents el) of
       None \<Rightarrow> T = - 1
     | Some n \<Rightarrow>
         let d = te_when_sec n * 1000 + te_when_ms n - (s * 1000 + ms) in
         if Due s ms \<le> due_of n
         then T = word_of_int d \<and> (d < 2 ^ 31 \<longrightarrow> sint T = d) \<and> (2 ^ 31 \<le> d \<and> d < 2 ^ 32 \<longrightarrow> sint T < 0)
         else sint T = (te_when_ms n - ms) mod 1000)"
proof -
  have f: "AE_ALL_EVENTS AND AE_FILE_EVENTS \<noteq> 0" "AE_ALL_EVENTS AND AE_TIME_EVENTS \<noteq> 0"
    "AE_ALL_EVENTS AND AE_DONT_WAIT = 0"
    by (simp_all add: AE_ALL_EVENTS_def AE_FILE_EVENTS_def AE_TIME_EVENTS_def AE_DONT_WAIT_def)
  note round = round_over_epoll [OF f(1)]
  show ?thesis
  proof (cases "aeSearchNearestTimer (timeEvents el)")
    case None
    then have "poll_timeout E AE_ALL_EVENTS (el, w) = (Ret None, (el, w))"
      using f by (simp add: poll_timeout_def ae_simps prog_simps)
    moreover have "timeEvents el = []" using None by (simp add: nearest_None)
    ultimately show ?thesis using round [of el E w None w] f
      by (intro exI [of _ "- 1"]) (simp add: epoll_timeout_def aeSearchNearestTimer_def)
  next
    case (Some n)
    have n: "0 \<le> te_when_ms n" "te_when_ms n < 1000" and ne: "timeEvents el \<noteq> []"
      using nearest_Some [OF Some] assms(1) by auto
    let ?tv = "timer_wait n (s, ms)" and ?d = "te_when_sec n * 1000 + te_when_ms n - (s * 1000 + ms)"
    have p: "poll_timeout E AE_ALL_EVENTS (el, w) = (Ret (Some ?tv), (el, snd (os_gettimeofday E w)))"
      using f Some by (simp add: poll_timeout_def ae_simps bnd_def aeGetTime_apply assms(2) prog_simps)
    have T: "epoll_timeout (Some ?tv) = word_of_int (ms_of ?tv)" by (simp add: epoll_timeout_def ms_of_def)
    have future: "ms_of ?tv = ?d \<and> 0 \<le> ?d" if "Due s ms \<le> due_of n"
      using timer_wait_exact [OF n assms(3,4) that] that n assms(3,4) by (auto simp: due_of_def less_eq_due_def)
    have past: "sint (word_of_int (ms_of ?tv) :: c_int) = (te_when_ms n - ms) mod 1000" if "\<not> Due s ms \<le> due_of n"
      using timer_wait_past [OF n assms(3,4), of s] that pos_mod_bound [of 1000 "te_when_ms n - ms"]
      by (simp add: not_le ms_word_small)
    show ?thesis
      using round [OF _ p] f ne Some future past ms_word_small [of ?d] ms_word_wraps [of ?d]
      by (intro exI [of _ "epoll_timeout (Some ?tv)"]) (auto simp: T Let_def)
  qed
qed

theorem sleeps_until_timer_witness:
  "aeProcessEvents (epoll_env echo_epoll (still_env 0 \<lparr>epfd = 7\<rparr>)) 9 AE_ALL_EVENTS
      (small_loop \<lparr>epfd = 7\<rparr> 1 [timer_at 0 2147494 148], []) =
    after_wait (still_env 0 \<lparr>epfd = 7\<rparr>) 9 AE_ALL_EVENTS []
      (small_loop \<lparr>epfd = 7\<rparr> 1 [timer_at 0 2147494 148], [- 2147483648])"
proof -
  let ?E = "still_env 0 \<lparr>epfd = 7\<rparr> :: (epoll_state, int list) ae_env"
    and ?el = "small_loop \<lparr>epfd = 7\<rparr> 1 [timer_at 0 2147494 148]"
  have n: "aeSearchNearestTimer (timeEvents ?el) = Some (timer_at 0 2147494 148)"
    by (simp add: aeSearchNearestTimer_def small_loop_def)
  have "\<forall>te \<in> set (timeEvents ?el). 0 \<le> te_when_ms te \<and> te_when_ms te < 1000"
    by (simp add: small_loop_def timer_at_def)
  note bare = sleeps_until_timer [OF this, of ?E "[] :: int list" 10 500, OF still_now]
  have e: "snd (os_gettimeofday ?E v) = v" "apidata ?el = \<lparr>epfd = 7\<rparr>" "setsize ?el = 2" for v :: "int list"
    by (simp_all add: still_env_def small_loop_def)
  have d: "te_when_sec (timer_at 0 2147494 148) * 1000 + te_when_ms (timer_at 0 2147494 148) - (10 * 1000 + 500) = 2147483648"
    "Due 10 500 \<le> due_of (timer_at 0 2147494 148)"
    by (simp_all add: timer_at_def due_of_def less_eq_due_def)
  from bare obtain T where
    round: "\<forall>L fuel. aeProcessEvents (epoll_env L ?E) fuel AE_ALL_EVENTS (?el, []) =
      (case ep_wait L 7 2 T [] of (evs, w1) \<Rightarrow> after_wait ?E fuel AE_ALL_EVENTS evs (?el, w1))"
    and "T = word_of_int 2147483648"
    unfolding n option.case Let_def d(1) e by (auto simp: d(2))
  then have "sint T = - 2147483648" using ms_word_wraps [of 2147483648] by simp
  with round show ?thesis by (simp add: echo_epoll_def)
qed

text \<open>The identifiers of the timers are different and were given out.\<close>

definition timers_ok :: "'a aeEventLoop \<Rightarrow> bool" where
  "timers_ok el \<longleftrightarrow> distinct (map te_id (timeEvents el)) \<and>
     (\<forall>te \<in> set (timeEvents el). 0 \<le> sint (te_id te) \<and> sint (te_id te) < sint (timeEventNextId el))"

lemma sint_64_bounds: "- (2 ^ 63) \<le> sint (i :: c_llong)" "sint (i :: c_llong) < 2 ^ 63"
  using sint_ge [of i] sint_lt [of i] by simp_all

lemma sint_64_of: "- (2 ^ 63) \<le> k \<Longrightarrow> k < 2 ^ 63 \<Longrightarrow> sint (word_of_int k :: c_llong) = k"
  by (simp add: signed_of_int signed_take_bit_int_eq_self)

lemma sint_pred:
  assumes "0 \<le> sint i"
  shows "sint (i - 1) = sint (i :: c_llong) - 1"
proof -
  have "i - 1 = word_of_int (sint i - 1)" by simp
  moreover have "sint (word_of_int (sint i - 1) :: c_llong) = sint i - 1"
    using assms sint_64_bounds(2) [of i] by (intro sint_64_of) simp_all
  ultimately show ?thesis by simp
qed

lemma sint_inc:
  assumes "sint i < 2 ^ 63 - 1"
  shows "sint (i + 1) = sint (i :: c_llong) + 1"
proof -
  have "i + 1 = word_of_int (sint i + 1)" by simp
  moreover have "sint (word_of_int (sint i + 1) :: c_llong) = sint i + 1"
    using assms sint_64_bounds(1) [of i] by (intro sint_64_of) simp_all
  ultimately show ?thesis by simp
qed

text \<open>A new timer gets an identifier no other timer has, goes to the head of the list and is due the
  given number of milliseconds from now; deleting that identifier gives the old list back.\<close>

lemma timer_create_delete:
  assumes "timers_ok el" and "0 \<le> sint (timeEventNextId el)" and "sint (timeEventNextId el) < 2 ^ 63 - 1"
    and "os_malloc E w = (True, v)" and "now_of E v = Due s ms" and "0 \<le> ms" and "ms < 1000" and "0 \<le> wait"
  shows "\<exists>te el1 w2. aeCreateTimeEvent E wait proc cd None (el, w) = (Ret (timeEventNextId el), (el1, w2)) \<and>
    timers_ok el1 \<and> timeEvents el1 = te # timeEvents el \<and> te_id te = timeEventNextId el \<and>
    te_when_sec te * 1000 + te_when_ms te = s * 1000 + ms + wait \<and>
    aeDeleteTimeEvent E (timeEventNextId el) (el1, w2) = (Ret AE_OK, (el1\<lparr>timeEvents := timeEvents el\<rparr>, w2))"
proof -
  let ?i = "timeEventNextId el" and ?d = "add_ms wait (s, ms)" and ?w2 = "snd (os_gettimeofday E v)"
  let ?te = "\<lparr>te_id = ?i, te_when_sec = fst ?d, te_when_ms = snd ?d, te_timeProc = proc,
             te_finalizerProc = None, te_clientData = cd\<rparr>"
  let ?el = "el\<lparr>timeEventNextId := ?i + 1, timeEvents := ?te # timeEvents el\<rparr>"
  have "aeCreateTimeEvent E wait proc cd None (el, w) = (Ret ?i, (?el, ?w2))"
    using assms(4,5) by (simp add: aeCreateTimeEvent_def aeAddMillisecondsToNow_def ae_simps bnd_def
        aeGetTime_apply prog_simps split: prod.splits)
  moreover have "timers_ok ?el"
    using assms(1,2) sint_inc [OF assms(3)] by (fastforce simp: timers_ok_def)
  moreover have "aeDeleteTimeEvent E ?i (?el, ?w2) = (Ret AE_OK, (?el\<lparr>timeEvents := timeEvents el\<rparr>, ?w2))"
    by (simp add: aeDeleteTimeEvent_def ae_simps prog_simps)
  moreover have "fst ?d * 1000 + snd ?d = s * 1000 + ms + wait" by (rule add_ms_sum(1) [OF assms(8,6,7)])
  ultimately show ?thesis by (intro exI [of _ ?te] exI [of _ ?el] exI [of _ ?w2]) simp
qed

text \<open>C27: When every handler says its timer is done, a round over the timers calls, for each due timer and once, its
  handler with its identifier and data and then its finalizer, in the order of the list; it removes those timers,
  keeps the others, returns their number, and ends within the fuel of (due timers + 1) times all timers. Handlers and
  finalizers may do anything (\<open>seen\<close>, \<open>fin\<close>) to the rest of the program's state, but leave the loop alone, and the clock
  shows one time during the round.\<close>

theorem due_timers_fire_once:
  assumes "one_shot E seen fin" and "os_time E w = (now, w)" and "lastTime el \<le> now" and "timers_ok el"
    and "0 \<le> sint (timeEventNextId el)"
    and "(length (filter (\<lambda>te. due_of te \<le> now_of E w) (timeEvents el)) + 1) * length (timeEvents el) \<le> fuel"
  shows "processTimeEvents E fuel (el, w) =
    (Ret (Some (length (filter (\<lambda>te. due_of te \<le> now_of E w) (timeEvents el)))),
     (el\<lparr>lastTime := now, timeEvents := filter (\<lambda>te. \<not> due_of te \<le> now_of E w) (timeEvents el)\<rparr>,
      fold (\<lambda>te w. (case te_finalizerProc te of None \<Rightarrow> id | Some f \<Rightarrow> fin f (te_clientData te))
              (seen (te_timeProc te) (te_id te) (te_clientData te) w))
        (filter (\<lambda>te. due_of te \<le> now_of E w) (timeEvents el)) w))"
proof -
  let ?max = "timeEventNextId el - 1" and ?el = "el\<lparr>lastTime := now\<rparr>"
  have effect: "(\<lambda>te w. (case te_finalizerProc te of None \<Rightarrow> id | Some f \<Rightarrow> fin f (te_clientData te))
      (seen (te_timeProc te) (te_id te) (te_clientData te) w)) = timer_effect seen fin"
    by (simp add: fun_eq_iff timer_effect_def final_effect_def)
  have "sint ?max = sint (timeEventNextId el) - 1" by (rule sint_pred [OF assms(5)])
  then have f: "fires E w ?max te \<longleftrightarrow> due_of te \<le> now_of E w" if "te \<in> set (timeEvents el)" for te
    using assms(4) that by (fastforce simp: timers_ok_def fires_def)
  have fs: "filter (fires E w ?max) (timeEvents el) = filter (\<lambda>te. due_of te \<le> now_of E w) (timeEvents el)"
    "filter (\<lambda>te. \<not> fires E w ?max te) (timeEvents el) = filter (\<lambda>te. \<not> due_of te \<le> now_of E w) (timeEvents el)"
    by (rule filter_cong; simp add: f)+
  have "processTimeEvents E fuel (el, w) = process_loop E fuel ?max (timeEvents ?el) 0 (?el, w)"
    using assms(2,3) by (simp add: processTimeEvents_def ae_simps prog_simps bnd_def)
  also have "\<dots> = (Ret (Some (0 + length (filter (fires E w ?max) (timeEvents ?el)))),
      (?el\<lparr>timeEvents := filter (\<lambda>te. \<not> fires E w ?max te) (timeEvents ?el)\<rparr>,
       fold (timer_effect seen fin) (filter (fires E w ?max) (timeEvents ?el)) w))"
    using assms(4,6) by (intro one_shot_walk [OF assms(1)]) (simp_all add: fs timers_ok_def)
  finally show ?thesis by (simp add: fs effect)
qed

theorem due_timers_fire_once_witness:
  "processTimeEvents (noting_env ()) 9
     (small_loop () 3 [(timer_at 2 10 499)\<lparr>te_timeProc := 4, te_finalizerProc := Some 6\<rparr>, timer_at 1 10 501, timer_at 0 3 0], []) =
   (Ret (Some 2), (small_loop () 3 [timer_at 1 10 501], [4, 6, 1]))"
proof -
  let ?el = "small_loop () 3 [(timer_at 2 10 499)\<lparr>te_timeProc := 4, te_finalizerProc := Some 6\<rparr>, timer_at 1 10 501, timer_at 0 3 0]"
  have now: "now_of (noting_env ()) w = Due 10 500" for w by (simp add: now_of_def noting_env_def still_env_def)
  have o: "one_shot (noting_env ()) (\<lambda>p i d w. w @ [p]) (\<lambda>f d w. w @ [f])"
    unfolding one_shot_def now by (simp add: noting_env_def still_env_def)
  have t: "timers_ok ?el" by (simp add: timers_ok_def small_loop_def timer_at_def)
  have c: "os_time (noting_env ()) [] = (10, [])" by (simp add: noting_env_def still_env_def)
  have due: "filter (\<lambda>te. due_of te \<le> now_of (noting_env ()) []) (timeEvents ?el) =
      [(timer_at 2 10 499)\<lparr>te_timeProc := 4, te_finalizerProc := Some 6\<rparr>, timer_at 0 3 0]"
    "filter (\<lambda>te. \<not> due_of te \<le> now_of (noting_env ()) []) (timeEvents ?el) = [timer_at 1 10 501]"
    by (simp_all add: now small_loop_def timer_at_def due_of_def less_eq_due_def)
  from due_timers_fire_once [OF o c _ t, where fuel = 9] show ?thesis
    unfolding due by (simp add: small_loop_def timer_at_def)
qed

text \<open>C36: A handler that asks to be called again in 0 milliseconds keeps the walk over the timers going for
  ever: no amount of fuel is enough.\<close>

theorem zero_interval_never_ends:
  assumes "repeats_at_once E" and "os_time E w = (now, w)" and "lastTime el \<le> now"
    and "timeEvents el = [te]" and "sint (te_id te) \<le> sint (timeEventNextId el - 1)" and "due_of te \<le> now_of E w"
  shows "fst (processTimeEvents E fuel (el, w)) = Ret None"
proof -
  have "processTimeEvents E fuel (el, w) =
      process_loop E fuel (timeEventNextId el - 1) [te] 0 (el\<lparr>lastTime := now\<rparr>, w)"
    using assms(2-4) by (simp add: processTimeEvents_def ae_simps prog_simps bnd_def)
  then show ?thesis using repeating_walk [OF assms(1) _ assms(5,6)] assms(4) by simp
qed

theorem zero_interval_never_ends_witness:
  "fst (processTimeEvents (still_env 0 ()) 1000000 (small_loop () 1 [timer_at 0 10 0], ())) = Ret None"
proof -
  have r: "repeats_at_once (still_env 0 ())"
    by (simp add: repeats_at_once_def still_now) (simp add: still_env_def prog_simps)
  show ?thesis
    by (rule zero_interval_never_ends [OF r, where now = 10 and te = "timer_at 0 10 0"])
       (simp_all add: still_now, simp_all add: still_env_def small_loop_def timer_at_def due_of_def less_eq_due_def)
qed

section \<open>Properties: dispatch\<close>

text \<open>C25: Handlers are called only while they are registered, and for what fired. Firing entry \<open>j\<close> with every handler made to
  fail that is not called with the descriptor and the mask of that entry, or is not at the moment of its call the
  one registered with its data for a direction that is watched and fired, changes nothing: no such call is
  made. Nor does it change a round or the main loop that every handler fails which is not registered at the moment
  of its call. This is whatever handlers do to the loop.\<close>

theorem handlers_called_while_registered:
  shows "fire (guarded (\<lambda>e. e = fired el ! j) E) j (el, w) = fire E j (el, w) \<and>
    aeProcessEvents (guarded (\<lambda>e. True) E) = aeProcessEvents E \<and> aeMain (guarded (\<lambda>e. True) E) fuel = aeMain E fuel"
  by (simp add: fire_guarded aeProcessEvents_guarded aeMain_def main_loop_guarded)

text \<open>C26: A round over epoll that handles file events (such as the rounds of the main loop, which handle all events)
  calls, for the events the kernel reports and in the order of the report, the handlers the table asks for:
  each one registered for a direction that is watched and fired, with its data and the fired mask, reading before
  writing, and once where one handler serves both; an error or hang-up counts as writable. Then it runs the timers
  if it is to, and returns the number of events. Two things are assumed of the round: the handlers return and leave the table
  and the array of fired events as they are (they may change the rest of the loop and of the program's state), and what is
  reported is in the table, with a handler for each watched direction.\<close>

theorem ready_events_dispatched:
  assumes "table_kept E h" and "flags AND AE_FILE_EVENTS \<noteq> 0"
    and "maxfd el \<noteq> - 1 \<or> flags AND AE_TIME_EVENTS \<noteq> 0 \<and> flags AND AE_DONT_WAIT = 0"
    and "poll_timeout E flags (el, w) = (Ret tvp, (el, w0))"
    and "ep_wait L (epfd (apidata el)) (setsize el) (epoll_timeout tvp) w0 = (evs, w1)"
    and "\<forall>(fd, e) \<in> set evs. ready (events el) fd"
  shows "aeProcessEvents (epoll_env L E) fuel flags (el, w) =
    (if flags AND AE_TIME_EVENTS \<noteq> 0
     then bnd (processTimeEvents E fuel) (\<lambda>n. ret (map_option ((+) (length evs)) n))
     else ret (Some (length evs)))
      (calls_effect h (concat (map (\<lambda>(fd, e). due_calls (events el) (fd, ep_mask e)) evs))
        (el\<lparr>fired := map (\<lambda>(fd, e). (fd, ep_mask e)) evs @ drop (length evs) (fired el)\<rparr>, w1))"
proof -
  let ?el = "el\<lparr>fired := map (\<lambda>(fd, e). (fd, ep_mask e)) evs @ drop (length evs) (fired el)\<rparr>"
  have "map (\<lambda>j. due_calls (events ?el) (fired ?el ! j)) [0..<length evs] =
      map (\<lambda>(fd, e). due_calls (events el) (fd, ep_mask e)) evs"
    by (rule nth_equalityI) (simp_all add: nth_append case_prod_unfold)
  note calls = arg_cong [OF this, of concat]
  have "\<forall>j \<in> set [0..<length evs]. ready (events (fst (?el, w1))) (fst (fired (fst (?el, w1)) ! j))"
    using assms(6) by (auto simp: nth_append case_prod_unfold)
  from fires_observed [OF assms(1) this] obtain us where "mapM_prog (fire E) [0..<length evs] (?el, w1) =
      (Ret us, calls_effect h (concat (map (\<lambda>(fd, e). due_calls (events el) (fd, ep_mask e)) evs)) (?el, w1))"
    unfolding fst_conv calls by blast
  then show ?thesis
    by (simp add: round_over_epoll [OF assms(2-4)] assms(5) after_wait_def andthen_def ae_simps bnd_def [of "mapM_prog f xs" for f xs])
qed

theorem ready_events_dispatched_witness:
  "\<exists>el'. aeProcessEvents (epoll_env (reporting_epoll [(1, EPOLLIN OR EPOLLOUT), (0, EPOLLHUP)]) (noting_env \<lparr>epfd = 7\<rparr>)) 0
      AE_ALL_EVENTS (two_handlers \<lparr>epfd = 7\<rparr>, []) = (Ret (Some 2), (el', [8, 6]))"
proof -
  let ?evs = "[(1, EPOLLIN OR EPOLLOUT), (0, EPOLLHUP)]" and ?E = "noting_env \<lparr>epfd = 7\<rparr>" and ?el = "two_handlers \<lparr>epfd = 7\<rparr>"
  have h: "table_kept ?E (\<lambda>f fd cd m (el, w). (el, w @ [f]))" by (auto simp: table_kept_def noting_env_def)
  have f: "AE_ALL_EVENTS AND AE_FILE_EVENTS \<noteq> 0" "AE_ALL_EVENTS AND AE_TIME_EVENTS \<noteq> 0"
    "AE_ALL_EVENTS AND AE_DONT_WAIT = 0"
    by (simp_all add: AE_ALL_EVENTS_def AE_FILE_EVENTS_def AE_TIME_EVENTS_def AE_DONT_WAIT_def)
  have t: "poll_timeout ?E AE_ALL_EVENTS (?el, []) = (Ret None, (?el, []))"
    using f by (simp add: poll_timeout_def ae_simps prog_simps two_handlers_def small_loop_def aeSearchNearestTimer_def)
  have m: "maxfd ?el \<noteq> - 1" by (simp add: two_handlers_def)
  have p: "ep_wait (reporting_epoll ?evs) ep n t w = (?evs, w)" for ep n t w by (simp add: reporting_epoll_def)
  have r: "\<forall>(fd, e) \<in> set ?evs. ready (events ?el) fd" by (simp add: ready_def two_handlers_def)
  have c: "concat (map (\<lambda>(fd, e). due_calls (events ?el) (fd, ep_mask e)) ?evs) = [(8, 1, 0, 3), (6, 0, 0, 2)]"
    by (simp add: due_calls_def two_handlers_def ep_mask_def EPOLLIN_def EPOLLOUT_def EPOLLERR_def EPOLLHUP_def
        AE_READABLE_def AE_WRITABLE_def Let_def)
  from ready_events_dispatched [OF h f(1) _ t p r, of 0] m f(2) show ?thesis
    unfolding c by (simp add: processTimeEvents_def noting_env_def still_env_def two_handlers_def small_loop_def ae_simps
        bnd_def prog_simps)
qed

section \<open>Properties: the adapter\<close>

text \<open>C34: The clean-up of one asynchronous context unregisters its descriptor and frees its adapter, and
  it stops the loop: the thread that serves every other context of the client runs no further round.\<close>

theorem cleanup_stops_thread:
  assumes "epoll_lawful L interest" and "loop_ok el" and "in_step (epoll_watched interest) (el, w)"
    and "h d = Some e" and "0 \<le> sint (ev_fd e)"
  shows "\<exists>el' w'. ae_cleanup (epoll_env L E) d ((el, w), h) = (Ret (), ((el', w'), h(d := None))) \<and>
    (\<forall>x. fd_mask el' x = (if x = sint (ev_fd e)
       then fd_mask el x AND NOT (mask_of (ev_reading e) (ev_writing e)) else fd_mask el x)) \<and>
    (\<forall>fuel. main_loop (epoll_env L E) fuel (el', w') = (Ret True, (el', w')))"
proof -
  have "epoll.served interest (setsize el) L (el, w)"
    unfolding epoll.served_def using assms(1-3) by simp
  from epoll.cleanup_served [where h = h and d = d and e = e, OF this assms(4,5)] obtain el' w' where
    c: "ae_cleanup (epoll_env L E) d ((el, w), h) = (Ret (), ((el', w'), h(d := None)))" and s: "el_stop el'"
    and m: "\<forall>x. fd_mask el' x = (if x = sint (ev_fd e)
       then fd_mask el x AND NOT (mask_of (ev_reading e) (ev_writing e)) else fd_mask el x)" by blast
  have "\<forall>fuel. main_loop (epoll_env L E) fuel (el', w') = (Ret True, (el', w'))"
    by (simp add: main_loop_stopped [OF s])
  with c m show ?thesis by blast
qed

theorem cleanup_stops_thread_witness:
  "\<exists>el' w'. ae_cleanup (epoll_env kernel_epoll (still_env 0 \<lparr>epfd = 7\<rparr>)) 3
      ((small_loop \<lparr>epfd = 7\<rparr> 0 [], \<lambda>_ _. None),
       [3 \<mapsto> \<lparr>ev_context = 2, ev_loop = 0, ev_fd = 1, ev_reading = True, ev_writing = False\<rparr>])
      = (Ret (), ((el', w'), \<lambda>_. None)) \<and>
    main_loop (epoll_env kernel_epoll (still_env 0 \<lparr>epfd = 7\<rparr>)) 9 (el', w') = (Ret True, (el', w'))"
proof -
  let ?el = "small_loop \<lparr>epfd = 7\<rparr> 0 []"
    and ?e = "\<lparr>ev_context = 2, ev_loop = 0, ev_fd = 1, ev_reading = True, ev_writing = False\<rparr>"
  have ok: "loop_ok ?el" by (simp add: loop_ok_def small_loop_def blank_event_def valid_mask_def AE_NONE_def)
  have st: "in_step (epoll_watched (\<lambda>w. w)) (?el, \<lambda>_ _. None)"
    by (auto simp: in_step_def epoll_watched_def fd_mask_def small_loop_def blank_event_def AE_NONE_def
        less_Suc_eq nth_Cons' dest: zless_imp_add1_zle)
  have e: "[3 \<mapsto> ?e] 3 = Some ?e" and fd: "0 \<le> sint (ev_fd ?e)" by simp_all
  from cleanup_stops_thread [OF kernel_epoll_lawful ok st, of "[3 \<mapsto> ?e]" 3 ?e] e fd
  show ?thesis by fastforce
qed

text \<open>C40: A descriptor beyond the table of the loop is marked as being read and is not watched, and nothing
  reports it: the context never hears of its data.\<close>

theorem descriptor_beyond_table:
  assumes "h d = Some e" and "\<not> ev_reading e" and "setsize el \<le> sint (ev_fd e)"
  shows "redisAeAddRead E d ((el, w), h) = (Ret (), ((el, w), h(d \<mapsto> e\<lparr>ev_reading := True\<rparr>))) \<and>
    fd_mask el (sint (ev_fd e)) = AE_NONE"
  using redisAeAddRead_beyond [where h = h, OF assms] assms(3) by (simp add: fd_mask_def)

theorem descriptor_beyond_table_witness:
  "redisAeAddRead (still_env 0 ()) 3
     ((small_loop () 0 [], ()), [3 \<mapsto> \<lparr>ev_context = 2, ev_loop = 0, ev_fd = 64, ev_reading = False, ev_writing = False\<rparr>]) =
   (Ret (), ((small_loop () 0 [], ()), [3 \<mapsto> \<lparr>ev_context = 2, ev_loop = 0, ev_fd = 64, ev_reading = True, ev_writing = False\<rparr>]))"
proof -
  let ?e = "\<lparr>ev_context = 2, ev_loop = 0, ev_fd = 64, ev_reading = False, ev_writing = False\<rparr>"
  have e: "[3 \<mapsto> ?e] 3 = Some ?e" by simp
  have "setsize (small_loop () 0 []) \<le> sint (ev_fd ?e)" by (simp add: small_loop_def)
  from descriptor_beyond_table [where h = "[3 \<mapsto> ?e]", OF e _ this, of "still_env 0 ()" "()"] show ?thesis by simp
qed

end
