(* ===== verification/Zmalloc.thy ===== *)
theory Zmalloc
  imports Utils
begin

unbundle bit_operations_syntax

text \<open>
  The allocator wrapper that counts the memory in use (\<open>cpp/src/zmalloc.c\<close>), as the Makefile builds it:
  over the C library's \<open>malloc\<close>, with a header of one \<open>size_t\<close> before every block, and with atomic
  updates of the counter. The C library's allocator is a parameter.
\<close>

section \<open>State\<close>

text \<open>
  A block of the C heap: its size in bytes, the header (its first word) and the bytes after it, where
  known. \<open>zmalloc_oom_handler\<close> is \<open>None\<close> for the default handler, which aborts; another handler may
  return.
\<close>

record zblock =
  blk_size :: c_size
  blk_header :: c_size
  blk_data :: "nat \<Rightarrow> char option"

record zstate =
  zheap :: "nat \<rightharpoonup> zblock"
  used_memory :: c_size
  zmalloc_thread_safe :: bool
  zmalloc_oom_handler :: "nat option"
  used_memory_mutex :: bool

text \<open>
  \<open>lm_malloc h n\<close> is the address of a new block of \<open>n\<close> bytes, \<open>lm_realloc h a n\<close> where the block at
  \<open>a\<close> is moved; \<open>None\<close> is NULL.
\<close>

record libc_alloc =
  lm_malloc :: "(nat \<rightharpoonup> zblock) \<Rightarrow> c_size \<Rightarrow> nat option"
  lm_realloc :: "(nat \<rightharpoonup> zblock) \<Rightarrow> nat \<Rightarrow> c_size \<Rightarrow> nat option"

definition PREFIX_SIZE :: c_size where "PREFIX_SIZE = 8"

section \<open>The counter\<close>

text \<open>Rounding up to a multiple of \<open>sizeof(long)\<close>, in unsigned arithmetic.\<close>

definition pad_long :: "c_size \<Rightarrow> c_size" where
  "pad_long n = (if n AND (8 - 1) \<noteq> 0 then n + (8 - (n AND (8 - 1))) else n)"

text \<open>
  The atomic builtins return the new value. Where the compiler has none, a mutex is held around the
  update (\<open>_mutex\<close>).
\<close>

definition update_zmalloc_stat_add :: "c_size \<Rightarrow> (zstate, c_size) prog" where
  "update_zmalloc_stat_add n =
     andthen (updst (\<lambda>s. s\<lparr>used_memory := used_memory s + n\<rparr>)) (getst used_memory)"

definition update_zmalloc_stat_sub :: "c_size \<Rightarrow> (zstate, c_size) prog" where
  "update_zmalloc_stat_sub n =
     andthen (updst (\<lambda>s. s\<lparr>used_memory := used_memory s - n\<rparr>)) (getst used_memory)"

definition with_stat_mutex :: "(zstate, 'a) prog \<Rightarrow> (zstate, 'a) prog" where
  "with_stat_mutex = ScopedLock used_memory_mutex (\<lambda>b s. s\<lparr>used_memory_mutex := b\<rparr>)"

definition update_zmalloc_stat_add_mutex :: "c_size \<Rightarrow> (zstate, unit) prog" where
  "update_zmalloc_stat_add_mutex n = with_stat_mutex (updst (\<lambda>s. s\<lparr>used_memory := used_memory s + n\<rparr>))"

definition update_zmalloc_stat_sub_mutex :: "c_size \<Rightarrow> (zstate, unit) prog" where
  "update_zmalloc_stat_sub_mutex n = with_stat_mutex (updst (\<lambda>s. s\<lparr>used_memory := used_memory s - n\<rparr>))"

definition update_zmalloc_stat_alloc :: "c_size \<Rightarrow> (zstate, unit) prog" where
  "update_zmalloc_stat_alloc n =
     bnd (getst zmalloc_thread_safe) (\<lambda>safe.
     if safe then bnd (update_zmalloc_stat_add (pad_long n)) (\<lambda>_. ret ())
     else updst (\<lambda>s. s\<lparr>used_memory := used_memory s + pad_long n\<rparr>))"

definition update_zmalloc_stat_free :: "c_size \<Rightarrow> (zstate, unit) prog" where
  "update_zmalloc_stat_free n =
     bnd (getst zmalloc_thread_safe) (\<lambda>safe.
     if safe then bnd (update_zmalloc_stat_sub (pad_long n)) (\<lambda>_. ret ())
     else updst (\<lambda>s. s\<lparr>used_memory := used_memory s - pad_long n\<rparr>))"

section \<open>Allocation\<close>

text \<open>\<open>free\<close> of the C library, on the start of a block; \<open>zlibc_free\<close> is that and does not count.\<close>

definition libc_free :: "nat option \<Rightarrow> (zstate, unit) prog" where
  "libc_free ptr =
     (case ptr of
        None \<Rightarrow> ret ()
      | Some a \<Rightarrow>
          bnd (getst (\<lambda>s. zheap s a)) (\<lambda>b.
          if b = None then abort (Undef UseAfterFree) else updst (\<lambda>s. s\<lparr>zheap := (zheap s)(a := None)\<rparr>)))"

definition zlibc_free :: "nat option \<Rightarrow> (zstate, unit) prog" where
  "zlibc_free ptr = libc_free ptr"

definition zmalloc_default_oom :: "c_size \<Rightarrow> (zstate, unit) prog" where
  "zmalloc_default_oom sz = abort Aborted"

definition call_oom_handler :: "c_size \<Rightarrow> (zstate, unit) prog" where
  "call_oom_handler sz =
     bnd (getst zmalloc_oom_handler) (\<lambda>h. case h of None \<Rightarrow> zmalloc_default_oom sz | Some f \<Rightarrow> ret ())"

text \<open>
  Writing the header into a block that is shorter than it: \<open>sz + PREFIX_SIZE\<close> has wrapped around.
\<close>

definition new_block :: "libc_alloc \<Rightarrow> (nat \<Rightarrow> char option) \<Rightarrow> c_size \<Rightarrow> (zstate, nat) prog" where
  "new_block A data sz =
     bnd (getst (\<lambda>s. lm_malloc A (zheap s) (sz + PREFIX_SIZE))) (\<lambda>p.
     case p of
       None \<Rightarrow> andthen (call_oom_handler sz) (abort (Undef NullDeref))
     | Some a \<Rightarrow>
         if sz + PREFIX_SIZE < PREFIX_SIZE then abort (Undef OutOfBounds)
         else
           andthen (updst (\<lambda>s. s\<lparr>zheap := (zheap s)(a \<mapsto>
               \<lparr>blk_size = sz + PREFIX_SIZE, blk_header = sz, blk_data = data\<rparr>)\<rparr>))
          (andthen (update_zmalloc_stat_alloc (sz + PREFIX_SIZE))
                   (ret (a + 8))))"

definition zmalloc :: "libc_alloc \<Rightarrow> c_size \<Rightarrow> (zstate, nat) prog" where
  "zmalloc A sz = new_block A (\<lambda>_. None) sz"

definition zcalloc :: "libc_alloc \<Rightarrow> c_size \<Rightarrow> (zstate, nat) prog" where
  "zcalloc A sz = new_block A (\<lambda>i. if i < unat sz then Some CHR 0x00 else None) sz"

text \<open>The block a pointer handed out points into: its header is 8 bytes before it.\<close>

definition block_at :: "nat \<Rightarrow> (zstate, zblock) prog" where
  "block_at ptr =
     bnd (getst (\<lambda>s. if ptr < 8 then None else zheap s (ptr - 8))) (\<lambda>b.
     case b of None \<Rightarrow> abort (Undef UseAfterFree) | Some b \<Rightarrow> ret b)"

definition zrealloc :: "libc_alloc \<Rightarrow> nat option \<Rightarrow> c_size \<Rightarrow> (zstate, nat) prog" where
  "zrealloc A ptr sz =
     (case ptr of
        None \<Rightarrow> zmalloc A sz
      | Some p \<Rightarrow>
          bnd (block_at p) (\<lambda>b.
          let oldsize = blk_header b in
          bnd (getst (\<lambda>s. lm_realloc A (zheap s) (p - 8) (sz + PREFIX_SIZE))) (\<lambda>np.
          case np of
            None \<Rightarrow> andthen (call_oom_handler sz) (abort (Undef NullDeref))
          | Some a \<Rightarrow>
              if sz + PREFIX_SIZE < PREFIX_SIZE then abort (Undef OutOfBounds)
              else
                andthen (updst (\<lambda>s. s\<lparr>zheap := (zheap s)(p - 8 := None, a \<mapsto>
                  \<lparr>blk_size = sz + PREFIX_SIZE, blk_header = sz,
                   blk_data = (\<lambda>i. if i < unat oldsize \<and> i < unat sz then blk_data b i else None)\<rparr>)\<rparr>))
               (andthen (update_zmalloc_stat_free oldsize)
               (andthen (update_zmalloc_stat_alloc sz)
                        (ret (a + 8)))))))"

definition zmalloc_size :: "nat \<Rightarrow> (zstate, c_size) prog" where
  "zmalloc_size ptr = bnd (block_at ptr) (\<lambda>b. ret (pad_long (blk_header b) + PREFIX_SIZE))"

definition zfree :: "nat option \<Rightarrow> (zstate, unit) prog" where
  "zfree ptr =
     (case ptr of
        None \<Rightarrow> ret ()
      | Some p \<Rightarrow>
          bnd (block_at p) (\<lambda>b.
          andthen (update_zmalloc_stat_free (blk_header b + PREFIX_SIZE))
                  (updst (\<lambda>s. s\<lparr>zheap := (zheap s)(p - 8 := None)\<rparr>))))"

definition zstrdup :: "libc_alloc \<Rightarrow> string \<Rightarrow> (zstate, nat) prog" where
  "zstrdup A str =
     (let bytes = c_str str @ [CHR 0x00]; l = of_nat (length bytes) in
      bnd (zmalloc A l) (\<lambda>p.
      andthen (updst (\<lambda>s. s\<lparr>zheap := (zheap s)(p - 8 := map_option (\<lambda>b.
                 b\<lparr>blk_data := (\<lambda>i. if i < length bytes then Some (bytes ! i) else blk_data b i)\<rparr>)
                 (zheap s (p - 8)))\<rparr>))
              (ret p)))"

text \<open>A thread-safe read is an atomic addition of 0, or a read under the mutex.\<close>

definition zmalloc_used_memory :: "(zstate, c_size) prog" where
  "zmalloc_used_memory =
     bnd (getst zmalloc_thread_safe) (\<lambda>safe. if safe then update_zmalloc_stat_add 0 else getst used_memory)"

definition zmalloc_used_memory_mutex :: "(zstate, c_size) prog" where
  "zmalloc_used_memory_mutex =
     bnd (getst zmalloc_thread_safe) (\<lambda>safe.
     if safe then with_stat_mutex (getst used_memory) else getst used_memory)"

definition zmalloc_enable_thread_safeness :: "(zstate, unit) prog" where
  "zmalloc_enable_thread_safeness = updst (\<lambda>s. s\<lparr>zmalloc_thread_safe := True\<rparr>)"

definition zmalloc_set_oom_handler :: "nat option \<Rightarrow> (zstate, unit) prog" where
  "zmalloc_set_oom_handler f = updst (\<lambda>s. s\<lparr>zmalloc_oom_handler := f\<rparr>)"

section \<open>Reading the process's memory use\<close>

text \<open>
  \<open>strchr\<close> on the rest of a buffer: the rest from the byte found, or NULL at the end of the string;
  a buffer without either is read past its end.
\<close>

fun strchr :: "string \<Rightarrow> char \<Rightarrow> string option outcome" where
  "strchr [] c = Abrupt (Undef OutOfBounds)"
| "strchr (x # xs) c =
     (if x = c then Ret (Some (x # xs)) else if x = CHR 0x00 then Ret None else strchr xs c)"

fun skip_fields :: "nat \<Rightarrow> string \<Rightarrow> string option outcome" where
  "skip_fields 0 p = Ret (Some p)"
| "skip_fields (Suc count) p =
     (case strchr p CHR '' '' of
        Abrupt e \<Rightarrow> Abrupt e
      | Ret None \<Rightarrow> Ret None
      | Ret (Some q) \<Rightarrow> skip_fields count (tl q))"

text \<open>
  \<open>stat\<close> is what \<open>read\<close> returned from \<open>/proc/<pid>/stat\<close>, if it could be opened and was not empty;
  \<open>raw\<close> is the uninitialised buffer of 4096 bytes it was read into.
\<close>

definition zmalloc_get_rss :: "c_int \<Rightarrow> string \<Rightarrow> string option \<Rightarrow> c_size outcome" where
  "zmalloc_get_rss page raw stat =
     (case stat of
        None \<Rightarrow> Ret 0
      | Some d \<Rightarrow>
          if d = [] then Ret 0
          else
            let got = take 4096 d; buf = got @ drop (length got) raw in
            case skip_fields 23 buf of
              Abrupt e \<Rightarrow> Abrupt e
            | Ret None \<Rightarrow> Ret 0
            | Ret (Some p) \<Rightarrow>
                (case strchr p CHR '' '' of
                   Abrupt e \<Rightarrow> Abrupt e
                 | Ret None \<Rightarrow> Ret 0
                 | Ret (Some x) \<Rightarrow>
                     Ret (word_of_int (strtol10 (take (length p - length x) p)) * scast page)))"

text \<open>
  The other two versions: from the task's information, where the system has it, and as a last resort the
  counter. \<open>task\<close> is the resident size, if the task port could be had.
\<close>

definition zmalloc_get_rss_task :: "c_size option \<Rightarrow> c_size" where
  "zmalloc_get_rss_task task = (case task of None \<Rightarrow> 0 | Some resident_size \<Rightarrow> resident_size)"

definition zmalloc_get_rss_estimate :: "(zstate, c_size) prog" where
  "zmalloc_get_rss_estimate = zmalloc_used_memory"

text \<open>Single-precision conversion and division are parameters.\<close>

definition zmalloc_get_fragmentation_ratio ::
  "(c_size \<Rightarrow> 'f) \<Rightarrow> ('f \<Rightarrow> 'f \<Rightarrow> 'f) \<Rightarrow> c_size \<Rightarrow> (zstate, 'f) prog" where
  "zmalloc_get_fragmentation_ratio to_float fdiv rss =
     bnd zmalloc_used_memory (\<lambda>used. ret (fdiv (to_float rss) (to_float used)))"

text \<open>
  The sum over the lines of \<open>/proc/self/smaps\<close>, as \<open>fgets\<close> returned them. \<open>strncmp\<close> stops at a NUL,
  which neither the field nor a line of that file holds.
\<close>

fun smap_sum :: "string \<Rightarrow> string list \<Rightarrow> c_size \<Rightarrow> c_size" where
  "smap_sum field [] bytes = bytes"
| "smap_sum field (line # lines) bytes =
     smap_sum field lines
       (if take (length field) line = field \<and> CHR ''k'' \<in> set line
        then bytes + word_of_int (strtol10 (c_str (drop (length field)
               (line[length (takeWhile (\<lambda>c. c \<noteq> CHR ''k'') line) := CHR 0x00])))) * 1024
        else bytes)"

definition zmalloc_get_smap_bytes_by_field :: "string \<Rightarrow> string list option \<Rightarrow> c_size" where
  "zmalloc_get_smap_bytes_by_field field smaps =
     (case smaps of None \<Rightarrow> 0 | Some lines \<Rightarrow> smap_sum field lines 0)"

text \<open>Where there is no such file, the sum is 0.\<close>

definition zmalloc_get_smap_bytes_by_field_none :: "string \<Rightarrow> c_size" where
  "zmalloc_get_smap_bytes_by_field_none field = 0"

definition zmalloc_get_private_dirty :: "string list option \<Rightarrow> c_size" where
  "zmalloc_get_private_dirty smaps = zmalloc_get_smap_bytes_by_field ''Private_Dirty:'' smaps"

section \<open>Lemmas: rounding\<close>

lemma and_7: "n AND (8 - 1) = (n :: c_size) mod 8"
  using take_bit_eq_mask [of 3 n] by (simp add: mask_eq_exp_minus_1 take_bit_eq_mod)

lemma unat_mod_8: "unat ((n :: c_size) mod 8) = unat n mod 8"
  by (simp add: unat_mod_distrib)

lemma pad_long_add_8: "pad_long (n + PREFIX_SIZE) = pad_long n + PREFIX_SIZE"
proof -
  have "unat ((n + 8) mod 8) = unat (n mod 8 :: c_size)"
    by (simp add: unat_mod_8 unat_word_ariths mod_mod_cancel)
  then have "(n + 8) AND (8 - 1) = n AND (8 - 1 :: c_size)" by (simp only: and_7 unsigned_word_eqI)
  then show ?thesis by (simp add: pad_long_def PREFIX_SIZE_def)
qed

lemma round_up_8: "n mod 8 \<noteq> 0 \<Longrightarrow> n + (8 - n mod 8) = (n + 7) div 8 * (8 :: nat)"
proof -
  assume r: "n mod 8 \<noteq> 0"
  have n: "n = 8 * (n div 8) + n mod 8" and "n mod 8 < 8" by simp_all
  then have "(n + 7) div 8 = n div 8 + 1" using r by linarith
  then show ?thesis using n \<open>n mod 8 < 8\<close> by linarith
qed

lemma round_up_8_exact: "n mod 8 = 0 \<Longrightarrow> (n + 7) div 8 * 8 = (n :: nat)"
  by presburger

lemma unat_pad_long:
  assumes "unat n + 8 < 2 ^ 64"
  shows "unat (pad_long n) = (unat n + 7) div 8 * 8"
proof -
  let ?r = "unat n mod 8"
  have r: "unat (n AND (8 - 1)) = ?r" by (simp only: and_7 unat_mod_8)
  show ?thesis
  proof (cases "n AND (8 - 1) = 0")
    case True
    then have "?r = 0" using r by simp
    from round_up_8_exact [OF this] show ?thesis using True by (simp add: pad_long_def)
  next
    case False
    then have "?r \<noteq> 0" using r by (metis unsigned_eq_0_iff)
    have le: "n AND (8 - 1) \<le> 8" using r by (simp add: word_le_nat_alt)
    have "unat (8 - (n AND (8 - 1))) = 8 - ?r" using le r by (simp add: unat_sub)
    moreover have "unat n + (8 - ?r) < 2 ^ 64" using assms by simp
    ultimately have "unat (pad_long n) = unat n + (8 - ?r)"
      using False by (simp add: pad_long_def unat_add_lem [THEN iffD1])
    also have "\<dots> = (unat n + 7) div 8 * 8" using \<open>?r \<noteq> 0\<close> by (rule round_up_8)
    finally show ?thesis .
  qed
qed

section \<open>Lemmas: the counter is the sum over the blocks\<close>

definition block_cost :: "zblock \<Rightarrow> c_size" where
  "block_cost b = pad_long (blk_header b) + PREFIX_SIZE"

definition counts :: "(zblock \<Rightarrow> c_size) \<Rightarrow> zstate \<Rightarrow> bool" where
  "counts cost s \<longleftrightarrow> finite (dom (zheap s)) \<and>
     used_memory s = (\<Sum>a \<in> dom (zheap s). cost (the (zheap s a)))"

definition zmalloc_ok :: "zstate \<Rightarrow> bool" where
  "zmalloc_ok = counts block_cost"

text \<open>The allocator gives out addresses not in use, except that a block may stay where it is.\<close>

definition alloc_lawful :: "libc_alloc \<Rightarrow> bool" where
  "alloc_lawful A \<longleftrightarrow>
     (\<forall>h n a. lm_malloc A h n = Some a \<longrightarrow> h a = None) \<and>
     (\<forall>h p n a. lm_realloc A h p n = Some a \<longrightarrow> a = p \<or> h a = None)"

lemma realloc_law: "alloc_lawful A \<Longrightarrow> lm_realloc A h p n = Some a \<Longrightarrow> a = p \<or> h a = None"
  by (simp add: alloc_lawful_def)

lemma sum_update:
  fixes cost :: "zblock \<Rightarrow> c_size"
  assumes "finite (dom h)" and "h a = None"
  shows "(\<Sum>x \<in> dom (h(a \<mapsto> b)). cost (the ((h(a \<mapsto> b)) x))) = cost b + (\<Sum>x \<in> dom h. cost (the (h x)))"
proof -
  have "(\<Sum>x \<in> dom h. cost (the ((h(a \<mapsto> b)) x))) = (\<Sum>x \<in> dom h. cost (the (h x)))"
    by (rule sum.cong) (use assms(2) in auto)
  moreover have "a \<notin> dom h" using assms(2) by auto
  ultimately show ?thesis using assms(1) by simp
qed

lemma sum_remove:
  fixes cost :: "zblock \<Rightarrow> c_size"
  assumes "finite (dom h)" and "h a = Some b"
  shows "(\<Sum>x \<in> dom (h(a := None)). cost (the ((h(a := None)) x))) = (\<Sum>x \<in> dom h. cost (the (h x))) - cost b"
proof -
  have e: "(h(a := None))(a \<mapsto> b) = h" using assms(2) by auto
  have "finite (dom (h(a := None)))" using assms(1) by simp
  from sum_update [OF this, where cost = cost and a = a and b = b, unfolded e]
  show ?thesis by (simp only: fun_upd_same simp_thms) simp
qed

lemma counts_new:
  "counts cost s \<Longrightarrow> zheap s a = None \<Longrightarrow>
     counts cost (s\<lparr>zheap := (zheap s)(a \<mapsto> b), used_memory := used_memory s + cost b\<rparr>)"
  using sum_update [where h = "zheap s" and a = a and b = b and cost = cost] by (simp add: counts_def)

lemma counts_free:
  "counts cost s \<Longrightarrow> zheap s a = Some b \<Longrightarrow>
     counts cost (s\<lparr>used_memory := used_memory s - cost b, zheap := (zheap s)(a := None)\<rparr>)"
  using sum_remove [where h = "zheap s" and a = a and b = b and cost = cost] by (simp add: counts_def)

lemmas zmalloc_ok_new = counts_new [of block_cost, folded zmalloc_ok_def]
lemmas zmalloc_ok_free = counts_free [of block_cost, folded zmalloc_ok_def]

lemma stat_apply:
  "update_zmalloc_stat_alloc n s = (Ret (), s\<lparr>used_memory := used_memory s + pad_long n\<rparr>)"
  "update_zmalloc_stat_free n s = (Ret (), s\<lparr>used_memory := used_memory s - pad_long n\<rparr>)"
  by (simp_all add: update_zmalloc_stat_alloc_def update_zmalloc_stat_free_def update_zmalloc_stat_add_def
      update_zmalloc_stat_sub_def prog_simps)

lemma new_block_ok:
  assumes A: "alloc_lawful A" and ok: "zmalloc_ok s" and r: "new_block A data n s = (Ret p, s')"
  shows "zmalloc_ok s'" and "zheap s (p - 8) = None" and "8 \<le> p"
    and "zheap s' = (zheap s)(p - 8 \<mapsto> \<lparr>blk_size = n + PREFIX_SIZE, blk_header = n, blk_data = data\<rparr>)"
proof -
  from r obtain a where m: "lm_malloc A (zheap s) (n + PREFIX_SIZE) = Some a"
    by (cases "lm_malloc A (zheap s) (n + PREFIX_SIZE)")
       (auto simp: new_block_def call_oom_handler_def zmalloc_default_oom_def prog_simps bnd_def split: option.splits)
  let ?b = "\<lparr>blk_size = n + PREFIX_SIZE, blk_header = n, blk_data = data\<rparr>"
  have fresh: "zheap s a = None" using A m by (simp add: alloc_lawful_def)
  have c: "pad_long (n + PREFIX_SIZE) = block_cost ?b" by (simp add: block_cost_def pad_long_add_8)
  have "s' = s\<lparr>zheap := (zheap s)(a \<mapsto> ?b), used_memory := used_memory s + block_cost ?b\<rparr>" and p: "p = a + 8"
    using r m by (auto simp: new_block_def prog_simps bnd_def stat_apply c split: if_splits)
  with zmalloc_ok_new [OF ok fresh, of ?b] fresh
  show "zmalloc_ok s'" and "zheap s (p - 8) = None" and "8 \<le> p" and "zheap s' = (zheap s)(p - 8 \<mapsto> ?b)"
    by simp_all
qed

lemma block_at_Some: "block_at p s = (r, s') \<Longrightarrow> s' = s \<and>
    (\<exists>b. r = Ret b \<and> 8 \<le> p \<and> zheap s (p - 8) = Some b \<or> r = Abrupt (Undef UseAfterFree))"
  by (auto simp: block_at_def prog_simps bnd_def split: option.splits if_splits)

lemma zfree_ok:
  assumes "zmalloc_ok s" and "zfree ptr s = (Ret (), s')"
  shows "zmalloc_ok s'"
proof (cases ptr)
  case None
  with assms show ?thesis by (simp add: zfree_def prog_simps)
next
  case (Some p)
  obtain r t where r: "block_at p s = (r, t)" by fastforce
  from block_at_Some [OF r] assms(2) Some r obtain b where b: "t = s" "r = Ret b" "zheap s (p - 8) = Some b"
    by (auto simp: zfree_def bnd_def)
  have "pad_long (blk_header b + PREFIX_SIZE) = block_cost b" by (simp add: block_cost_def pad_long_add_8)
  then have "s' = s\<lparr>used_memory := used_memory s - block_cost b, zheap := (zheap s)(p - 8 := None)\<rparr>"
    using assms(2) Some r b by (simp add: zfree_def bnd_def prog_simps stat_apply)
  with zmalloc_ok_free [OF assms(1) b(3)] show ?thesis by simp
qed

lemma zrealloc_ok:
  assumes A: "alloc_lawful A" and ok: "zmalloc_ok s" and r: "zrealloc A ptr n s = (Ret q, s')"
  shows "zmalloc_ok s'"
proof (cases ptr)
  case None
  with r new_block_ok(1) [OF A ok] show ?thesis by (simp add: zrealloc_def zmalloc_def)
next
  case (Some p)
  obtain x t where x: "block_at p s = (x, t)" by fastforce
  from block_at_Some [OF x] r Some x obtain b where b: "t = s" "x = Ret b" "zheap s (p - 8) = Some b"
    by (auto simp: zrealloc_def bnd_def)
  from r Some x b obtain a where m: "lm_realloc A (zheap s) (p - 8) (n + PREFIX_SIZE) = Some a"
    by (cases "lm_realloc A (zheap s) (p - 8) (n + PREFIX_SIZE)")
       (auto simp: zrealloc_def Let_def call_oom_handler_def zmalloc_default_oom_def prog_simps bnd_def split: option.splits)
  let ?b = "\<lparr>blk_size = n + PREFIX_SIZE, blk_header = n,
             blk_data = (\<lambda>i. if i < unat (blk_header b) \<and> i < unat n then blk_data b i else None)\<rparr>"
  let ?s = "s\<lparr>used_memory := used_memory s - block_cost b, zheap := (zheap s)(p - 8 := None)\<rparr>"
  have "a = p - 8 \<or> zheap s a = None" by (rule realloc_law [OF A m])
  then have "zheap ?s a = None" by auto
  from zmalloc_ok_new [OF zmalloc_ok_free [OF ok b(3)] this, of ?b]
  show ?thesis
    using r Some x b m
    by (auto simp: zrealloc_def Let_def bnd_def prog_simps stat_apply block_cost_def algebra_simps split: if_splits)
qed

end
