(* ===== verification/Zmalloc_Properties.thy ===== *)
theory Zmalloc_Properties
  imports Zmalloc
begin

text \<open>
  The properties of the counting allocator: the counter over any sequence of calls, the outcomes of an
  allocation, duplicating a string, and what is read from the files of the process.
\<close>

section \<open>Sequences of calls\<close>

datatype zop = Z_malloc c_size | Z_calloc c_size | Z_realloc "nat option" c_size | Z_free "nat option" | Z_strdup string
  | Z_enable_thread_safeness | Z_set_oom_handler "nat option"

fun zop_run :: "libc_alloc \<Rightarrow> zop \<Rightarrow> (zstate, nat option) prog" where
  "zop_run A (Z_malloc n) = bnd (zmalloc A n) (\<lambda>p. ret (Some p))"
| "zop_run A (Z_calloc n) = bnd (zcalloc A n) (\<lambda>p. ret (Some p))"
| "zop_run A (Z_realloc p n) = bnd (zrealloc A p n) (\<lambda>p. ret (Some p))"
| "zop_run A (Z_free p) = bnd (zfree p) (\<lambda>_. ret None)"
| "zop_run A (Z_strdup t) = bnd (zstrdup A t) (\<lambda>p. ret (Some p))"
| "zop_run A Z_enable_thread_safeness = bnd zmalloc_enable_thread_safeness (\<lambda>_. ret None)"
| "zop_run A (Z_set_oom_handler f) = bnd (zmalloc_set_oom_handler f) (\<lambda>_. ret None)"

text \<open>Writing into a block leaves its cost alone.\<close>

lemma zmalloc_ok_write:
  assumes "zmalloc_ok s" and "\<And>b. blk_header (g b) = blk_header b"
  shows "zmalloc_ok (s\<lparr>zheap := (zheap s)(a := map_option g (zheap s a))\<rparr>)"
proof -
  let ?h = "(zheap s)(a := map_option g (zheap s a))"
  have d: "dom ?h = dom (zheap s)" by (auto split: if_splits)
  have "(\<Sum>x \<in> dom ?h. block_cost (the (?h x))) = (\<Sum>x \<in> dom (zheap s). block_cost (the (zheap s x)))"
    unfolding d by (rule sum.cong) (use assms(2) in \<open>auto simp: block_cost_def\<close>)
  then show ?thesis using assms(1) d by (simp add: zmalloc_ok_def counts_def)
qed

lemma zstrdup_run:
  assumes "zstrdup A t s = (Ret p, s')"
  defines "bytes \<equiv> c_str t @ [CHR 0x00]"
  obtains s1 where "zmalloc A (of_nat (length bytes)) s = (Ret p, s1)"
    and "s' = s1\<lparr>zheap := (zheap s1)(p - 8 := map_option (\<lambda>b.
                 b\<lparr>blk_data := (\<lambda>i. if i < length bytes then Some (bytes ! i) else blk_data b i)\<rparr>) (zheap s1 (p - 8)))\<rparr>"
  using assms by (auto simp: zstrdup_def Let_def prog_simps bnd_def split: prod.splits outcome.splits)

text \<open>The two switches leave the heap and the counter alone.\<close>

lemma zmalloc_ok_switches:
  "zmalloc_ok (s\<lparr>zmalloc_thread_safe := b\<rparr>) = zmalloc_ok s" "zmalloc_ok (s\<lparr>zmalloc_oom_handler := f\<rparr>) = zmalloc_ok s"
  by (simp_all add: zmalloc_ok_def counts_def)

lemma zop_keeps_counter:
  assumes A: "alloc_lawful A" and ok: "zmalloc_ok s" and r: "zop_run A op s = (Ret x, s')"
  shows "zmalloc_ok s'"
proof (cases op)
  case (Z_malloc n)
  with r new_block_ok(1) [OF A ok] show ?thesis by (auto simp: zmalloc_def bnd_eq_Ret prog_simps)
next
  case (Z_calloc n)
  with r new_block_ok(1) [OF A ok] show ?thesis by (auto simp: zcalloc_def bnd_eq_Ret prog_simps)
next
  case (Z_realloc p n)
  with r zrealloc_ok [OF A ok] show ?thesis by (auto simp: bnd_eq_Ret prog_simps)
next
  case (Z_free p)
  with r zfree_ok [OF ok] show ?thesis by (auto simp: bnd_eq_Ret prog_simps)
next
  case (Z_strdup t)
  with r obtain p where "zstrdup A t s = (Ret p, s')" by (auto simp: bnd_eq_Ret prog_simps)
  then show ?thesis
  proof (rule zstrdup_run)
    fix s1
    assume "zmalloc A (of_nat (length (c_str t @ [CHR 0x00]))) s = (Ret p, s1)"
    then have "zmalloc_ok s1" using new_block_ok(1) [OF A ok] by (simp add: zmalloc_def)
    from zmalloc_ok_write [OF this] show "s' = s1\<lparr>zheap := (zheap s1)(p - 8 := map_option (\<lambda>b.
        b\<lparr>blk_data := (\<lambda>i. if i < length (c_str t @ [CHR 0x00]) then Some ((c_str t @ [CHR 0x00]) ! i) else blk_data b i)\<rparr>)
        (zheap s1 (p - 8)))\<rparr> \<Longrightarrow> zmalloc_ok s'" by simp
  qed
next
  case Z_enable_thread_safeness
  with r ok show ?thesis by (auto simp: zmalloc_enable_thread_safeness_def prog_simps bnd_def zmalloc_ok_switches)
next
  case (Z_set_oom_handler f)
  with r ok show ?thesis by (auto simp: zmalloc_set_oom_handler_def prog_simps bnd_def zmalloc_ok_switches)
qed

lemma zops_keep_counter:
  assumes A: "alloc_lawful A"
  shows "zmalloc_ok s \<Longrightarrow> mapM_prog (zop_run A) ops s = (Ret xs, s') \<Longrightarrow> zmalloc_ok s'"
proof (induction ops arbitrary: s xs)
  case Nil
  then show ?case by (simp add: prog_simps)
next
  case (Cons op ops)
  then obtain x s1 ys where "zop_run A op s = (Ret x, s1)" and "mapM_prog (zop_run A) ops s1 = (Ret ys, s')"
    by (auto simp: bnd_eq_Ret prog_simps)
  with Cons zop_keeps_counter [OF A] show ?case by blast
qed

section \<open>A small C library\<close>

text \<open>Blocks of up to 4096 bytes, at the first multiple of 16 in use by nobody; the heap holds at most
  ten.\<close>

definition small_alloc :: libc_alloc where
  "small_alloc =
     (let place = (\<lambda>h n. if n > 4096 then None else List.find (\<lambda>a. h a = None) (map ((*) 16) [1..<11]))
      in \<lparr>lm_malloc = place, lm_realloc = (\<lambda>h a n. place h n)\<rparr>)"

lemma small_alloc_lawful: "alloc_lawful small_alloc"
  by (auto simp: alloc_lawful_def small_alloc_def Let_def find_Some_iff split: if_splits)

definition empty_zstate :: zstate where
  "empty_zstate = \<lparr>zheap = (\<lambda>_. None), used_memory = 0, zmalloc_thread_safe = False,
     zmalloc_oom_handler = None, used_memory_mutex = False\<rparr>"

lemma empty_zstate_ok: "zmalloc_ok empty_zstate"
  by (simp add: zmalloc_ok_def counts_def empty_zstate_def)

section \<open>Properties: the counter\<close>

text \<open>C28: After any sequence of allocations, reallocations, duplications and releases that return, from
  the empty heap on, with the atomic updates of the counter switched on and handlers set at any point of it, the
  reported use is the sum over the live blocks of the size asked for, rounded up to eight, and the header; so it is
  zero when all is released.\<close>

theorem used_memory_is_sum:
  assumes "alloc_lawful A" and "mapM_prog (zop_run A) ops empty_zstate = (Ret xs, s)"
  shows "finite (dom (zheap s)) \<and>
    zmalloc_used_memory s = (Ret (\<Sum>a \<in> dom (zheap s). pad_long (blk_header (the (zheap s a))) + PREFIX_SIZE), s)"
proof -
  have "zmalloc_ok s" using zops_keep_counter [OF assms(1) empty_zstate_ok assms(2)] .
  moreover have "zmalloc_used_memory s = (Ret (used_memory s), s)"
    by (simp add: zmalloc_used_memory_def update_zmalloc_stat_add_def prog_simps)
  ultimately show ?thesis by (simp add: zmalloc_ok_def counts_def block_cost_def)
qed

lemma small_run:
  "mapM_prog (zop_run small_alloc) [Z_malloc 5, Z_enable_thread_safeness, Z_calloc 16, Z_free (Some 24)] empty_zstate =
     (Ret [Some 24, None, Some 40, None],
      \<lparr>zheap = [32 \<mapsto> \<lparr>blk_size = 24, blk_header = 16, blk_data = (\<lambda>i. if i < 16 then Some CHR 0x00 else None)\<rparr>],
       used_memory = 24, zmalloc_thread_safe = True, zmalloc_oom_handler = None, used_memory_mutex = False\<rparr>)"
proof -
  have p: "pad_long 13 = 16" "pad_long 24 = 24" by code_simp+
  show ?thesis
    by (simp add: zmalloc_def zcalloc_def zfree_def new_block_def block_at_def small_alloc_def empty_zstate_def
        zmalloc_enable_thread_safeness_def PREFIX_SIZE_def Let_def prog_simps bnd_def stat_apply p upt_conv_Cons fun_upd_twist)
qed

theorem used_memory_is_sum_witness:
  "\<exists>xs s. mapM_prog (zop_run small_alloc) [Z_malloc 5, Z_enable_thread_safeness, Z_calloc 16, Z_free (Some 24)] empty_zstate =
      (Ret xs, s) \<and> zmalloc_thread_safe s \<and> zmalloc_used_memory s = (Ret 24, s)"
proof -
  have p: "pad_long 16 = 16" by code_simp
  show ?thesis
    using small_run used_memory_is_sum [OF small_alloc_lawful small_run] by (auto simp: p PREFIX_SIZE_def)
qed

lemma mod_wrap: "a < m \<Longrightarrow> k < m \<Longrightarrow> (a + k) mod m = (if a + k < m then a + k else a + k - (m :: nat))"
  by (simp add: le_mod_geq)

lemma header_wraps: "n + PREFIX_SIZE < PREFIX_SIZE \<longleftrightarrow> 2 ^ 64 - 8 \<le> unat n"
proof -
  have "unat (n + 8) = (unat n + 8) mod 2 ^ 64" by (simp add: unat_word_ariths)
  moreover have "unat n < 2 ^ 64" using unsigned_less [of n] by simp
  ultimately have "unat (n + 8) = (if unat n + 8 < 2 ^ 64 then unat n + 8 else unat n + 8 - 2 ^ 64)"
    by (simp only: mod_wrap) (simp add: mod_wrap)
  then show ?thesis using \<open>unat n < 2 ^ 64\<close> by (auto simp: PREFIX_SIZE_def word_less_nat_alt)
qed

text \<open>The state an allocation leaves, and how it fails.\<close>

definition with_block :: "zstate \<Rightarrow> nat \<Rightarrow> zblock \<Rightarrow> zstate" where
  "with_block s a b = s\<lparr>zheap := (zheap s)(a \<mapsto> b), used_memory := used_memory s + block_cost b\<rparr>"

lemma zmalloc_returns:
  assumes "lm_malloc A (zheap s) (n + PREFIX_SIZE) = Some a" and "unat n < 2 ^ 64 - 8"
  shows "zmalloc A n s = (Ret (a + 8),
    with_block s a \<lparr>blk_size = n + PREFIX_SIZE, blk_header = n, blk_data = (\<lambda>_. None)\<rparr>)"
  using assms header_wraps [of n]
  by (simp add: zmalloc_def new_block_def prog_simps bnd_def stat_apply with_block_def block_cost_def pad_long_add_8)

lemma zmalloc_fails:
  "lm_malloc A (zheap s) (n + PREFIX_SIZE) = Some a \<Longrightarrow> 2 ^ 64 - 8 \<le> unat n \<Longrightarrow> zmalloc A n s = (Abrupt (Undef OutOfBounds), s)"
  "lm_malloc A (zheap s) (n + PREFIX_SIZE) = None \<Longrightarrow>
     zmalloc A n s = (Abrupt (if zmalloc_oom_handler s = None then Aborted else Undef NullDeref), s)"
  using header_wraps [of n]
  by (simp_all add: zmalloc_def new_block_def call_oom_handler_def zmalloc_default_oom_def prog_simps bnd_def
      split: option.splits)

text \<open>What can be done with the block: ask its size, release it, and release it again.\<close>

lemma zmalloc_size_new: "zmalloc_size (a + 8) (with_block s a b) = (Ret (block_cost b), with_block s a b)"
  by (simp add: zmalloc_size_def block_at_def prog_simps bnd_def with_block_def block_cost_def)

lemma zfree_new: "zheap s a = None \<Longrightarrow> zfree (Some (a + 8)) (with_block s a b) = (Ret (), s)"
  by (simp add: zfree_def block_at_def prog_simps bnd_def with_block_def block_cost_def stat_apply pad_long_add_8 fun_upd_idem)

lemma zfree_gone: "zheap s a = None \<Longrightarrow> zfree (Some (a + 8)) s = (Abrupt (Undef UseAfterFree), s)"
  by (simp add: zfree_def block_at_def prog_simps bnd_def)

text \<open>C37: An allocation of \<open>n\<close> bytes for which the C library has a block, with room for \<open>n\<close> and the header below \<open>2^64\<close>,
  returns a pointer \<open>p\<close> such that \<open>zmalloc_size p\<close> is \<open>n\<close> rounded up to eight plus the header's eight, the reported use has
  grown by that, every other block and every other field is as before, and \<open>zfree p\<close> takes the allocator back to
  the state before the allocation, in which releasing \<open>p\<close> again is a use after free. Otherwise nothing is changed,
  and the process aborts when there is no memory, or dereferences NULL when a handler of the user's returns, or, where size
  and header together wrap around 64 bits, writes the header past a block too small for it.\<close>

theorem zmalloc_outcomes:
  assumes "alloc_lawful A"
  shows "case lm_malloc A (zheap s) (n + PREFIX_SIZE) of
      None \<Rightarrow> zmalloc A n s = (Abrupt (if zmalloc_oom_handler s = None then Aborted else Undef NullDeref), s)
    | Some a \<Rightarrow>
        if 2 ^ 64 - 8 \<le> unat n then zmalloc A n s = (Abrupt (Undef OutOfBounds), s)
        else \<exists>p s' k. zmalloc A n s = (Ret p, s') \<and> zmalloc_size p s' = (Ret k, s') \<and>
          (unat n < 2 ^ 64 - 16 \<longrightarrow> unat k = (unat n + 7) div 8 * 8 + 8) \<and>
          used_memory s' = used_memory s + k \<and> zheap s' |` (- {p - 8}) = zheap s \<and>
          s' = s\<lparr>zheap := zheap s', used_memory := used_memory s'\<rparr> \<and>
          zfree (Some p) s' = (Ret (), s) \<and> zfree (Some p) s = (Abrupt (Undef UseAfterFree), s)"
proof (cases "lm_malloc A (zheap s) (n + PREFIX_SIZE)")
  case None
  then show ?thesis by (simp add: zmalloc_fails(2))
next
  case (Some a)
  then have new: "zheap s a = None" using assms by (simp add: alloc_lawful_def)
  let ?b = "\<lparr>blk_size = n + PREFIX_SIZE, blk_header = n, blk_data = (\<lambda>_. None)\<rparr>"
  let ?s' = "with_block s a ?b"
  have size: "unat (block_cost ?b) = (unat n + 7) div 8 * 8 + 8" if "unat n < 2 ^ 64 - 16"
    using that unat_pad_long [of n] by (simp add: block_cost_def PREFIX_SIZE_def unat_word_ariths)
  have frame: "zheap ?s' |` (- {a}) = zheap s" using new by (auto simp: with_block_def restrict_map_def fun_eq_iff)
  have "?s' = s\<lparr>zheap := zheap ?s', used_memory := used_memory ?s'\<rparr>" "used_memory ?s' = used_memory s + block_cost ?b"
    by (simp_all add: with_block_def)
  with frame size zmalloc_returns [OF Some] zmalloc_size_new [of a s ?b] zfree_new [OF new] zfree_gone [OF new]
  have "unat n < 2 ^ 64 - 8 \<Longrightarrow> \<exists>p s' k. zmalloc A n s = (Ret p, s') \<and> zmalloc_size p s' = (Ret k, s') \<and>
      (unat n < 2 ^ 64 - 16 \<longrightarrow> unat k = (unat n + 7) div 8 * 8 + 8) \<and>
      used_memory s' = used_memory s + k \<and> zheap s' |` (- {p - 8}) = zheap s \<and>
      s' = s\<lparr>zheap := zheap s', used_memory := used_memory s'\<rparr> \<and>
      zfree (Some p) s' = (Ret (), s) \<and> zfree (Some p) s = (Abrupt (Undef UseAfterFree), s)"
    by (intro exI [of _ "a + 8"] exI [of _ ?s'] exI [of _ "block_cost ?b"]) simp
  then show ?thesis using Some zmalloc_fails(1) [OF Some] by simp
qed

theorem zmalloc_outcomes_witness:
  "zmalloc small_alloc (- 3) empty_zstate = (Abrupt (Undef OutOfBounds), empty_zstate) \<and>
   (\<exists>p s k. zmalloc small_alloc 5 empty_zstate = (Ret p, s) \<and> zmalloc_size p s = (Ret k, s) \<and> unat k = 16 \<and>
      zfree (Some p) s = (Ret (), empty_zstate))"
proof -
  have m: "lm_malloc small_alloc (zheap empty_zstate) (5 + PREFIX_SIZE) = Some 16"
    "lm_malloc small_alloc (zheap empty_zstate) (- 3 + PREFIX_SIZE) = Some 16"
    by (simp_all add: small_alloc_def empty_zstate_def PREFIX_SIZE_def Let_def upt_conv_Cons)
  note use = zmalloc_outcomes [OF small_alloc_lawful, where s = empty_zstate]
  show ?thesis using use [where n = "- 3"] use [where n = 5] unfolding m by auto
qed

text \<open>Duplicating a string: the block handed out was not in use and holds the bytes of the string up to
  and with its first NUL; no other block changes.\<close>

lemma zstrdup_copies:
  assumes "alloc_lawful A" and "zmalloc_ok s" and "zstrdup A t s = (Ret p, s')"
  shows "\<exists>b. 8 \<le> p \<and> zheap s (p - 8) = None \<and> zheap s' (p - 8) = Some b \<and>
    blk_header b = of_nat (length (c_str t) + 1) \<and>
    map (blk_data b) [0..<length (c_str t) + 1] = map Some (c_str t @ [CHR 0x00]) \<and>
    zheap s' |` (- {p - 8}) = zheap s"
proof -
  let ?bytes = "c_str t @ [CHR 0x00]"
  show ?thesis
  proof (rule zstrdup_run [OF assms(3)])
    fix s1
    assume m: "zmalloc A (of_nat (length ?bytes)) s = (Ret p, s1)"
      and s': "s' = s1\<lparr>zheap := (zheap s1)(p - 8 := map_option (\<lambda>b.
        b\<lparr>blk_data := (\<lambda>i. if i < length ?bytes then Some (?bytes ! i) else blk_data b i)\<rparr>) (zheap s1 (p - 8)))\<rparr>"
    note new = new_block_ok(2-4) [OF assms(1,2) m [unfolded zmalloc_def]]
    have "map (\<lambda>i. if i < length ?bytes then Some (?bytes ! i) else g i) [0..<length ?bytes] = map Some ?bytes"
      for g :: "nat \<Rightarrow> char option"
      by (rule nth_equalityI) (simp_all del: upt_Suc map_append)
    moreover have "zheap s' |` (- {p - 8}) = zheap s"
      using new(1,3) by (auto simp: s' restrict_map_def fun_eq_iff)
    ultimately show ?thesis using new by (simp add: s')
  qed
qed

section \<open>Properties: the process's memory\<close>

lemma strchr_found: "c \<notin> set f \<Longrightarrow> CHR 0x00 \<notin> set f \<Longrightarrow> strchr (f @ c # r) c = Ret (Some (c # r))"
  by (induction f) auto

lemma skip_fields_blanks:
  "\<forall>f \<in> set fs. CHR '' '' \<notin> set f \<and> CHR 0x00 \<notin> set f \<Longrightarrow>
     skip_fields (length fs) (concat (map (\<lambda>f. f @ [CHR '' '']) fs) @ r) = Ret (Some r)"
  by (induction fs) (simp_all add: strchr_found)

text \<open>The resident size is the number between the 23rd and the 24th blank of the status line times the
  page size. A blank in the name of the program, the second field, is one of those, and moves the number read
  one field to the left.\<close>

lemma rss_after_23_blanks:
  assumes "length fs = 23" and "\<forall>f \<in> set fs. CHR '' '' \<notin> set f \<and> CHR 0x00 \<notin> set f" and "n < 2 ^ 63"
    and "d = concat (map (\<lambda>f. f @ [CHR '' '']) fs) @ nat_to_dec n @ CHR '' '' # rest" and "length d \<le> 4096"
  shows "zmalloc_get_rss page raw (Some d) = Ret (of_nat n * scast page)"
proof -
  have dig: "CHR '' '' \<notin> set (nat_to_dec n)" "CHR 0x00 \<notin> set (nat_to_dec n)"
    using nat_to_dec_digits [of "CHR '' ''" n] nat_to_dec_digits [of "CHR 0x00" n]
    by (auto simp: is_digit_def)
  let ?r = "drop (length d) raw" and ?x = "CHR '' '' # rest @ drop (length d) raw"
  have "skip_fields 23 (d @ ?r) = Ret (Some (nat_to_dec n @ ?x))"
    using skip_fields_blanks [OF assms(2), of "nat_to_dec n @ ?x"] by (simp add: assms(1,4) del: skip_fields.simps)
  moreover have "strchr (nat_to_dec n @ ?x) CHR '' '' = Ret (Some ?x)" using dig by (rule strchr_found)
  moreover have "strtol10 (nat_to_dec n) = int n"
    using strtol10_nat [of "[]" n] assms(3) by (simp add: clamp_long_def)
  moreover have "d \<noteq> []" by (simp add: assms(4))
  ultimately show ?thesis
    using assms(5) by (simp add: zmalloc_get_rss_def Let_def del: skip_fields.simps strchr.simps)
qed

end
