(* ===== verification/Zmalloc_Sized.thy ===== *)
theory Zmalloc_Sized
  imports Zmalloc_Properties
begin

text \<open>
  The other build of the allocator wrapper (\<open>cpp/src/zmalloc.c\<close> with \<open>HAVE_MALLOC_SIZE\<close>): the allocator below
  knows the size of a block, there is no header (\<open>PREFIX_SIZE\<close> is 0), and the counter is moved by that size.
  \<open>usable\<close> is what the allocator says of a block, \<open>usable NULL\<close> included.
\<close>

section \<open>Operations\<close>

type_synonym usable = "zblock option \<Rightarrow> c_size"

definition size_of_block :: "usable \<Rightarrow> nat option \<Rightarrow> (zstate, c_size) prog" where
  "size_of_block usable p =
     (case p of
        None \<Rightarrow> ret (usable None)
      | Some a \<Rightarrow> bnd (getst (\<lambda>s. zheap s a)) (\<lambda>b.
          case b of None \<Rightarrow> abort (Undef UseAfterFree) | Some b \<Rightarrow> ret (usable (Some b))))"

text \<open>A block straight from the allocator; NULL goes to the handler and, if that returns, to the caller.\<close>

definition sized_block :: "libc_alloc \<Rightarrow> usable \<Rightarrow> (nat \<Rightarrow> char option) \<Rightarrow> c_size \<Rightarrow> (zstate, nat option) prog" where
  "sized_block A usable data sz =
     bnd (getst (\<lambda>s. lm_malloc A (zheap s) sz)) (\<lambda>p.
     andthen (case p of
                None \<Rightarrow> call_oom_handler sz
              | Some a \<Rightarrow> updst (\<lambda>s. s\<lparr>zheap := (zheap s)(a \<mapsto> \<lparr>blk_size = sz, blk_header = 0, blk_data = data\<rparr>)\<rparr>))
     (bnd (size_of_block usable p) (\<lambda>n.
      andthen (update_zmalloc_stat_alloc n) (ret p))))"

definition zmalloc_sized :: "libc_alloc \<Rightarrow> usable \<Rightarrow> c_size \<Rightarrow> (zstate, nat option) prog" where
  "zmalloc_sized A usable sz = sized_block A usable (\<lambda>_. None) sz"

definition zcalloc_sized :: "libc_alloc \<Rightarrow> usable \<Rightarrow> c_size \<Rightarrow> (zstate, nat option) prog" where
  "zcalloc_sized A usable sz = sized_block A usable (\<lambda>i. if i < unat sz then Some CHR 0x00 else None) sz"

definition zrealloc_sized :: "libc_alloc \<Rightarrow> usable \<Rightarrow> nat option \<Rightarrow> c_size \<Rightarrow> (zstate, nat option) prog" where
  "zrealloc_sized A usable ptr sz =
     (case ptr of
        None \<Rightarrow> zmalloc_sized A usable sz
      | Some p \<Rightarrow>
          bnd (size_of_block usable ptr) (\<lambda>oldsize.
          bnd (getst (\<lambda>s. (zheap s p, lm_realloc A (zheap s) p sz))) (\<lambda>(b, np).
          andthen (case np of
                     None \<Rightarrow> call_oom_handler sz
                   | Some a \<Rightarrow> updst (\<lambda>s. s\<lparr>zheap := (zheap s)(p := None, a \<mapsto>
                       \<lparr>blk_size = sz, blk_header = 0,
                        blk_data = (\<lambda>i. if i < unat (blk_size (the b)) \<and> i < unat sz then blk_data (the b) i else None)\<rparr>)\<rparr>))
         (andthen (update_zmalloc_stat_free oldsize)
         (bnd (size_of_block usable np) (\<lambda>n.
          andthen (update_zmalloc_stat_alloc n) (ret np)))))))"

definition zfree_sized :: "usable \<Rightarrow> nat option \<Rightarrow> (zstate, unit) prog" where
  "zfree_sized usable ptr =
     (case ptr of
        None \<Rightarrow> ret ()
      | Some p \<Rightarrow>
          bnd (size_of_block usable ptr) (\<lambda>n.
          andthen (update_zmalloc_stat_free n) (libc_free ptr)))"

definition zstrdup_sized :: "libc_alloc \<Rightarrow> usable \<Rightarrow> string \<Rightarrow> (zstate, nat) prog" where
  "zstrdup_sized A usable str =
     (let bytes = c_str str @ [CHR 0x00] in
      bnd (zmalloc_sized A usable (of_nat (length bytes))) (\<lambda>p.
      case p of
        None \<Rightarrow> abort (Undef NullDeref)
      | Some a \<Rightarrow>
          andthen (updst (\<lambda>s. s\<lparr>zheap := (zheap s)(a := map_option (\<lambda>b.
                     b\<lparr>blk_data := (\<lambda>i. if i < length bytes then Some (bytes ! i) else blk_data b i)\<rparr>) (zheap s a))\<rparr>))
                  (ret a)))"

section \<open>The counter is the sum of the sizes the allocator reports\<close>

definition sized_cost :: "usable \<Rightarrow> zblock \<Rightarrow> c_size" where
  "sized_cost usable b = pad_long (usable (Some b))"

lemma size_of_block_Some:
  "size_of_block usable (Some a) s =
     (case zheap s a of None \<Rightarrow> (Abrupt (Undef UseAfterFree), s) | Some b \<Rightarrow> (Ret (usable (Some b)), s))"
  by (simp add: size_of_block_def prog_simps split: option.splits)

lemma sized_block_counts:
  assumes A: "alloc_lawful A" and ok: "counts (sized_cost usable) s"
    and r: "sized_block A usable data sz s = (Ret (Some a), s')"
  shows "counts (sized_cost usable) s' \<and> zheap s a = None"
proof -
  from r have m: "lm_malloc A (zheap s) sz = Some a"
    by (cases "lm_malloc A (zheap s) sz")
       (auto simp: sized_block_def size_of_block_def call_oom_handler_def zmalloc_default_oom_def stat_apply
          prog_simps bnd_def split: option.splits)
  have fresh: "zheap s a = None" using A m by (simp add: alloc_lawful_def)
  let ?b = "\<lparr>blk_size = sz, blk_header = 0, blk_data = data\<rparr>"
  have "s' = s\<lparr>zheap := (zheap s)(a \<mapsto> ?b), used_memory := used_memory s + sized_cost usable ?b\<rparr>"
    using r m by (simp add: sized_block_def size_of_block_Some prog_simps bnd_def stat_apply sized_cost_def)
  with counts_new [OF ok fresh, of ?b] fresh show ?thesis by simp
qed

lemma zfree_sized_counts:
  assumes "counts (sized_cost usable) s" and "zfree_sized usable (Some p) s = (Ret (), s')"
  shows "counts (sized_cost usable) s'"
proof -
  from assms(2) obtain b where b: "zheap s p = Some b"
    by (cases "zheap s p") (auto simp: zfree_sized_def size_of_block_Some bnd_def)
  then have "s' = s\<lparr>used_memory := used_memory s - sized_cost usable b, zheap := (zheap s)(p := None)\<rparr>"
    using assms(2) by (simp add: zfree_sized_def size_of_block_Some libc_free_def prog_simps bnd_def stat_apply sized_cost_def)
  with counts_free [OF assms(1) b] show ?thesis by simp
qed

lemma zrealloc_sized_counts:
  assumes A: "alloc_lawful A" and ok: "counts (sized_cost usable) s"
    and r: "zrealloc_sized A usable (Some p) sz s = (Ret (Some a), s')"
  shows "counts (sized_cost usable) s'"
proof -
  from r obtain b where b: "zheap s p = Some b"
    by (cases "zheap s p") (auto simp: zrealloc_sized_def size_of_block_Some bnd_def)
  from r b have m: "lm_realloc A (zheap s) p sz = Some a"
    by (cases "lm_realloc A (zheap s) p sz")
       (auto simp: zrealloc_sized_def size_of_block_def call_oom_handler_def zmalloc_default_oom_def stat_apply
          prog_simps bnd_def split: option.splits)
  let ?b = "\<lparr>blk_size = sz, blk_header = 0,
             blk_data = (\<lambda>i. if i < unat (blk_size b) \<and> i < unat sz then blk_data (the (zheap s p)) i else None)\<rparr>"
  let ?s = "s\<lparr>used_memory := used_memory s - sized_cost usable b, zheap := (zheap s)(p := None)\<rparr>"
  have "a = p \<or> zheap s a = None" by (rule realloc_law [OF A m])
  then have "zheap ?s a = None" by auto
  from counts_new [OF counts_free [OF ok b] this, of ?b]
  show ?thesis
    using r b m by (auto simp: zrealloc_sized_def size_of_block_Some bnd_def prog_simps stat_apply sized_cost_def algebra_simps)
qed

end
