(* ===== verification/Platform.thy ===== *)
theory Platform
  imports Zmalloc Ae
begin

text \<open>
  What the build selects: the preprocessor decisions of \<open>config.h\<close> and \<open>zmalloc.h\<close> (in the include directory
  of hiredis), of \<open>cpp/src/zmalloc.c\<close> and of \<open>cpp/src/ae.c\<close>. A set of macros is a map from names to the
  number they stand for, 0 for an empty body; an \<open>#error\<close> is \<open>None\<close>. The macros that system headers define
  are in the map to begin with, except those of the two headers about byte order, which are parameters.
\<close>

section \<open>Conditions\<close>

type_synonym macros = "string \<rightharpoonup> int"

definition is_def :: "macros \<Rightarrow> string \<Rightarrow> bool" where
  "is_def m x \<longleftrightarrow> m x \<noteq> None"

text \<open>In an \<open>#if\<close> a name that is no macro counts as 0.\<close>

definition val :: "macros \<Rightarrow> string \<Rightarrow> int" where
  "val m x = (case m x of None \<Rightarrow> 0 | Some v \<Rightarrow> v)"

definition any_def :: "macros \<Rightarrow> string list \<Rightarrow> bool" where
  "any_def m xs \<longleftrightarrow> list_ex (is_def m) xs"

section \<open>config.h\<close>

definition redis_fstat :: "macros \<Rightarrow> string \<times> string" where
  "redis_fstat m =
     (if is_def m ''__APPLE__'' \<and> \<not> is_def m ''MAC_OS_X_VERSION_10_6'' then (''fstat64'', ''stat64'')
      else (''fstat'', ''stat''))"

definition test_proc :: "macros \<Rightarrow> macros" where
  "test_proc m =
     (if is_def m ''__linux__''
      then m(''HAVE_PROC_STAT'' \<mapsto> 1, ''HAVE_PROC_MAPS'' \<mapsto> 1, ''HAVE_PROC_SMAPS'' \<mapsto> 1, ''HAVE_PROC_SOMAXCONN'' \<mapsto> 1)
      else m)"

definition test_task :: "macros \<Rightarrow> macros" where
  "test_task m = (if is_def m ''__APPLE__'' then m(''HAVE_TASKINFO'' \<mapsto> 1) else m)"

definition test_backtrace :: "macros \<Rightarrow> macros" where
  "test_backtrace m =
     (if is_def m ''__APPLE__'' \<or> is_def m ''__linux__'' then m(''HAVE_BACKTRACE'' \<mapsto> 1) else m)"

definition test_polling :: "macros \<Rightarrow> macros" where
  "test_polling m =
     (let m = (if is_def m ''__linux__'' then m(''HAVE_EPOLL'' \<mapsto> 1) else m);
          m = (if (is_def m ''__APPLE__'' \<and> is_def m ''MAC_OS_X_VERSION_10_6'') \<or> is_def m ''__FreeBSD__''
                  \<or> is_def m ''__OpenBSD__'' \<or> is_def m ''__NetBSD__''
               then m(''HAVE_KQUEUE'' \<mapsto> 1) else m)
      in if is_def m ''__sun'' \<and> is_def m ''_DTRACE_VERSION'' then m(''HAVE_EVPORT'' \<mapsto> 1) else m)"

definition aof_fsync :: "macros \<Rightarrow> string" where
  "aof_fsync m = (if is_def m ''__linux__'' then ''fdatasync'' else ''fsync'')"

text \<open>\<open>__GLIBC_PREREQ\<close> of the C library compares its version.\<close>

definition glibc_prereq :: "macros \<Rightarrow> int \<Rightarrow> int \<Rightarrow> bool" where
  "glibc_prereq m major minor \<longleftrightarrow>
     val m ''__GLIBC__'' * 65536 + val m ''__GLIBC_MINOR__'' \<ge> major * 65536 + minor"

definition test_sync_range :: "macros \<Rightarrow> macros" where
  "test_sync_range m =
     (if is_def m ''__linux__'' then
        if is_def m ''__GLIBC__'' \<and> is_def m ''__GLIBC_PREREQ'' then
          if val m ''LINUX_VERSION_CODE'' \<ge> 0x020611 \<and> glibc_prereq m 2 6
          then m(''HAVE_SYNC_FILE_RANGE'' \<mapsto> 1) else m
        else if val m ''LINUX_VERSION_CODE'' \<ge> 0x020611 then m(''HAVE_SYNC_FILE_RANGE'' \<mapsto> 1) else m
      else m)"

definition rdb_fsync_range :: "macros \<Rightarrow> string" where
  "rdb_fsync_range m = (if is_def m ''HAVE_SYNC_FILE_RANGE'' then ''sync_file_range'' else ''fsync'')"

definition test_setproctitle :: "macros \<Rightarrow> macros" where
  "test_setproctitle m =
     (let m = (if is_def m ''__NetBSD__'' \<or> is_def m ''__FreeBSD__'' \<or> is_def m ''__OpenBSD__''
               then m(''USE_SETPROCTITLE'' \<mapsto> 0) else m)
      in if is_def m ''__linux'' \<or> is_def m ''__APPLE__''
         then m(''USE_SETPROCTITLE'' \<mapsto> 0, ''INIT_SETPROCTITLE_REPLACEMENT'' \<mapsto> 0) else m)"

definition little_archs :: "string list" where
  "little_archs = [''__i386__'', ''__x86_64__'', ''__amd64__'', ''vax'', ''ns32000'', ''sun386'', ''MIPSEL'',
     ''_MIPSEL'', ''BIT_ZERO_ON_RIGHT'', ''__alpha__'', ''__alpha'']"

definition big_archs :: "string list" where
  "big_archs = [''sel'', ''pyr'', ''mc68000'', ''sparc'', ''is68k'', ''tahoe'', ''ibm032'', ''ibm370'', ''MIPSEB'',
     ''_MIPSEB'', ''_IBMR2'', ''DGUX'', ''apollo'', ''__convex__'', ''_CRAY'', ''__hppa'', ''__hp9000'',
     ''__hp9000s300'', ''__hp9000s700'', ''BIT_ZERO_ON_LEFT'', ''m68k'', ''__sparc'']"

text \<open>\<open>machine_endian\<close> and \<open>endian\<close> are the macros the two headers define.\<close>

definition detect_order :: "macros \<Rightarrow> macros \<Rightarrow> macros \<Rightarrow> macros" where
  "detect_order machine_endian endian m =
     (if is_def m ''BYTE_ORDER'' then m
      else if val m ''BSD'' \<ge> 199103 then m ++ machine_endian
      else if is_def m ''linux'' \<or> is_def m ''__linux__'' then m ++ endian
      else
        (let m = m(''LITTLE_ENDIAN'' \<mapsto> 1234, ''BIG_ENDIAN'' \<mapsto> 4321, ''PDP_ENDIAN'' \<mapsto> 3412);
             m = (if any_def m little_archs then m(''BYTE_ORDER'' \<mapsto> 1234) else m)
         in if any_def m big_archs then m(''BYTE_ORDER'' \<mapsto> 4321) else m))"

definition plain_order :: "macros \<Rightarrow> macros" where
  "plain_order m =
     (if \<not> is_def m ''BYTE_ORDER'' \<and> is_def m ''__BYTE_ORDER'' \<and> is_def m ''__LITTLE_ENDIAN'' \<and> is_def m ''__BIG_ENDIAN'' then
        (let m = (if is_def m ''LITTLE_ENDIAN'' then m else m(''LITTLE_ENDIAN'' \<mapsto> val m ''__LITTLE_ENDIAN''));
             m = (if is_def m ''BIG_ENDIAN'' then m else m(''BIG_ENDIAN'' \<mapsto> val m ''__BIG_ENDIAN''))
         in if val m ''__BYTE_ORDER'' = val m ''__LITTLE_ENDIAN''
            then m(''BYTE_ORDER'' \<mapsto> val m ''LITTLE_ENDIAN'') else m(''BYTE_ORDER'' \<mapsto> val m ''BIG_ENDIAN''))
      else m)"

definition check_order :: "macros \<Rightarrow> macros option" where
  "check_order m =
     (if \<not> is_def m ''BYTE_ORDER'' \<or>
         (val m ''BYTE_ORDER'' \<noteq> val m ''BIG_ENDIAN'' \<and> val m ''BYTE_ORDER'' \<noteq> val m ''LITTLE_ENDIAN'')
      then None else Some m)"

definition test_atomic :: "macros \<Rightarrow> macros" where
  "test_atomic m =
     (if (val m ''__i386'' \<noteq> 0 \<or> val m ''__amd64'' \<noteq> 0 \<or> val m ''__powerpc__'' \<noteq> 0) \<and> val m ''__GNUC__'' \<noteq> 0 then
        (let gnuc = val m ''__GNUC__'' * 10000 + val m ''__GNUC_MINOR__'' * 100 + val m ''__GNUC_PATCHLEVEL__'';
             m = (if is_def m ''__clang__'' then m(''HAVE_ATOMIC'' \<mapsto> 0) else m)
         in if is_def m ''__GLIBC__'' \<and> is_def m ''__GLIBC_PREREQ'' \<and> gnuc \<ge> 40100 \<and> glibc_prereq m 2 6
            then m(''HAVE_ATOMIC'' \<mapsto> 0) else m)
      else m)"

definition config_h :: "macros \<Rightarrow> macros \<Rightarrow> macros \<Rightarrow> macros option" where
  "config_h machine_endian endian m =
     map_option test_atomic (check_order (plain_order (detect_order machine_endian endian
       (test_setproctitle (test_sync_range (test_polling (test_backtrace (test_task (test_proc m)))))))))"

section \<open>The choice of the multiplexer\<close>

datatype multiplexer = Evport | Epoll | Kqueue | Select

definition ae_backend_of :: "macros \<Rightarrow> multiplexer" where
  "ae_backend_of m =
     (if is_def m ''HAVE_EVPORT'' then Evport else if is_def m ''HAVE_EPOLL'' then Epoll
      else if is_def m ''HAVE_KQUEUE'' then Kqueue else Select)"

text \<open>The sources of two of them are in the repository, with the names they report.\<close>

definition aeApiName_epoll :: string where "aeApiName_epoll = ''epoll''"
definition aeApiName_select :: string where "aeApiName_select = ''select''"

definition aeGetApiName :: "macros \<Rightarrow> string option" where
  "aeGetApiName m =
     (case ae_backend_of m of Epoll \<Rightarrow> Some aeApiName_epoll | Select \<Rightarrow> Some aeApiName_select | _ \<Rightarrow> None)"

section \<open>The choices of the allocator\<close>

text \<open>
  \<open>ZMALLOC_LIB\<close>, what \<open>zmalloc_size\<close> stands for where it is a macro, and whether the library can tell the
  size of a block (\<open>HAVE_MALLOC_SIZE\<close>).
\<close>

definition zmalloc_h :: "macros \<Rightarrow> (string \<times> string option \<times> macros) option" where
  "zmalloc_h m =
     (if is_def m ''USE_TCMALLOC'' then
        (if (val m ''TC_VERSION_MAJOR'' = 1 \<and> val m ''TC_VERSION_MINOR'' \<ge> 6) \<or> val m ''TC_VERSION_MAJOR'' > 1
         then Some (''tcmalloc-'' @ int_to_dec (val m ''TC_VERSION_MAJOR'') @ ''.'' @ int_to_dec (val m ''TC_VERSION_MINOR''),
                    Some ''tc_malloc_size'', m(''HAVE_MALLOC_SIZE'' \<mapsto> 1))
         else None)
      else if is_def m ''USE_JEMALLOC'' then
        (if (val m ''JEMALLOC_VERSION_MAJOR'' = 2 \<and> val m ''JEMALLOC_VERSION_MINOR'' \<ge> 1) \<or> val m ''JEMALLOC_VERSION_MAJOR'' > 2
         then Some (''jemalloc-'' @ int_to_dec (val m ''JEMALLOC_VERSION_MAJOR'') @ ''.'' @
                    int_to_dec (val m ''JEMALLOC_VERSION_MINOR'') @ ''.'' @ int_to_dec (val m ''JEMALLOC_VERSION_BUGFIX''),
                    Some ''je_malloc_usable_size'', m(''HAVE_MALLOC_SIZE'' \<mapsto> 1))
         else None)
      else if is_def m ''__APPLE__'' then Some (''libc'', Some ''malloc_size'', m(''HAVE_MALLOC_SIZE'' \<mapsto> 1))
      else Some (''libc'', None, m))"

definition prefix_size_of :: "macros \<Rightarrow> c_size" where
  "prefix_size_of m =
     (if is_def m ''HAVE_MALLOC_SIZE'' then 0
      else if is_def m ''__sun'' \<or> is_def m ''__sparc'' \<or> is_def m ''__sparc__'' then 8 else 8)"

text \<open>The functions behind \<open>malloc\<close>, \<open>calloc\<close>, \<open>realloc\<close> and \<open>free\<close>.\<close>

definition malloc_names :: "macros \<Rightarrow> string list" where
  "malloc_names m =
     (let p = (if is_def m ''USE_TCMALLOC'' then ''tc_'' else if is_def m ''USE_JEMALLOC'' then ''je_'' else [])
      in map ((@) p) [''malloc'', ''calloc'', ''realloc'', ''free''])"

text \<open>The update of the counter in thread-safe mode, with atomics or under the mutex.\<close>

definition stat_add_of :: "macros \<Rightarrow> c_size \<Rightarrow> (zstate, unit) prog" where
  "stat_add_of m n =
     (if is_def m ''__ATOMIC_RELAXED'' then andthen (update_zmalloc_stat_add n) (ret ())
      else if is_def m ''HAVE_ATOMIC'' then andthen (update_zmalloc_stat_add n) (ret ())
      else update_zmalloc_stat_add_mutex n)"

definition stat_sub_of :: "macros \<Rightarrow> c_size \<Rightarrow> (zstate, unit) prog" where
  "stat_sub_of m n =
     (if is_def m ''__ATOMIC_RELAXED'' then andthen (update_zmalloc_stat_sub n) (ret ())
      else if is_def m ''HAVE_ATOMIC'' then andthen (update_zmalloc_stat_sub n) (ret ())
      else update_zmalloc_stat_sub_mutex n)"

section \<open>Lemmas\<close>

lemma is_def_upd: "is_def (m(x \<mapsto> v)) y \<longleftrightarrow> y = x \<or> is_def m y"
  by (simp add: is_def_def)

lemma val_upd: "val (m(x \<mapsto> v)) y = (if y = x then v else val m y)"
  by (simp add: val_def)

text \<open>The byte-order headers define names of their own only.\<close>

definition order_names :: "string set" where
  "order_names = {''BYTE_ORDER'', ''LITTLE_ENDIAN'', ''BIG_ENDIAN'', ''PDP_ENDIAN'', ''__BYTE_ORDER'',
     ''__LITTLE_ENDIAN'', ''__BIG_ENDIAN'', ''__PDP_ENDIAN''}"

lemma is_def_add: "dom e \<subseteq> order_names \<Longrightarrow> x \<notin> order_names \<Longrightarrow> is_def (m ++ e) x \<longleftrightarrow> is_def m x"
  by (auto simp: is_def_def map_add_def split: option.splits)

text \<open>The steps after the choice of the polling interface leave it alone.\<close>

definition poll_names :: "string set" where
  "poll_names = {''HAVE_EPOLL'', ''HAVE_KQUEUE'', ''HAVE_EVPORT''}"

lemma keeps_poll_names:
  assumes "x \<in> poll_names"
  shows "is_def (test_atomic m) x = is_def m x" and "is_def (plain_order m) x = is_def m x"
    and "is_def (test_setproctitle m) x = is_def m x" and "is_def (test_sync_range m) x = is_def m x"
  using assms by (auto simp: poll_names_def test_atomic_def plain_order_def test_setproctitle_def
      test_sync_range_def is_def_upd Let_def)

lemma detect_order_poll_names:
  assumes "x \<in> poll_names" and "dom me \<subseteq> order_names" and "dom e \<subseteq> order_names"
  shows "is_def (detect_order me e m) x = is_def m x"
proof -
  have "x \<notin> order_names" and ne: "x \<notin> {''LITTLE_ENDIAN'', ''BIG_ENDIAN'', ''PDP_ENDIAN'', ''BYTE_ORDER''}"
    using assms(1) by (auto simp: poll_names_def order_names_def)
  with assms(2,3) show ?thesis by (simp add: detect_order_def is_def_add is_def_upd Let_def)
qed

lemma is_def_cond_upd: "is_def (if c then m(x \<mapsto> v) else m) y \<longleftrightarrow> is_def m y \<or> (c \<and> y = x)"
  by (auto simp: is_def_upd)

lemma test_polling_defs:
  "is_def (test_polling m) ''HAVE_EPOLL'' \<longleftrightarrow> is_def m ''HAVE_EPOLL'' \<or> is_def m ''__linux__''"
  "is_def (test_polling m) ''HAVE_KQUEUE'' \<longleftrightarrow> is_def m ''HAVE_KQUEUE'' \<or>
     (is_def m ''__APPLE__'' \<and> is_def m ''MAC_OS_X_VERSION_10_6'') \<or>
     is_def m ''__FreeBSD__'' \<or> is_def m ''__OpenBSD__'' \<or> is_def m ''__NetBSD__''"
  "is_def (test_polling m) ''HAVE_EVPORT'' \<longleftrightarrow> is_def m ''HAVE_EVPORT'' \<or>
     is_def m ''__sun'' \<and> is_def m ''_DTRACE_VERSION''"
  by (simp_all add: test_polling_def is_def_cond_upd Let_def)

lemma polling_of_tests:
  fixes m :: macros
  defines "m1 \<equiv> test_polling (test_backtrace (test_task (test_proc m)))"
  assumes "\<And>x. x \<in> poll_names \<Longrightarrow> \<not> is_def m x"
  shows "is_def m1 ''HAVE_EPOLL'' \<longleftrightarrow> is_def m ''__linux__''"
    and "is_def m1 ''HAVE_KQUEUE'' \<longleftrightarrow> (is_def m ''__APPLE__'' \<and> is_def m ''MAC_OS_X_VERSION_10_6'') \<or>
           is_def m ''__FreeBSD__'' \<or> is_def m ''__OpenBSD__'' \<or> is_def m ''__NetBSD__''"
    and "is_def m1 ''HAVE_EVPORT'' \<longleftrightarrow> is_def m ''__sun'' \<and> is_def m ''_DTRACE_VERSION''"
proof -
  have n: "\<not> is_def m ''HAVE_EPOLL''" "\<not> is_def m ''HAVE_KQUEUE''" "\<not> is_def m ''HAVE_EVPORT''"
    using assms(2) by (auto simp: poll_names_def)
  let ?m = "test_backtrace (test_task (test_proc m))"
  have s: "is_def ?m x = is_def m x" if "x \<notin> {''HAVE_PROC_STAT'', ''HAVE_PROC_MAPS'', ''HAVE_PROC_SMAPS'',
      ''HAVE_PROC_SOMAXCONN'', ''HAVE_TASKINFO'', ''HAVE_BACKTRACE''}" for x
    using that by (simp add: test_backtrace_def test_task_def test_proc_def is_def_upd)
  show "is_def m1 ''HAVE_EPOLL'' \<longleftrightarrow> is_def m ''__linux__''"
    and "is_def m1 ''HAVE_KQUEUE'' \<longleftrightarrow> (is_def m ''__APPLE__'' \<and> is_def m ''MAC_OS_X_VERSION_10_6'') \<or>
           is_def m ''__FreeBSD__'' \<or> is_def m ''__OpenBSD__'' \<or> is_def m ''__NetBSD__''"
    and "is_def m1 ''HAVE_EVPORT'' \<longleftrightarrow> is_def m ''__sun'' \<and> is_def m ''_DTRACE_VERSION''"
    using n by (simp_all add: m1_def test_polling_defs s)
qed

text \<open>Whatever way the counter is updated, a thread that finds the mutex free sees the same sum.\<close>

lemma stat_variants:
  "\<not> used_memory_mutex s \<Longrightarrow> stat_add_of m n s = (Ret (), s\<lparr>used_memory := used_memory s + n\<rparr>)"
  "\<not> used_memory_mutex s \<Longrightarrow> stat_sub_of m n s = (Ret (), s\<lparr>used_memory := used_memory s - n\<rparr>)"
  by (simp_all add: stat_add_of_def stat_sub_of_def update_zmalloc_stat_add_def update_zmalloc_stat_sub_def
      update_zmalloc_stat_add_mutex_def update_zmalloc_stat_sub_mutex_def with_stat_mutex_def ScopedLock_def prog_simps)

lemma prefix_size_default: "\<not> is_def m ''HAVE_MALLOC_SIZE'' \<Longrightarrow> prefix_size_of m = PREFIX_SIZE"
  by (simp add: prefix_size_of_def PREFIX_SIZE_def)

section \<open>Properties\<close>

text \<open>Which multiplexer a build gets depends on the system alone, in the order event ports, epoll, kqueue,
  select, and a build that gets past the byte-order check knows its byte order. The sources of event ports and
  kqueue are not in the repository: on Solaris with DTrace, on the BSDs and on Mac OS X from 10.6 there is no
  multiplexer to include.\<close>

lemma multiplexer_of_platform:
  assumes "config_h me e m = Some m'" and "dom me \<subseteq> order_names" and "dom e \<subseteq> order_names"
    and "\<forall>x \<in> poll_names. m x = None"
  shows "aeGetApiName m' =
      (if is_def m ''__sun'' \<and> is_def m ''_DTRACE_VERSION'' then None
       else if is_def m ''__linux__'' then Some ''epoll''
       else if (is_def m ''__APPLE__'' \<and> is_def m ''MAC_OS_X_VERSION_10_6'') \<or> is_def m ''__FreeBSD__'' \<or>
               is_def m ''__OpenBSD__'' \<or> is_def m ''__NetBSD__'' then None
       else Some ''select'') \<and>
    val m' ''BYTE_ORDER'' \<in> {val m' ''BIG_ENDIAN'', val m' ''LITTLE_ENDIAN''}"
proof -
  let ?m1 = "test_polling (test_backtrace (test_task (test_proc m)))"
  let ?m2 = "plain_order (detect_order me e (test_setproctitle (test_sync_range ?m1)))"
  from assms(1) have m': "m' = test_atomic ?m2"
    and ord: "val ?m2 ''BYTE_ORDER'' \<in> {val ?m2 ''BIG_ENDIAN'', val ?m2 ''LITTLE_ENDIAN''}"
    by (auto simp: config_h_def check_order_def split: if_splits)
  have same: "is_def m' x = is_def ?m1 x" if "x \<in> poll_names" for x
    using that by (simp add: m' keeps_poll_names detect_order_poll_names [OF _ assms(2,3)])
  have "\<not> is_def m x" if "x \<in> poll_names" for x using assms(4) that by (simp add: is_def_def)
  note tests = polling_of_tests [OF this]
  have p: "''HAVE_EPOLL'' \<in> poll_names" "''HAVE_KQUEUE'' \<in> poll_names" "''HAVE_EVPORT'' \<in> poll_names"
    by (simp_all add: poll_names_def)
  have "val m' x = val ?m2 x" if "x \<noteq> ''HAVE_ATOMIC''" for x
    using that by (simp add: m' test_atomic_def val_upd Let_def)
  then show ?thesis
    using ord by (simp add: aeGetApiName_def ae_backend_of_def same [OF p(1)] same [OF p(2)] same [OF p(3)] tests
        aeApiName_epoll_def aeApiName_select_def)
qed

end
