(* ===== verification/Spec2Isabelle.thy ===== *)
theory Spec2Isabelle
  imports Client_Properties Concurrent_Properties Concurrent_Reads Facade_Properties Facade_Refinement Test_Suite Ae_Properties Zmalloc_Sized Platform
begin

text \<open>
  This library is a model of the C++ client of Codis (the directory \<open>cpp\<close> of the repository) with the theorems
  about it. Codis is a sharded redis behind proxies; ZooKeeper knows which proxies are online. The parts of
  the client and how they work together:

  \<^item> \<open>BfdCodis\<close> is the facade. Every method asks the pool of proxies for the next client and calls the method of
    the same name on it (theories \<open>Bfd_Codis\<close>, one definition per method, and \<open>Facade_Api\<close>, the class as a
    data type of calls with its dispatch).
  \<^item> \<open>RoundRobinCodisPool\<close> reads the online proxies from ZooKeeper, keeps one client for each, hands them out in
    turn and replaces them when ZooKeeper reports a change (\<open>Round_Robin\<close>; what is read from ZooKeeper is in
    \<open>Zk_Discovery\<close>).
  \<^item> \<open>CodisClient\<close> serves one proxy: it puts the business ID in front of the keys, borrows a connection, sends the
    command, and turns the reply into a C++ value (\<open>Codis_Client\<close> has the state, the rewriting of keys and
    \<open>RedisCommand\<close>; \<open>Concurrent_Commands\<close> the same function cut into the steps of a thread, and many threads on one
    client as a step relation; \<open>Client_Ops\<close> every synchronous operation; \<open>Client_Async\<close> the asynchronous \<open>mget2\<close> and its
    completion, \<open>Read_Steps\<close> the same function in the steps of a thread, \<open>Concurrent_Reads\<close> many threads in it beside the
    thread of the event loop; \<open>Client_Api\<close> the class as a data type of calls).
  \<^item> \<open>RedisClientPool\<close> keeps the connections of a client, synchronous and asynchronous ones (\<open>Client_Pool\<close>;
    \<open>Pool_Ownership\<close> has the interface of a pool as a locale, the threads that use it as a step relation, and
    both pools as its interpretations).
  \<^item> \<open>Command\<close>, \<open>Reply\<close>, \<open>Utils\<close>, \<open>Log\<close> and \<open>ScopedLock\<close> are the helpers (\<open>Command\<close>, \<open>Reply\<close>, \<open>Utils\<close>, and
    \<open>Prelude\<close> for the lock).
  \<^item> The event loop \<open>ae.c\<close> runs the asynchronous connections, over \<open>ae_epoll.c\<close> or \<open>ae_select.c\<close>; \<open>hiredis_ae.h\<close>
    couples a connection to it (\<open>Ae\<close> has the loop, \<open>Ae_Dispatch\<close> how it calls handlers, \<open>Ae_Timers\<close> how its walk over the timers ends,
    \<open>Ae_Backends\<close> the interface to a multiplexer as a locale, \<open>Ae_Multiplexers\<close> both multiplexers and their
    interpretations, \<open>Hiredis_Ae\<close> the adapter and the thread that runs the loop).
  \<^item> \<open>zmalloc.c\<close> counts the memory in use (\<open>Zmalloc\<close> with a header before every block, \<open>Zmalloc_Sized\<close> over an
    allocator that knows its sizes); \<open>config.h\<close> and \<open>zmalloc.h\<close> choose between the variants at compile time
    (\<open>Platform\<close>).

  How the code is represented. A C++ function that touches state is a program: a function from the state to an
  outcome and the next state (\<open>Prelude\<close>). An outcome is a value, a thrown exception, an exit or abort of the
  process, a deadlock, or undefined behaviour with its cause, so a NULL dereference, a use after free, an index out
  of bounds and a signed overflow are results that theorems speak about. \<open>int\<close> is a 32-bit word, \<open>long long\<close> and
  \<open>size_t\<close> are 64-bit words; a \<open>string\<close> is its list of bytes, a \<open>vector\<close> a list, a pointer an optional address. Heap
  objects that are shared (contexts, adapters, requests, clients, memory blocks) are in maps from addresses; the
  address of an object of the client is never used twice, so a dangling pointer stays recognisable. Mutexes and the read-write lock of a client
  are part of the state; taking one that is held is the outcome \<open>Deadlock\<close>.

  What is a parameter. hiredis, the ZooKeeper client, the JSON library, the C allocator, the kernel's \<open>epoll\<close>,
  \<open>select\<close> and \<open>poll\<close>, clocks and uninitialised memory are not in the repository: they are the fields of the records
  \<open>hiredis\<close>, \<open>zk_env\<close>, \<open>libc_alloc\<close>, \<open>epoll_lib\<close> and \<open>ae_env\<close>, over an opaque world. What theorems assume of
  them is named: \<open>reliable\<close> (connections work), \<open>speaks_redis\<close> (the server implements the documented commands of
  all data types; \<open>speaks_kv\<close> for strings alone), \<open>stays_apart\<close> (ZooKeeper and the system do not touch the server), \<open>aconnect_total\<close>, \<open>threads_ok\<close>, \<open>steady\<close> (ZooKeeper nodes do not change while they are read),
  \<open>epoll_lawful\<close> and \<open>epoll_fresh\<close> (the manual page of \<open>epoll_ctl\<close>), \<open>alloc_lawful\<close>, \<open>one_shot\<close>. Each is shown to hold
  of a concrete function where a theorem with it has its witness (\<open>Example_Server\<close>, \<open>Redis_Server\<close>, \<open>Example_Zk\<close> and
  the beginnings of the theories of properties).

  What the theorems show. The root: over a server that speaks redis, any sequence of calls of all 67 synchronous methods
  of a client implements a specification in terms of values (C1); so does the facade with its pool of proxies, from its
  construction over ZooKeeper on and through every refresh of the list (\<open>facade_refines_redis\<close>,
  \<open>startup_reaches_database\<close>, \<open>refresh_keeps_database\<close>); clients with different business IDs do not disturb each other
  (\<open>redis_clients_isolated\<close>); the asynchronous read, too, gives the values of the database when it completes in time
  (\<open>async_read_reads_database\<close>); and the tests of the repository pass (\<open>repository_tests_pass\<close>). The layers of this result:
  \<open>Redis_Commands\<close> has the commands of a server, their form on the wire and what the documentation of redis says each
  does; \<open>Redis_Spec\<close> what each method of the class promises; \<open>Redis_Refinement\<close> that it keeps the promise, and as a locale what it means to stand for a database;
  \<open>Facade_Refinement\<close> that the facade does, too; \<open>Redis_Server\<close> an executable server that satisfies the law; \<open>Test_Suite\<close>
  the tests. \<open>Client_Refinement\<close> and \<open>Kv_Spec\<close> have the simulation of a key-value store by the operations on strings,
  which needs less of the server. The specification fixes what the documentation leaves open only as far as the code
  does: \<open>SPOP\<close> may take any member and the order of sets and hashes is free. Scores are whole numbers, and the
  time to live of a key is not part of the database.
  \<open>Client_Properties\<close>: the outcomes of a command on every path, the loss of a connection included, the shape of
  every reply, the connections
  and locks afterwards, ownership of connections among threads, batches, size limits, narrowing of integers, and an
  asynchronous read that gets no connection. \<open>Concurrent_Reads\<close>: in every interleaving of asynchronous reads with their
  completions, a completion is right while its call runs and a use after free once it has returned
  (\<open>completions_race_returns\<close>). \<open>Linearizability\<close> and \<open>Concurrent_Properties\<close>: when many threads call one client,
  commands are linearizable and the methods atomic (\<open>commands_linearizable\<close>, \<open>concurrent_calls_atomic\<close>), every thread can go on
  until it returns, no connection is in two hands, nothing fails that would not fail alone, and what deleting the client
  does to them. \<open>Facade_Properties\<close>: the facade is the client in turn, a refresh
  replaces the clients by those of the online proxies, and what happens to a call in flight. \<open>Ae_Properties\<close>: the
  table of the event loop is what the multiplexer watches, handlers are called only while they are registered and for
  what the kernel reports, timers fire once and are waited for, and where the loop stops
  or never ends. \<open>Zmalloc_Properties\<close>: the counter is the sum over the live blocks. \<open>Reply\<close>, \<open>Command\<close> and
  \<open>Utils\<close>: round trips. A theorem that states a defect of the code states exactly when it shows.

  Bounds and fuel. The position of the facade is an \<open>int\<close> that only grows, so theorems about the facade count the
  calls that are left: 2147483648 of them after its construction. The walk over the timers and the main loop of \<open>ae.c\<close> need not end, so they have fuel and
  running out of it is a result (\<open>None\<close>, \<open>False\<close>): for handlers that say their timer is done, (due timers + 1) times
  all timers is enough, and for a handler that returns 0 no fuel is. The loop that waits for ZooKeeper
  has the 10000 rounds of the code. All other loops recurse on their data.

  Not modelled: pauses (\<open>usleep\<close>, \<open>sleep\<close>); the text printed to the standard streams; failing allocations of C++
  (\<open>new\<close> throws) and of hiredis_ae.h; interleavings inside the critical section of a mutex or inside one call of the
  library (a step of a thread is one of them; so is the completion of a read), and threads that refresh the list of proxies, or
  read asynchronously, while others send commands on one client (each is modelled alone: a refresh call by call, asynchronous reads
  among themselves); the protocol parser of hiredis and its
  declarations beyond the fields the client reads; kqueue and event ports, whose sources are missing; the
  code of \<open>CodisClient.cpp\<close> from line 292 on that is commented out; of the tests \<open>mget2\<close>, which is asynchronous, \<open>codis\<close>, which only prints, and
  \<open>zrangebyscore\<close>, which does not compile; the demo, and the Java and Python clients.
\<close>

section \<open>Properties: the client as a typed database\<close>

text \<open>C1: Over a redis server whose connections work, any sequence of calls of a client, of all its 67 synchronous
  methods, behaves as its specification says call by call: the results and exceptions are those that the values of
  the database prescribe, the values of the keys change as prescribed, for strings, lists, sets, sorted sets and
  hashes, and every key outside the namespace of the business ID is left alone. Words handed to \<open>RedisCommand\<close> must
  be a command with one key, and bounds of score ranges plain integers (\<open>specified\<close>).\<close>

theorem client_refines_redis:
  assumes "speaks_redis srv db" and "list_all specified calls"
    and "db_rel H st srv db bid B rest sc m" and "mapM_prog (client_run H this) calls sc = (r, sc')"
  shows "\<exists>m'. in_turn redis_spec calls m r m' \<and> db_rel H st srv db bid B rest sc' m'"
  using client.calls [OF assms(2) conjI [OF assms(1,3)] assms(4)] by blast

theorem client_refines_redis_witness:
  "\<exists>sc'. mapM_prog (client_run redis_lib 0)
       [OnList (call_rpush_values ''l'' [''x'', ''y''] 0), OnZset (call_zadd ''z'' 5 ''x'' 0),
        OnString (call_get ''l'' 0), OnList (call_lpop ''l'' 0)]
       (empty_sys (\<lambda>_. None), new_client ''shop'') =
     (Ret [Int_v 2, Bool_v True, Str_v '''', Str_v ''x''], sc') \<and>
   db_rel redis_lib (\<lambda>w. w) redis_server (\<lambda>m k. tidy (m k)) ''shop'' {} (\<lambda>_. None) sc'
     [''l'' \<mapsto> List_val [''y''], ''z'' \<mapsto> Zset_val [(5, ''x'')]]"
proof -
  let ?calls = "[OnList (call_rpush_values ''l'' [''x'', ''y''] 0), OnZset (call_zadd ''z'' 5 ''x'' 0),
    OnString (call_get ''l'' 0), OnList (call_lpop ''l'' 0)]"
  obtain r sc' where run: "mapM_prog (client_run redis_lib 0) ?calls (empty_sys (\<lambda>_. None), new_client ''shop'') = (r, sc')"
    by (metis prod.collapse)
  have "list_all specified ?calls" by simp
  from client_refines_redis [OF redis_server_speaks this new_client_db_rel run] obtain m' where
    m': "in_turn redis_spec ?calls (\<lambda>_. None) r m'"
      "db_rel redis_lib (\<lambda>w. w) redis_server (\<lambda>m k. tidy (m k)) ''shop'' {} (\<lambda>_. None) sc' m'" by blast
  from m'(1) have "r = Ret [Int_v 2, Bool_v True, Str_v '''', Str_v ''x'']"
    "m' = [''l'' \<mapsto> List_val [''y''], ''z'' \<mapsto> Zset_val [(5, ''x'')]]"
    by (auto simp: gives_def push_spec_def put_list_def too_big_def zput_def zdel_def fits_def
        or_empty_def)
  with run m'(2) show ?thesis by auto
qed

text \<open>C20: The tests of the repository for synchronous methods pass: over a redis server whose connections work, and
  whose database holds nothing under the business ID at the start, every expectation of these tests in
  \<open>CodisClientTest.cpp\<close> holds, run in their order on one client. Two expectations of that file are not among them: that of the test of
  \<open>mget2\<close>, which is asynchronous, and that of the test of \<open>zrangebyscore\<close>, which does not compile.\<close>

theorem repository_tests_pass:
  assumes "speaks_redis srv db" and "db_rel H st srv db bid B rest sc Map.empty"
    and "mapM_prog (client_run H this) (map fst test_suite) sc = (r, sc')"
  shows "passes test_suite r"
  by (rule client.tests_pass [OF conjI [OF assms(1,2)] assms(3)])

theorem repository_tests_pass_witness:
  "passes test_suite (fst (mapM_prog (client_run redis_lib 0) (map fst test_suite)
     (empty_sys (\<lambda>_. None), new_client ''shop'')))"
  by (rule repository_tests_pass [OF redis_server_speaks new_client_db_rel]) (rule prod.collapse [symmetric])

text \<open>So does the facade.\<close>

lemma facade_passes_tests:
  assumes "speaks_redis srv db" and "facade_rel H st srv db bid rest (length test_suite) s Map.empty"
    and "mapM_prog (facade_run H) (map fst test_suite) s = (r, s')"
  shows "passes test_suite r"
  by (rule facade.tests_pass [OF conjI [OF assms(1,2)] assms(3)])

text \<open>C6: Two clients whose business IDs are different, are not empty and hold no underscore do not disturb each other: no
  sequence of calls of one changes a value the other stores under any of its keys, of whatever type. The calls are those of C1
  (\<open>specified\<close>): all synchronous methods, with plain integers as bounds of score ranges, and with words handed to
  \<open>RedisCommand\<close> that are a command with one key. Words with several keys are left out, since the
  client prefixes all of them only for MGET, MSET and DEL in all upper or all lower case: a \<open>Del\<close> of two keys would
  delete the second one, without a prefix, wherever it belongs.\<close>

theorem redis_clients_isolated:
  assumes "speaks_redis srv db" and "serving H st srv bid B (s, c)" and "list_all specified calls"
    and "CHR ''_'' \<notin> set bid" and "CHR ''_'' \<notin> set bid'" and "bid \<noteq> bid'" and "bid \<noteq> []" and "bid' \<noteq> []"
    and "mapM_prog (client_run H this) calls (s, c) = (r, (s', c'))"
  shows "db (st (world s')) (ns_key bid' k) = db (st (world s)) (ns_key bid' k)"
proof -
  let ?rest = "db (st (world s)) |` (- range (ns_key bid))"
  have "speaks_redis srv db \<and> db_rel H st srv db bid B ?rest (s, c) (db (st (world s)) \<circ> ns_key bid)"
    using assms(1,2) by (simp add: db_rel_def)
  from client.calls [OF assms(3) this assms(9)]
  have "db (st (world s')) |` (- range (ns_key bid)) = ?rest" by (auto simp: db_rel_def)
  moreover have "ns_key bid' k \<notin> range (ns_key bid)"
    using assms(4-8) by (auto simp: ns_key_def bid_key_disjoint)
  ultimately show ?thesis by (metis restrict_in ComplI)
qed

theorem redis_clients_isolated_witness:
  "\<exists>s' c'. snd (mapM_prog (client_run redis_lib 0) [OnKey (call_del_keys [''a'', ''k''] 0)]
              (empty_sys [''mail_k'' \<mapsto> List_val [''old'']], new_client ''shop'')) = (s', c') \<and>
     world s' (ns_key ''mail'' ''k'') = Some (List_val [''old''])"
proof -
  let ?sc = "(empty_sys [''mail_k'' \<mapsto> List_val [''old'']], new_client ''shop'')"
  obtain r s' c' where e: "mapM_prog (client_run redis_lib 0) [OnKey (call_del_keys [''a'', ''k''] 0)] ?sc = (r, (s', c'))"
    by (metis prod.collapse)
  have "serving redis_lib (\<lambda>w. w) redis_server ''shop'' {} ?sc"
    by (simp add: serving_def redis_lib_reliable new_client_inv)
  from redis_clients_isolated [OF redis_server_speaks this _ _ _ _ _ _ e, of "''mail''" "''k''"]
  have "tidy (world s' (ns_key ''mail'' ''k'')) = Some (List_val [''old''])" by (simp add: empty_sys_def ns_key_def bid_key_def)
  then have "world s' (ns_key ''mail'' ''k'') = Some (List_val [''old''])"
    by (simp add: tidy_def split: option.splits rvalue.splits if_splits)
  with e show ?thesis by auto
qed

lemma mget2_command_keys: "mget2_command bid keys = ''MGET'' # map (ns_key bid) keys"
proof -
  have "foldl (\<lambda>command k. command @ [f k]) xs keys = xs @ map f keys" for f :: "string \<Rightarrow> string" and xs
    by (induction keys arbitrary: xs) simp_all
  then show ?thesis by (simp add: mget2_command_def ns_key_def)
qed

lemma async_reply_values:
  assumes "speaks_redis srv db" and "keys \<noteq> []" and "srv x (mget2_command bid keys) = (r, x')"
  shows "map rr_str (rr_element r) = map (\<lambda>k. or_empty (str_of (db x (ns_key bid k)))) keys" and "db x' = db x"
proof -
  from assms(2,3) have "r = RedisReply 2 0 [] (map (\<lambda>k. bulk_reply (str_of (db x k))) (map (ns_key bid) keys)) \<and> db x' = db x"
    by (intro speaks_multi(2) [OF assms(1)]) (simp_all add: mget2_command_keys)
  moreover have "rr_str (bulk_reply v) = or_empty v" for v
    by (simp add: bulk_reply_def or_empty_def split: option.splits)
  ultimately show "map rr_str (rr_element r) = map (\<lambda>k. or_empty (str_of (db x (ns_key bid k)))) keys" and "db x' = db x"
    by (simp_all add: comp_def)
qed

text \<open>C30: The asynchronous read reads the database too: when the server's answer to the command that \<open>mget2\<close> sends
  arrives while \<open>mget2\<close> is in its body, the user's callback gets exactly the keys asked for, in ascending order and
  each with its value (the empty string where there is none), the connection goes back to the idle queue and the
  request is freed; the read changes nothing in the database.\<close>

theorem async_read_reads_database:
  assumes "speaks_redis srv db" and "srv x (mget2_command bid (user_keylist rq)) = (r, x')" and "user_keylist rq \<noteq> []"
    and "m_ConnPool c = Some p" and "\<not> unUsedAsyncMutex p" and "requests s q = Some rq"
    and "locals s (rq_async_context rq) = Some ac"
  shows "\<exists>m. mget2Callback (Some r) q (s, c) =
      (Ret (), (s\<lparr>called := called s @ [(rq_callback rq, m)], requests := (requests s)(q := None)\<rparr>,
        c\<lparr>m_ConnPool := Some (p\<lparr>unUsedAsync := unUsedAsync p @ [ac], usedAsync := usedAsync p - 1\<rparr>)\<rparr>)) \<and>
    sorted_wrt (<) (map fst m) \<and>
    map_of m = (\<lambda>k. if k \<in> set (user_keylist rq) then Some (or_empty (str_of (db x (ns_key bid k)))) else None) \<and>
    db x' = db x"
proof -
  let ?v = "\<lambda>k. or_empty (str_of (db x (ns_key bid k)))"
  note v = async_reply_values [OF assms(1,3,2)]
  have "length (map rr_str (rr_element r)) = length (user_keylist rq)" unfolding v(1) by simp
  then have "length (rr_element r) \<le> length (user_keylist rq)" by simp
  moreover have "map_of (zip keys (map f keys)) = (\<lambda>k. if k \<in> set keys then Some (f k) else None)" for f :: "string \<Rightarrow> string" and keys
    by (induction keys) auto
  ultimately show ?thesis
    using completion_in_time [OF assms(4-7), of r] v by (simp only: simp_thms)
qed

theorem async_read_reads_database_witness:
  "\<exists>m sc. mget2Callback (Some (fst (redis_server [''shop_a'' \<mapsto> Str_val ''1''] [''MGET'', ''shop_b'', ''shop_a'']))) 5
      (empty_sys ()\<lparr>requests := [5 \<mapsto> \<lparr>user_keylist = [''b'', ''a''], rq_callback = 7, rq_async_context = 3, rq_client = 9\<rparr>],
         locals := [3 \<mapsto> Some 4]\<rparr>, new_client ''shop'') = (Ret (), sc) \<and>
     called (fst sc) = [(7, m)] \<and> map_of m ''a'' = Some ''1'' \<and> map_of m ''b'' = Some ''''"
proof -
  let ?rq = "\<lparr>user_keylist = [''b'', ''a''], rq_callback = 7, rq_async_context = 3, rq_client = 9\<rparr>"
  let ?s = "empty_sys ()\<lparr>requests := [5 \<mapsto> ?rq], locals := [3 \<mapsto> Some 4]\<rparr>"
  let ?x = "[''shop_a'' \<mapsto> Str_val ''1'']"
  obtain p where p: "m_ConnPool (new_client ''shop'') = Some p" "\<not> unUsedAsyncMutex p"
    by (simp add: new_client_def RedisClientPool_default_def RedisClientPool_new_def)
  have r: "redis_server ?x (mget2_command ''shop'' (user_keylist ?rq)) =
      (fst (redis_server ?x [''MGET'', ''shop_b'', ''shop_a'']), snd (redis_server ?x [''MGET'', ''shop_b'', ''shop_a'']))"
    by (simp add: mget2_command_keys ns_key_def bid_key_def del: redis_server.simps)
  have q: "user_keylist ?rq \<noteq> []" "requests ?s 5 = Some ?rq" "locals ?s (rq_async_context ?rq) = Some (Some 4)" by simp_all
  from async_read_reads_database [OF redis_server_speaks r q(1) p q(2,3)] obtain m where
    m: "mget2Callback (Some (fst (redis_server ?x [''MGET'', ''shop_b'', ''shop_a'']))) 5 (?s, new_client ''shop'') =
      (Ret (), (?s\<lparr>called := called ?s @ [(rq_callback ?rq, m)], requests := (requests ?s)(5 := None)\<rparr>,
        (new_client ''shop'')\<lparr>m_ConnPool := Some (p\<lparr>unUsedAsync := unUsedAsync p @ [Some 4], usedAsync := usedAsync p - 1\<rparr>)\<rparr>))"
    and v: "map_of m = (\<lambda>k. if k \<in> set (user_keylist ?rq) then Some (or_empty (str_of (tidy (?x (ns_key ''shop'' k))))) else None)"
    by blast
  have "map_of m ''a'' = Some ''1''" "map_of m ''b'' = Some ''''"
    unfolding v by (simp_all add: or_empty_def ns_key_def bid_key_def)
  moreover have "called (?s\<lparr>called := called ?s @ [(rq_callback ?rq, m)], requests := (requests ?s)(5 := None)\<rparr>) = [(7, m)]"
    by (simp add: empty_sys_def)
  ultimately show ?thesis using m by (metis fst_conv)
qed

text \<open>C21: \<open>zrevrangebyscore(key, min, max)\<close> sends its bounds in that order, but the command takes the upper bound
  first: with a lower bound below the upper one the client gets no member, whatever the sorted set holds.\<close>

theorem reverse_score_range_empty:
  assumes "speaks_redis srv db" and "db_rel H st srv db bid B rest sc m"
    and "redis_int lo = Some a" and "redis_int hi = Some b" and "a < b"
    and "client_run H this (OnZset (call_zrevrangebyscore k lo hi w tt)) sc = (r, sc')"
  shows "r = Ret (Strs_v [])"
proof -
  have "specified (OnZset (call_zrevrangebyscore k lo hi w tt))" using assms(3,4) by simp
  from implementsD [OF implements_client_call [OF assms(1) this], OF assms(2,6)] assms(3,4)
  have "r = Ret (Strs_v (zlist (with_scores w) (zwithin b a (rev (zset_of (m k))))))" by (auto simp: gives_def)
  moreover have "zwithin b a z = []" for z
    using assms(5) by (auto simp: zwithin_def filter_empty_conv)
  ultimately show ?thesis by (simp add: zlist_def)
qed

theorem reverse_score_range_empty_witness:
  "fst (client_run redis_lib 0 (OnZset (call_zrevrangebyscore ''z'' ''1'' ''9'' ''False'' 0))
          (empty_sys [''shop_z'' \<mapsto> Zset_val [(5, ''x'')]], new_client ''shop'')) = Ret (Strs_v [])"
proof -
  let ?m = "[''shop_z'' \<mapsto> Zset_val [(5, ''x'')]]"
  have rel: "db_rel redis_lib (\<lambda>w. w) redis_server (\<lambda>m k. tidy (m k)) ''shop'' {}
      ((\<lambda>k. tidy (?m k)) |` (- range (ns_key ''shop''))) (empty_sys ?m, new_client ''shop'') ((\<lambda>k. tidy (?m k)) \<circ> ns_key ''shop'')"
    by (simp add: db_rel_def serving_def redis_lib_reliable new_client_inv) (simp add: empty_sys_def)
  have "redis_int ''1'' = Some 1" "redis_int ''9'' = Some 9" by code_simp+
  from reverse_score_range_empty [OF redis_server_speaks rel this] show ?thesis by (simp add: prod_eq_iff)
qed

section \<open>Properties: the whole client\<close>

text \<open>A process before the facade is made, over an empty server.\<close>

definition no_facade :: "db bfd_state" where
  "no_facade = \<lparr>m_Pool = None, bfd_rr = \<lparr>rr_sys = empty_sys (\<lambda>_. None), rr_clients = Map.empty,
     rr_pool = \<lparr>m_Proxys = [], proxyIndex = 0, m_ProxyInfos = [], m_Zh = None, m_ZookeeperAddr = [],
       m_ProxyPath = [], m_BusinessID = [], m_Mutex = False\<rparr>\<rparr>\<rparr>"

lemma demo_apart: "stays_apart demo_zk st"
  by (simp add: stays_apart_def demo_zk_def)

lemma demo_connects: "(0 :: nat) < 10000" "state_at demo_zk zh 0 w = zoo_connected demo_zk"
  "\<forall>j < (0 :: nat). state_at demo_zk zh j w \<noteq> zoo_connected demo_zk"
  by (simp_all add: state_at_def demo_zk_def)

lemma demo_terminated: "terminated demo_zk w d"
proof -
  have "replicate (n + 1) CHR 0x00 ! n = CHR 0x00" for n by (rule nth_replicate) simp
  then show ?thesis by (simp add: terminated_def demo_zk_def)
qed

lemma no_facade_simps:
  "heap_ok (rr_sys (bfd_rr no_facade))" "dom (rr_clients (bfd_rr no_facade)) \<subseteq> {..<next_addr (rr_sys (bfd_rr no_facade))}"
  "zk_init demo_zk (c_str ''zk'') (world (rr_sys (bfd_rr no_facade))) = (Some 1, \<lambda>_. None)"
  "world (rr_sys (bfd_rr no_facade)) = (\<lambda>_. None)"
  by (simp_all add: no_facade_def empty_sys_def heap_ok_def demo_zk_def)

lemma demo_facade:
  "\<exists>s. BfdCodis_new redis_lib demo_zk 0 7 ''zk'' ''/p'' ''shop'' no_facade = (Ret (), s) \<and>
     facade_rel redis_lib (\<lambda>w. w) redis_server (\<lambda>m k. tidy (m k)) ''shop'' (\<lambda>_. None) (2 ^ 31) s (\<lambda>_. None)"
  using startup_serves [OF redis_lib_reliable demo_apart no_facade_simps(1-3) demo_connects demo_steady demo_children,
      where up = "\<lambda>_. Some (''10.0.0.1'', 19000)" and db = "\<lambda>m k. tidy (m k)" and sp = 0 and a = 7 and bid = "''shop''"]
  by (simp add: demo_online demo_threads List.map_filter_def no_facade_simps(4) restrict_map_def comp_def demo_terminated)

text \<open>C7: Making the facade over a ZooKeeper that connects within 10000 polls, and in which a proxy is online in nodes that do not
  change while they are read, has one of two results. When for every node the memory its buffer is allocated in happens to hold a zero behind the
  data (\<open>terminated\<close>), the facade is ready for 2147483648 calls: its list has a client for every
  proxy that is online, and the database it stands for is what the server holds under the business ID. Otherwise the
  construction reads a node past the end of its buffer. Nothing is assumed of fresh memory but its size. ZooKeeper does not touch
  the redis server (\<open>stays_apart\<close>), the threads of the clients can be started (\<open>threads_ok\<close>), and connections work (\<open>reliable\<close>).\<close>

theorem startup_reaches_database:
  fixes s :: "'w bfd_state" and st :: "'w \<Rightarrow> 'm"
  assumes "reliable H st srv" and "stays_apart Z st" and "heap_ok (rr_sys (bfd_rr s))"
      "dom (rr_clients (bfd_rr s)) \<subseteq> {..<next_addr (rr_sys (bfd_rr s))}"
    and "zk_init Z (c_str zaddr) (world (rr_sys (bfd_rr s))) = (zh, w)"
      "k < 10000" "state_at Z zh k w = zoo_connected Z" "\<forall>j < k. state_at Z zh j w \<noteq> zoo_connected Z"
    and "steady Z zh dir node" and "\<And>w. zk_children Z zh (c_str dir) w = ((ZOK, names), w)"
    and "\<And>name. name \<in> set names \<Longrightarrow> case up name of Some info \<Rightarrow> online_node Z (node name) info
             | None \<Rightarrow> offline_node Z (node name)"
    and "threads_ok Z" "length names < 2 ^ 31" and "List.map_filter up names \<noteq> []"
  shows "\<exists>s'. if \<forall>name \<in> set names. terminated Z (polled Z zh (Suc k) w) (node name)
    then BfdCodis_new H Z sp a zaddr dir bid s = (Ret (), s') \<and>
      facade_rel H st srv db bid (db (st (world (rr_sys (bfd_rr s)))) |` (- range (ns_key bid))) (2 ^ 31) s'
        (db (st (world (rr_sys (bfd_rr s)))) \<circ> ns_key bid)
    else BfdCodis_new H Z sp a zaddr dir bid s = (Abrupt (Undef OutOfBounds), s')"
  using startup_serves [OF assms] startup_over [OF assms(5-11), of H sp a bid] by meson

theorem startup_reaches_database_witness:
  "\<exists>s. BfdCodis_new redis_lib demo_zk 0 7 ''zk'' ''/p'' ''shop'' no_facade = (Ret (), s) \<and>
     facade_rel redis_lib (\<lambda>w. w) redis_server (\<lambda>m k. tidy (m k)) ''shop'' (\<lambda>_. None) (2 ^ 31) s (\<lambda>_. None)"
  using startup_reaches_database [OF redis_lib_reliable demo_apart no_facade_simps(1-3) demo_connects demo_steady
      demo_children, where up = "\<lambda>_. Some (''10.0.0.1'', 19000)" and db = "\<lambda>m k. tidy (m k)" and sp = 0 and a = 7 and bid = "''shop''"]
  by (simp add: demo_online demo_threads List.map_filter_def no_facade_simps(4) restrict_map_def comp_def demo_terminated)

text \<open>C2: The facade over its pool of proxies implements the same specification as one client: whichever clients serve
  the calls, and although each has connections of its own, any sequence of calls returns what the specification of a
  single database prescribes, call by call.\<close>

theorem facade_refines_redis:
  assumes "speaks_redis srv db" and "list_all specified calls"
    and "facade_rel H st srv db bid rest (length calls + k) s m"
    and "mapM_prog (facade_run H) calls s = (r, s')"
  shows "\<exists>m'. in_turn redis_spec calls m r m' \<and> facade_rel H st srv db bid rest k s' m'"
  using facade.calls [OF assms(2) conjI [OF assms(1,3)] assms(4)] by blast

theorem facade_refines_redis_witness:
  "\<exists>s s'. BfdCodis_new redis_lib demo_zk 0 7 ''zk'' ''/p'' ''shop'' no_facade = (Ret (), s) \<and>
     mapM_prog (facade_run redis_lib)
       [OnHash (call_hset ''h'' ''f'' ''x'' 0), OnKey (call_type ''h'' 0), OnString (call_get ''h'' 0), OnHash (call_hget ''h'' ''f'' 0)] s =
     (Ret [Bool_v True, Str_v ''hash'', Str_v '''', Str_v ''x''], s')"
proof -
  let ?calls = "[OnHash (call_hset ''h'' ''f'' ''x'' 0), OnKey (call_type ''h'' 0), OnString (call_get ''h'' 0), OnHash (call_hget ''h'' ''f'' 0)]"
  from demo_facade obtain s where s: "BfdCodis_new redis_lib demo_zk 0 7 ''zk'' ''/p'' ''shop'' no_facade = (Ret (), s)"
    "facade_rel redis_lib (\<lambda>w. w) redis_server (\<lambda>m k. tidy (m k)) ''shop'' (\<lambda>_. None) (length ?calls + 2147483644) s (\<lambda>_. None)"
    by auto
  obtain r s' where run: "mapM_prog (facade_run redis_lib) ?calls s = (r, s')" by (metis prod.collapse)
  have "list_all specified ?calls" by simp
  from facade_refines_redis [OF redis_server_speaks this s(2) run] obtain m' where "in_turn redis_spec ?calls (\<lambda>_. None) r m'" by blast
  then have "r = Ret [Bool_v True, Str_v ''hash'', Str_v '''', Str_v ''x'']"
    by (auto simp: gives_def too_big_def fits_def or_empty_def)
  with s(1) run show ?thesis by auto
qed

text \<open>C8: When the children of the proxy directory change and some proxy is online in nodes that do not change while they
  are read, the refresh has one of two results. When for every node the memory its buffer is allocated in happens to hold a zero
  behind the data, the list of clients is replaced while the facade goes on to stand for the same database, good for
  as many calls as before: the data a caller sees do not depend on which proxies there are. Otherwise the refresh reads a node past
  the end of its buffer. Nothing is assumed of fresh memory but its size.\<close>

theorem refresh_keeps_database:
  assumes "facade_rel H st srv db bid rest k s m" and "stays_apart Z st"
    and "steady Z (m_Zh (rr_pool (bfd_rr s))) (m_ProxyPath (rr_pool (bfd_rr s))) node"
    and "\<And>w. zk_children Z (m_Zh (rr_pool (bfd_rr s))) (c_str (m_ProxyPath (rr_pool (bfd_rr s)))) w = ((ZOK, names), w)"
    and "\<And>name. name \<in> set names \<Longrightarrow> case up name of Some info \<Rightarrow> online_node Z (node name) info
             | None \<Rightarrow> offline_node Z (node name)"
    and "threads_ok Z" "zev_child Z \<notin> {zev_session Z, zev_changed Z, zev_deleted Z}" "length names < 2 ^ 31"
    and "List.map_filter up names \<noteq> []"
  shows "\<exists>t. if \<forall>name \<in> set names. terminated Z (world (rr_sys (bfd_rr s))) (node name)
    then proxy_watcher H Z sp (zev_child Z) (zoo_connected Z) (bfd_rr s) = (Ret (), t) \<and>
      facade_rel H st srv db bid rest k (s\<lparr>bfd_rr := t\<rparr>) m
    else proxy_watcher H Z sp (zev_child Z) (zoo_connected Z) (bfd_rr s) = (Abrupt (Undef OutOfBounds), t)"
  using refresh_serves [OF assms] refresh_over [OF assms(3-5,7), of H sp] by meson

theorem refresh_keeps_database_witness:
  "\<exists>s t. BfdCodis_new redis_lib demo_zk 0 7 ''zk'' ''/p'' ''shop'' no_facade = (Ret (), s) \<and>
     proxy_watcher redis_lib demo_zk 0 4 3 (bfd_rr s) = (Ret (), t) \<and>
     facade_rel redis_lib (\<lambda>w. w) redis_server (\<lambda>m k. tidy (m k)) ''shop'' (\<lambda>_. None) (2 ^ 31) (s\<lparr>bfd_rr := t\<rparr>) (\<lambda>_. None)"
proof -
  from demo_facade obtain s where s: "BfdCodis_new redis_lib demo_zk 0 7 ''zk'' ''/p'' ''shop'' no_facade = (Ret (), s)"
    "facade_rel redis_lib (\<lambda>w. w) redis_server (\<lambda>m k. tidy (m k)) ''shop'' (\<lambda>_. None) (2 ^ 31) s (\<lambda>_. None)" by blast
  have ev: "zev_child demo_zk = 4" "zoo_connected demo_zk = 3" "4 \<notin> {zev_session demo_zk, zev_changed demo_zk, zev_deleted demo_zk}"
    by (simp_all add: demo_zk_def)
  from refresh_keeps_database [OF s(2) demo_apart demo_steady demo_children, of "\<lambda>_. Some (''10.0.0.1'', 19000)" 0,
      unfolded ev(1,2)] ev(3) s(1)
  show ?thesis by (simp add: demo_online demo_threads List.map_filter_def demo_terminated)
qed

end
